(* ===== verification/Prelude.thy ===== *)
theory Prelude
  imports Main "HOL-Library.Word" "HOL-Library.AList"
begin

text \<open>
  Shared vocabulary of the development.

  \<^item> Rust's integer types as words of their width, and the operations the code uses on them:
    the \<open>checked_*\<close> and \<open>saturating_*\<close> families, \<open>try_from\<close>, widening \<open>from\<close>, and the
    plain operators. A plain operator that leaves the type's range panics in a build with
    overflow checks and wraps in one without; it is modelled as \<open>Panic\<close>, so a theorem that a
    handler never panics covers both builds.
  \<^item> \<open>result\<close>: Rust's \<open>Result\<close> with a third outcome for a panic, and the combinators the
    handlers are written with (\<open>?\<close> is \<open>and_then\<close>, early returns are \<open>ensure\<close>).
  \<^item> the key-value tables a module keeps in its database, with the interface they offer as the
    locale \<open>kv_store\<close> (\<open>get_value\<close>, \<open>insert_entry\<close>, \<open>remove_entry\<close>, \<open>find_by_prefix\<close>).
  \<^item> the locale \<open>guarded_system\<close>: reachability of a state machine and the invariant rule.

  The lemmas of the collection \<open>word_arith\<close> turn every word operation into a statement
  about natural numbers.
\<close>

named_theorems word_arith \<open>word operations as statements about natural numbers\<close>

type_synonym u8 = "8 word"
type_synonym u16 = "16 word"
type_synonym u32 = "32 word"
type_synonym u64 = "64 word"
type_synonym u128 = "128 word"

text \<open>The federation's types both modules use; a key is its serialisation.\<close>

type_synonym Amount = u64
type_synonym AmountUnit = u64
type_synonym PeerId = u16
type_synonym PublicKey = "u8 list"

section \<open>Results\<close>

datatype ('a, 'e) result = Ok 'a | Err 'e | Panic

definition and_then :: "('a, 'e) result \<Rightarrow> ('a \<Rightarrow> ('b, 'e) result) \<Rightarrow> ('b, 'e) result" where
  "and_then m f = (case m of Ok x \<Rightarrow> f x | Err e \<Rightarrow> Err e | Panic \<Rightarrow> Panic)"

definition map_err :: "('e \<Rightarrow> 'f) \<Rightarrow> ('a, 'e) result \<Rightarrow> ('a, 'f) result" where
  "map_err g m = (case m of Ok x \<Rightarrow> Ok x | Err e \<Rightarrow> Err (g e) | Panic \<Rightarrow> Panic)"

definition ok_or :: "'a option \<Rightarrow> 'e \<Rightarrow> ('a, 'e) result" where
  "ok_or m e = (case m of None \<Rightarrow> Err e | Some x \<Rightarrow> Ok x)"

definition expect :: "'a option \<Rightarrow> ('a, 'e) result" where
  "expect m = (case m of None \<Rightarrow> Panic | Some x \<Rightarrow> Ok x)"

definition ensure :: "bool \<Rightarrow> 'e \<Rightarrow> (unit, 'e) result" where
  "ensure c e = (if c then Ok () else Err e)"

lemma and_then_simps [simp]:
  "and_then (Ok x) f = f x"
  "and_then (Err e) f = Err e"
  "and_then Panic f = Panic"
  by (simp_all add: and_then_def)

lemma and_then_eq_Ok: "and_then m f = Ok y \<longleftrightarrow> (\<exists>x. m = Ok x \<and> f x = Ok y)"
  by (cases m) auto

lemma and_then_eq_Err:
  "and_then m f = Err e \<longleftrightarrow> m = Err e \<or> (\<exists>x. m = Ok x \<and> f x = Err e)"
  by (cases m) auto

lemma and_then_eq_Panic:
  "and_then m f = Panic \<longleftrightarrow> m = Panic \<or> (\<exists>x. m = Ok x \<and> f x = Panic)"
  by (cases m) auto

lemma map_err_simps [simp]:
  "map_err g (Ok x) = Ok x"
  "map_err g (Err e) = Err (g e)"
  "map_err g Panic = Panic"
  by (simp_all add: map_err_def)

lemma map_err_eq [simp]:
  "map_err g m = Ok y \<longleftrightarrow> m = Ok y"
  "map_err g m = Panic \<longleftrightarrow> m = Panic"
  by (cases m; simp)+

lemma map_err_eq_Err: "map_err g m = Err e \<longleftrightarrow> (\<exists>e'. m = Err e' \<and> g e' = e)"
  by (cases m) auto

lemma ok_or_simps [simp]:
  "ok_or (Some x) e = Ok x"
  "ok_or None e = Err e"
  by (simp_all add: ok_or_def)

lemma ok_or_eq [simp]:
  "ok_or m e = Ok y \<longleftrightarrow> m = Some y"
  "ok_or m e = Err e' \<longleftrightarrow> m = None \<and> e' = e"
  "ok_or m e \<noteq> Panic"
  by (cases m; auto)+

lemma expect_eq [simp]:
  "expect m = Ok y \<longleftrightarrow> m = Some y"
  "expect m \<noteq> Err e"
  "expect m = Panic \<longleftrightarrow> m = None"
  by (cases m; simp add: expect_def)+

lemma ensure_eq [simp]:
  "ensure c e = Ok u \<longleftrightarrow> c"
  "ensure c e = Err e' \<longleftrightarrow> \<not> c \<and> e' = e"
  "ensure c e \<noteq> Panic"
  by (auto simp: ensure_def)

lemmas result_eqs = and_then_eq_Ok and_then_eq_Err and_then_eq_Panic map_err_eq_Err

section \<open>Integers\<close>

definition checked_add :: "'a::len word \<Rightarrow> 'a word \<Rightarrow> 'a word option" where
  "checked_add a b = (if unat a + unat b < 2 ^ LENGTH('a) then Some (a + b) else None)"

definition checked_sub :: "'a::len word \<Rightarrow> 'a word \<Rightarrow> 'a word option" where
  "checked_sub a b = (if unat b \<le> unat a then Some (a - b) else None)"

definition checked_mul :: "'a::len word \<Rightarrow> 'a word \<Rightarrow> 'a word option" where
  "checked_mul a b = (if unat a * unat b < 2 ^ LENGTH('a) then Some (a * b) else None)"

definition checked_div :: "'a::len word \<Rightarrow> 'a word \<Rightarrow> 'a word option" where
  "checked_div a b = (if b = 0 then None else Some (a div b))"

definition saturating_sub :: "'a::len word \<Rightarrow> 'a word \<Rightarrow> 'a word" where
  "saturating_sub a b = (if unat b \<le> unat a then a - b else 0)"

definition saturating_add :: "'a::len word \<Rightarrow> 'a word \<Rightarrow> 'a word" where
  "saturating_add a b = (if unat a + unat b < 2 ^ LENGTH('a) then a + b else - 1)"

definition saturating_mul :: "'a::len word \<Rightarrow> 'a word \<Rightarrow> 'a word" where
  "saturating_mul a b = (if unat a * unat b < 2 ^ LENGTH('a) then a * b else - 1)"

definition try_into :: "'a::len word \<Rightarrow> 'b::len word option" where
  "try_into w = (if unat w < 2 ^ LENGTH('b) then Some (ucast w) else None)"

text \<open>The plain operators: \<open>Panic\<close> outside the range of the type.\<close>

definition add_p :: "'a::len word \<Rightarrow> 'a word \<Rightarrow> ('a word, 'e) result" where
  "add_p a b = expect (checked_add a b)"

definition sub_p :: "'a::len word \<Rightarrow> 'a word \<Rightarrow> ('a word, 'e) result" where
  "sub_p a b = expect (checked_sub a b)"

definition mul_p :: "'a::len word \<Rightarrow> 'a word \<Rightarrow> ('a word, 'e) result" where
  "mul_p a b = expect (checked_mul a b)"

definition div_p :: "'a::len word \<Rightarrow> 'a word \<Rightarrow> ('a word, 'e) result" where
  "div_p a b = expect (checked_div a b)"

text \<open>\<open>u128::isqrt\<close>: the integer square root, two bits at a time.\<close>

fun isqrt_nat :: "nat \<Rightarrow> nat" where
  "isqrt_nat n =
     (if n < 2 then n
      else let r = 2 * isqrt_nat (n div 4)
           in if (r + 1) * (r + 1) \<le> n then r + 1 else r)"

declare isqrt_nat.simps [simp del]

definition isqrt :: "'a::len word \<Rightarrow> 'a word" where
  "isqrt w = of_nat (isqrt_nat (unat w))"

lemma unat_bound: "unat (w :: 'a::len word) < 2 ^ LENGTH('a)"
  by (rule unsigned_less)

lemma unat_u64: "unat (w :: u64) < 18446744073709551616"
  using unat_bound [of w] by simp

lemma unat_u128: "unat (w :: u128) < 340282366920938463463374607431768211456"
  using unat_bound [of w] by simp

lemma unat_u16: "unat (w :: u16) < 65536"
  using unat_bound [of w] by simp

lemma word_eq_unat: "a = b \<longleftrightarrow> unat a = unat b"
  for a b :: "'a::len word"
  by (auto dest: word_unat_eq_iff [THEN iffD2])

lemma word_eq_0 [word_arith]: "w = 0 \<longleftrightarrow> unat w = 0" for w :: "'a::len word"
  by (simp add: word_eq_unat)

lemma unat_ucast_widen:
  "LENGTH('a) \<le> LENGTH('b) \<Longrightarrow> unat (ucast (w :: 'a::len word) :: 'b::len word) = unat w"
  by transfer (simp add: take_bit_take_bit min_def nat_eq_iff)

lemma unat_widen [simp]:
  "unat (ucast (w :: u64) :: u128) = unat w"
  "unat (ucast (v :: u16) :: u128) = unat v"
  "unat (ucast (v :: u16) :: u64) = unat v"
  by (simp_all add: unat_ucast_widen)

lemma checked_add_Some [word_arith]: "checked_add a b = Some c \<longleftrightarrow> unat c = unat a + unat b"
proof (cases "unat a + unat b < 2 ^ LENGTH('a)")
  case True
  then have "unat (a + b) = unat a + unat b" by (simp add: unat_word_ariths)
  with True show ?thesis by (auto simp: checked_add_def word_eq_unat)
next
  case False
  then have "unat c \<noteq> unat a + unat b" using unat_bound [of c] by linarith
  with False show ?thesis by (simp add: checked_add_def)
qed

lemma checked_add_None [word_arith]:
  "checked_add a b = None \<longleftrightarrow> 2 ^ LENGTH('a) \<le> unat a + unat b" for a b :: "'a::len word"
  by (auto simp: checked_add_def)

lemma checked_sub_Some [word_arith]:
  "checked_sub a b = Some c \<longleftrightarrow> unat b \<le> unat a \<and> unat c = unat a - unat b"
  by (auto simp: checked_sub_def word_eq_unat unat_sub_if')

lemma checked_sub_None [word_arith]: "checked_sub a b = None \<longleftrightarrow> unat a < unat b"
  by (auto simp: checked_sub_def)

lemma checked_mul_Some [word_arith]: "checked_mul a b = Some c \<longleftrightarrow> unat c = unat a * unat b"
proof (cases "unat a * unat b < 2 ^ LENGTH('a)")
  case True
  then have "unat (a * b) = unat a * unat b" by (simp add: unat_word_ariths)
  with True show ?thesis by (auto simp: checked_mul_def word_eq_unat)
next
  case False
  then have "unat c \<noteq> unat a * unat b" using unat_bound [of c] by linarith
  with False show ?thesis by (simp add: checked_mul_def)
qed

lemma checked_mul_None [word_arith]:
  "checked_mul a b = None \<longleftrightarrow> 2 ^ LENGTH('a) \<le> unat a * unat b" for a b :: "'a::len word"
  by (auto simp: checked_mul_def)

lemma checked_div_Some [word_arith]:
  "checked_div a b = Some c \<longleftrightarrow> unat b \<noteq> 0 \<and> unat c = unat a div unat b"
  by (auto simp: checked_div_def word_eq_unat unat_div)

lemma checked_div_None [word_arith]: "checked_div a b = None \<longleftrightarrow> unat b = 0"
  by (auto simp: checked_div_def word_eq_unat)

lemma try_into_Some [word_arith]: "try_into w = Some c \<longleftrightarrow> unat c = unat w"
  for w :: "'a::len word" and c :: "'b::len word"
proof -
  have "unat (ucast w :: 'b word) = unat w" if "unat w < 2 ^ LENGTH('b)"
    using that by (simp add: unsigned_ucast_eq take_bit_nat_eq_self)
  then show ?thesis
    by (auto simp: try_into_def word_eq_unat) (metis unat_bound)
qed

lemma try_into_None [word_arith]:
  "try_into w = (None :: 'b word option) \<longleftrightarrow> 2 ^ LENGTH('b::len) \<le> unat w"
  by (auto simp: try_into_def)

lemma unat_saturating_sub [simp]: "unat (saturating_sub a b) = unat a - unat b"
  by (simp add: saturating_sub_def unat_sub_if')

lemma sat_add_exact:
  "unat a + unat b < 2 ^ LENGTH('a) \<Longrightarrow> unat (saturating_add a b) = unat a + unat (b :: 'a::len word)"
  by (simp add: saturating_add_def unat_word_ariths)

lemma unat_minus_1: "unat (- 1 :: 'a::len word) = 2 ^ LENGTH('a) - 1"
  by (simp add: unsigned_minus_1_eq_mask mask_eq_exp_minus_1)

lemma unat_saturating_mul:
  "unat (saturating_mul a b) = min (unat a * unat b) (2 ^ LENGTH('a) - 1)"
  for a b :: "'a::len word"
  by (auto simp: saturating_mul_def unat_word_ariths unat_minus_1)

lemma op_p_Ok [word_arith]:
  "add_p a b = Ok c \<longleftrightarrow> unat c = unat a + unat b"
  "sub_p a b = Ok c \<longleftrightarrow> unat b \<le> unat a \<and> unat c = unat a - unat b"
  "mul_p a b = Ok c \<longleftrightarrow> unat c = unat a * unat b"
  "div_p a b = Ok c \<longleftrightarrow> unat b \<noteq> 0 \<and> unat c = unat a div unat b"
  by (simp_all add: add_p_def sub_p_def mul_p_def div_p_def word_arith)

lemma op_p_Panic [word_arith]:
  fixes a b :: "'a::len word"
  shows "add_p a b = Panic \<longleftrightarrow> 2 ^ LENGTH('a) \<le> unat a + unat b"
    and "sub_p a b = Panic \<longleftrightarrow> unat a < unat b"
    and "mul_p a b = Panic \<longleftrightarrow> 2 ^ LENGTH('a) \<le> unat a * unat b"
    and "div_p a b = Panic \<longleftrightarrow> unat b = 0"
  by (simp_all add: add_p_def sub_p_def mul_p_def div_p_def word_arith)

lemma op_p_Err [simp]:
  "add_p a b \<noteq> Err e" "sub_p a b \<noteq> Err e" "mul_p a b \<noteq> Err e" "div_p a b \<noteq> Err e"
  by (simp_all add: add_p_def sub_p_def mul_p_def div_p_def)

lemma le_div_mult: "x \<le> y div d \<Longrightarrow> x * d \<le> y" for x y d :: nat
  by (rule order_trans [OF mult_le_mono1 div_times_less_eq_dividend])

lemma div_le_of_le_mult: "x \<le> q * d \<Longrightarrow> x div d \<le> q" for x q d :: nat
proof (cases "d = 0")
  case False
  assume "x \<le> q * d"
  then have "x div d \<le> q * d div d" by (rule div_le_mono)
  with False show ?thesis by simp
qed simp

text \<open>In range, a plain operator returns; these introduce its result in a proof.\<close>

lemma op_p_returns:
  fixes a b :: "'a::len word"
  shows "unat a + unat b < 2 ^ LENGTH('a) \<Longrightarrow> \<exists>c. (add_p a b :: ('a word, 'e) result) = Ok c \<and> unat c = unat a + unat b"
    and "unat b \<le> unat a \<Longrightarrow> \<exists>c. (sub_p a b :: ('a word, 'e) result) = Ok c \<and> unat c = unat a - unat b"
    and "unat a * unat b < 2 ^ LENGTH('a) \<Longrightarrow> \<exists>c. (mul_p a b :: ('a word, 'e) result) = Ok c \<and> unat c = unat a * unat b"
    and "unat b \<noteq> 0 \<Longrightarrow> \<exists>c. (div_p a b :: ('a word, 'e) result) = Ok c \<and> unat c = unat a div unat b"
  by (metis op_p_Ok op_p_Panic op_p_Err result.exhaust not_le)+

lemma isqrt_nat_correct:
  "isqrt_nat n * isqrt_nat n \<le> n \<and> n < (isqrt_nat n + 1) * (isqrt_nat n + 1)"
proof (induction n rule: isqrt_nat.induct)
  case (1 n)
  show ?case
  proof (cases "n < 2")
    case True
    then have "isqrt_nat n = n" by (simp add: isqrt_nat.simps [of n])
    with True show ?thesis by (auto simp: less_2_cases_iff)
  next
    case False
    define q where "q = isqrt_nat (n div 4)"
    have "q * q \<le> n div 4" and "n div 4 < (q + 1) * (q + 1)"
      using "1.IH" [OF False] by (simp_all add: q_def)
    moreover have "4 * a \<le> n" if "a \<le> n div 4" for a using that by linarith
    moreover have "n < 4 * a" if "n div 4 < a" for a using that by linarith
    ultimately have "4 * (q * q) \<le> n" and "n < 4 * ((q + 1) * (q + 1))"
      by blast+
    then have lo: "(2 * q) * (2 * q) \<le> n" and hi: "n < ((2 * q + 1) + 1) * ((2 * q + 1) + 1)"
      by (simp_all add: algebra_simps)
    have r: "isqrt_nat n = (if (2 * q + 1) * (2 * q + 1) \<le> n then 2 * q + 1 else 2 * q)"
      using False unfolding q_def Let_def by (subst isqrt_nat.simps) (simp only: if_False Let_def)
    show ?thesis
    proof (cases "(2 * q + 1) * (2 * q + 1) \<le> n")
      case True
      then have e: "isqrt_nat n = 2 * q + 1" using r by (simp only: if_True)
      from True hi show ?thesis unfolding e by blast
    next
      case False
      then have e: "isqrt_nat n = 2 * q" using r by (simp only: if_False)
      from False lo show ?thesis unfolding e by linarith
    qed
  qed
qed

lemma isqrt_nat_le: "isqrt_nat n \<le> n"
  using isqrt_nat_correct [of n] by (cases "isqrt_nat n") auto

lemma unat_isqrt [word_arith]: "unat (isqrt w) = isqrt_nat (unat w)"
proof -
  have "isqrt_nat (unat w) < 2 ^ LENGTH('a)"
    using isqrt_nat_le [of "unat w"] unat_bound [of w] by linarith
  then show ?thesis
    by (simp add: isqrt_def unat_of_nat)
qed

lemma unat_min [simp]: "unat (min a b) = min (unat a) (unat b)"
  by (simp add: min_def word_le_nat_alt)

lemmas word_order [word_arith] = word_less_nat_alt word_le_nat_alt

text \<open>For evaluating the operations on concrete words.\<close>

lemmas eval_ops = checked_add_def checked_sub_def checked_mul_def checked_div_def try_into_def
  add_p_def sub_p_def mul_p_def div_p_def expect_def saturating_sub_def saturating_add_def
  saturating_mul_def isqrt_def

section \<open>Tables\<close>

text \<open>
  A table of the module's database: its rows in some order, at most one per key. \<open>tally\<close>
  sums a quantity over the rows.
\<close>

type_synonym ('k, 'v) table = "('k \<times> 'v) list"

definition tally :: "('k \<Rightarrow> 'v \<Rightarrow> nat) \<Rightarrow> ('k \<times> 'v) list \<Rightarrow> nat" where
  "tally g rows = (\<Sum>(k, v)\<leftarrow>rows. g k v)"

definition wf_table :: "('k, 'v) table \<Rightarrow> bool" where
  "wf_table t \<longleftrightarrow> distinct (map fst t)"

text \<open>
  The interface of a database table, as the handlers use it: a point lookup, an insertion that
  overwrites, a removal, and a scan of all rows. The laws are those of a dictionary; the lemmas
  derive from them how the sum of a quantity over the rows changes.
\<close>

locale kv_store =
  fixes get :: "'t \<Rightarrow> 'k \<Rightarrow> 'v option"
    and insert_entry :: "'k \<Rightarrow> 'v \<Rightarrow> 't \<Rightarrow> 't"
    and remove_entry :: "'k \<Rightarrow> 't \<Rightarrow> 't"
    and rows :: "'t \<Rightarrow> ('k \<times> 'v) list"
    and wf :: "'t \<Rightarrow> bool"
  assumes get_insert: "get (insert_entry k v t) k' = (if k' = k then Some v else get t k')"
    and get_remove: "wf t \<Longrightarrow> get (remove_entry k t) k' = (if k' = k then None else get t k')"
    and wf_insert: "wf t \<Longrightarrow> wf (insert_entry k v t)"
    and wf_remove: "wf t \<Longrightarrow> wf (remove_entry k t)"
    and get_rows: "wf t \<Longrightarrow> get t k = Some v \<longleftrightarrow> (k, v) \<in> set (rows t)"
    and distinct_rows: "wf t \<Longrightarrow> distinct (map fst (rows t))"
begin

lemma tally_rows:
  assumes "wf t"
  shows "tally g (rows t) = (\<Sum>(k, v)\<in>set (rows t). g k v)"
proof -
  have "distinct (rows t)"
    using distinct_rows [OF assms] by (simp add: distinct_map)
  then show ?thesis
    by (simp add: tally_def sum_list_distinct_conv_sum_set)
qed

lemma rows_insert:
  assumes "wf t"
  shows "set (rows (insert_entry k v t)) = insert (k, v) {kv \<in> set (rows t). fst kv \<noteq> k}"
proof -
  have "(a, b) \<in> set (rows (insert_entry k v t)) \<longleftrightarrow>
      (a, b) = (k, v) \<or> (a, b) \<in> set (rows t) \<and> a \<noteq> k" for a b
    using get_rows [OF wf_insert [OF assms], of k v a b] get_rows [OF assms, of a b]
    by (auto simp: get_insert split: if_splits)
  then show ?thesis by auto
qed

lemma rows_remove:
  assumes "wf t"
  shows "set (rows (remove_entry k t)) = {kv \<in> set (rows t). fst kv \<noteq> k}"
proof -
  have "(a, b) \<in> set (rows (remove_entry k t)) \<longleftrightarrow> (a, b) \<in> set (rows t) \<and> a \<noteq> k" for a b
    using get_rows [OF wf_remove [OF assms], of k a b] get_rows [OF assms, of a b]
    by (auto simp: get_remove [OF assms] split: if_splits)
  then show ?thesis by auto
qed

lemma rows_split:
  assumes "wf t" and "get t k = Some v"
  shows "set (rows t) = insert (k, v) {kv \<in> set (rows t). fst kv \<noteq> k}"
proof -
  have "(k, w) \<in> set (rows t) \<longleftrightarrow> w = v" for w
    using assms(2) get_rows [OF assms(1), of k w] by (metis option.inject)
  then have "(a, b) \<in> set (rows t) \<longleftrightarrow> (a, b) = (k, v) \<or> (a, b) \<in> set (rows t) \<and> a \<noteq> k" for a b
    by blast
  then show ?thesis by (intro set_eqI) (metis (mono_tags, lifting) insert_iff mem_Collect_eq prod.collapse)
qed

lemma sum_split:
  fixes g :: "'k \<Rightarrow> 'v \<Rightarrow> nat"
  shows "(\<Sum>(k, v)\<in>insert (k, v) {kv \<in> set xs. fst kv \<noteq> k}. g k v) =
    g k v + (\<Sum>(k, v)\<in>{kv \<in> set xs. fst kv \<noteq> k}. g k v)"
  by (subst sum.insert) auto

lemma tally_split:
  assumes "wf t"
  shows "tally g (rows t) = (case get t k of None \<Rightarrow> 0 | Some w \<Rightarrow> g k w) +
    (\<Sum>(k, v)\<in>{kv \<in> set (rows t). fst kv \<noteq> k}. g k v)"
proof (cases "get t k")
  case None
  then have "{kv \<in> set (rows t). fst kv \<noteq> k} = set (rows t)"
    using get_rows [OF assms, of k] by auto
  with None show ?thesis by (simp only: tally_rows [OF assms]) simp
next
  case (Some w)
  have "tally g (rows t) = (\<Sum>(k, v)\<in>insert (k, w) {kv \<in> set (rows t). fst kv \<noteq> k}. g k v)"
    using arg_cong [OF rows_split [OF assms Some], of "sum (\<lambda>(k, v). g k v)"]
    by (simp only: tally_rows [OF assms])
  with Some show ?thesis by (simp only: sum_split option.case)
qed

lemma tally_remove:
  assumes "wf t" and "get t k = Some v"
  shows "tally g (rows t) = tally g (rows (remove_entry k t)) + g k v"
  using tally_split [OF assms(1), of g k] assms(2)
  by (simp add: tally_rows [OF wf_remove [OF assms(1)]] rows_remove [OF assms(1)])

lemma tally_insert:
  assumes "wf t"
  shows "tally g (rows (insert_entry k v t)) + (case get t k of None \<Rightarrow> 0 | Some w \<Rightarrow> g k w) =
    tally g (rows t) + g k v"
  using tally_split [OF assms, of g k]
  by (simp only: tally_rows [OF wf_insert [OF assms]] rows_insert [OF assms] sum_split)

lemma tally_ge:
  assumes "wf t" and "get t k = Some v"
  shows "g k v \<le> tally g (rows t)"
  using tally_remove [OF assms] by simp

lemma all_rows_insert:
  assumes "wf t" and "\<forall>(k, v)\<in>set (rows t). P k v" and "P k v"
  shows "\<forall>(k, v)\<in>set (rows (insert_entry k v t)). P k v"
  using assms(2,3) by (auto simp: rows_insert [OF assms(1)])

lemma all_rows_remove:
  assumes "wf t" and "\<forall>(k, v)\<in>set (rows t). P k v"
  shows "\<forall>(k, v)\<in>set (rows (remove_entry k t)). P k v"
  using assms(2) by (auto simp: rows_remove [OF assms(1)])

end

interpretation tbl: kv_store map_of AList.update AList.delete "\<lambda>t. t" wf_table
  by unfold_locales
    (auto simp: wf_table_def update_conv' delete_conv' distinct_update distinct_delete)

lemma wf_table_Nil [simp]: "wf_table []"
  by (simp add: wf_table_def)

lemma tally_Nil [simp]: "tally g [] = 0"
  by (simp add: tally_def)

lemma tally_Cons [simp]: "tally g ((k, v) # t) = g k v + tally g t"
  by (simp add: tally_def)

lemma tally_mono:
  assumes "\<And>k v. (k, v) \<in> set t \<Longrightarrow> g k v \<le> h k v"
  shows "tally g t \<le> tally h t"
  unfolding tally_def using assms by (intro sum_list_mono) auto

lemma tally_0: "(\<And>k v. (k, v) \<in> set t \<Longrightarrow> g k v = 0) \<Longrightarrow> tally g t = 0"
  unfolding tally_def by (intro sum_list_0 [THEN trans [rotated]]) (auto intro!: arg_cong [where f = sum_list])

section \<open>State machines\<close>

text \<open>
  A state machine given by its start states and its steps, with the labels of the steps. The
  invariant rule is proved once here and used for every module of the program.
\<close>

inductive reachable :: "('s \<Rightarrow> bool) \<Rightarrow> ('s \<Rightarrow> 'l \<Rightarrow> 's \<Rightarrow> bool) \<Rightarrow> 's \<Rightarrow> bool"
  for start and step where
  start: "start s \<Longrightarrow> reachable start step s"
| step: "reachable start step s \<Longrightarrow> step s l s' \<Longrightarrow> reachable start step s'"

locale guarded_system =
  fixes start :: "'s \<Rightarrow> bool"
    and step :: "'s \<Rightarrow> 'l \<Rightarrow> 's \<Rightarrow> bool"
    and inv :: "'s \<Rightarrow> bool"
  assumes start_inv: "start s \<Longrightarrow> inv s"
    and step_inv: "step s l s' \<Longrightarrow> inv s \<Longrightarrow> inv s'"
begin

lemma reachable_inv: "reachable start step s \<Longrightarrow> inv s"
proof (induction rule: reachable.induct)
  case (start s)
  then show ?case by (rule start_inv)
next
  case (step s l s')
  from step.hyps(2) step.IH show ?case by (rule step_inv)
qed

lemma reachable_closed:
  assumes "\<And>s. start s \<Longrightarrow> P s"
    and "\<And>s l s'. inv s \<Longrightarrow> P s \<Longrightarrow> step s l s' \<Longrightarrow> P s'"
    and "reachable start step s"
  shows "P s"
  using assms(3)
proof (induction rule: reachable.induct)
  case (start s)
  then show ?case by (rule assms(1))
next
  case (step s l s')
  from reachable_inv [OF step.hyps(1)] step.IH step.hyps(2) show ?case by (rule assms(2))
qed

end

end
