(* ===== verification/Amm_Math.thy ===== *)
theory Amm_Math
  imports Prelude
begin

text \<open>
  The constant-product arithmetic of \<open>modules/amm/fedimint-amm-common/src/math.rs\<close>:
  \<open>amount_out\<close>, \<open>mint_shares\<close>, \<open>burn_shares\<close>, \<open>k_non_decreasing\<close> and
  \<open>price_impact_per_mille\<close>, on 64-bit amounts with 128-bit intermediates. Every plain operator
  is one that panics when it leaves its type; the first group of lemmas shows that none does
  and gives each function as a formula over natural numbers. The locale \<open>swap_curve\<close> states
  what settlement and the price keeper rely on and is interpreted on that formula.
\<close>

section \<open>Definitions\<close>

definition MAX_RESERVE :: u64 where
  "MAX_RESERVE = push_bit 58 1"

definition MINIMUM_LIQUIDITY :: u64 where
  "MINIMUM_LIQUIDITY = 1000"

datatype CurveError =
    ZeroAmount
  | ZeroReserve
  | ReserveCapExceeded
  | InvalidFee
  | OutputRoundsToZero
  | InsufficientLiquidity
  | InsufficientInitialLiquidity
  | InsufficientShares
  | Overflow

definition amount_out :: "u64 \<Rightarrow> u64 \<Rightarrow> u64 \<Rightarrow> u16 \<Rightarrow> (u64, CurveError) result" where
  "amount_out reserve_in reserve_out amount_in fee_per_mille =
     (if amount_in = 0 then Err ZeroAmount
      else if reserve_in = 0 \<or> reserve_out = 0 then Err ZeroReserve
      else if amount_in > MAX_RESERVE \<or> reserve_in > MAX_RESERVE \<or> reserve_out > MAX_RESERVE
        then Err ReserveCapExceeded
      else if fee_per_mille \<ge> 1000 then Err InvalidFee
      else
        and_then (sub_p 1000 fee_per_mille) (\<lambda>keep.
        and_then (mul_p (ucast amount_in :: u128) (ucast keep)) (\<lambda>in_with_fee.
        and_then (mul_p in_with_fee (ucast reserve_out)) (\<lambda>numerator.
        and_then (mul_p (ucast reserve_in) 1000) (\<lambda>scaled_in.
        and_then (add_p scaled_in in_with_fee) (\<lambda>denominator.
        and_then (div_p numerator denominator) (\<lambda>out.
          if out = 0 then Err OutputRoundsToZero
          else if out \<ge> ucast reserve_out then Err InsufficientLiquidity
          else ok_or (try_into out) Overflow)))))))"

record MintOutcome =
  to_owner :: u64
  minted_total :: u64

definition is_none_or :: "('a \<Rightarrow> bool) \<Rightarrow> 'a option \<Rightarrow> bool" where
  "is_none_or p m = (case m of None \<Rightarrow> True | Some x \<Rightarrow> p x)"

definition mint_shares :: "u64 \<Rightarrow> u64 \<Rightarrow> u64 \<Rightarrow> u64 \<Rightarrow> u64 \<Rightarrow> (MintOutcome, CurveError) result" where
  "mint_shares reserve_lo reserve_hi total_shares da db =
     (if da = 0 \<or> db = 0 then Err ZeroAmount
      else if da > MAX_RESERVE \<or> db > MAX_RESERVE then Err ReserveCapExceeded
      else if is_none_or (\<lambda>r. r > MAX_RESERVE) (checked_add reserve_lo da)
          \<or> is_none_or (\<lambda>r. r > MAX_RESERVE) (checked_add reserve_hi db)
        then Err ReserveCapExceeded
      else if total_shares = 0 then
        and_then (mul_p (ucast da :: u128) (ucast db)) (\<lambda>product.
        and_then (ok_or (try_into (isqrt product)) Overflow) (\<lambda>minted.
          if minted \<le> MINIMUM_LIQUIDITY then Err InsufficientInitialLiquidity
          else and_then (sub_p minted MINIMUM_LIQUIDITY) (\<lambda>owned.
            Ok \<lparr>to_owner = owned, minted_total = minted\<rparr>)))
      else if reserve_lo = 0 \<or> reserve_hi = 0 then Err ZeroReserve
      else
        and_then (mul_p (ucast da :: u128) (ucast total_shares)) (\<lambda>num_lo.
        and_then (div_p num_lo (ucast reserve_lo)) (\<lambda>via_lo.
        and_then (mul_p (ucast db :: u128) (ucast total_shares)) (\<lambda>num_hi.
        and_then (div_p num_hi (ucast reserve_hi)) (\<lambda>via_hi.
        and_then (ok_or (try_into (min via_lo via_hi)) Overflow) (\<lambda>minted.
          if minted = 0 then Err OutputRoundsToZero
          else and_then (ok_or (checked_add total_shares minted) Overflow) (\<lambda>new_total.
            Ok \<lparr>to_owner = minted, minted_total = new_total\<rparr>)))))))"

record BurnOutcome =
  burn_da :: u64
  burn_db :: u64
  burned_total :: u64

definition burn_shares :: "u64 \<Rightarrow> u64 \<Rightarrow> u64 \<Rightarrow> u64 \<Rightarrow> (BurnOutcome, CurveError) result" where
  "burn_shares reserve_lo reserve_hi total_shares shares =
     (if shares = 0 then Err ZeroAmount
      else if shares > total_shares then Err InsufficientShares
      else if total_shares = 0 then Err InsufficientShares
      else
        and_then (mul_p (ucast reserve_lo :: u128) (ucast shares)) (\<lambda>num_lo.
        and_then (div_p num_lo (ucast total_shares)) (\<lambda>wide_da.
        and_then (mul_p (ucast reserve_hi :: u128) (ucast shares)) (\<lambda>num_hi.
        and_then (div_p num_hi (ucast total_shares)) (\<lambda>wide_db.
        and_then (ok_or (try_into wide_da) Overflow) (\<lambda>da.
        and_then (ok_or (try_into wide_db) Overflow) (\<lambda>db.
          if da = 0 \<and> db = 0 then Err OutputRoundsToZero
          else and_then (sub_p total_shares shares) (\<lambda>new_total.
            Ok \<lparr>burn_da = da, burn_db = db, burned_total = new_total\<rparr>))))))))"

definition k_non_decreasing :: "u64 \<Rightarrow> u64 \<Rightarrow> u64 \<Rightarrow> u64 \<Rightarrow> (bool, 'e) result" where
  "k_non_decreasing r_in_old r_out_old r_in_new r_out_new =
     and_then (mul_p (ucast r_in_old :: u128) (ucast r_out_old)) (\<lambda>old.
     and_then (mul_p (ucast r_in_new :: u128) (ucast r_out_new)) (\<lambda>new.
       Ok (new \<ge> old)))"

definition price_impact_per_mille :: "u64 \<Rightarrow> u64 \<Rightarrow> u64 \<Rightarrow> u64 \<Rightarrow> (u64, 'e) result" where
  "price_impact_per_mille reserve_in reserve_out amount_in amt_out =
     and_then (mul_p (ucast amount_in :: u128) (ucast reserve_out)) (\<lambda>denominator.
       if denominator = 0 then Ok 0
       else
         and_then (mul_p (1000 :: u128) (ucast amt_out)) (\<lambda>scaled.
         and_then (mul_p scaled (ucast reserve_in)) (\<lambda>numerator.
         and_then (div_p numerator denominator) (\<lambda>ratio.
           let ratio_per_mille = (case try_into ratio of Some r \<Rightarrow> r | None \<Rightarrow> - 1)
           in Ok (saturating_sub 1000 ratio_per_mille)))))"

section \<open>The functions as formulas over natural numbers\<close>

definition curve_out :: "nat \<Rightarrow> nat \<Rightarrow> nat \<Rightarrow> nat \<Rightarrow> nat" where
  "curve_out ri ro a f = (a * (1000 - f) * ro) div (ri * 1000 + a * (1000 - f))"

lemma unat_MAX_RESERVE [simp]: "unat MAX_RESERVE = 2 ^ 58"
  by (simp add: MAX_RESERVE_def)

lemma unat_MINIMUM_LIQUIDITY [simp]: "unat MINIMUM_LIQUIDITY = 1000"
  by (simp add: MINIMUM_LIQUIDITY_def)

text \<open>A product of bounded factors is bounded: the only nonlinear step of the overflow proofs.\<close>

lemma mult_bound: "a \<le> A \<Longrightarrow> b \<le> B \<Longrightarrow> A * B < C \<Longrightarrow> a * b < (C :: nat)"
  by (meson mult_le_mono order_le_less_trans)

lemma u64_mult_fits [simp]: "unat (a :: u64) * unat (b :: u64) < 2 ^ 128"
  by (rule mult_bound [of _ "2 ^ 64 - 1" _ "2 ^ 64 - 1"]) (use unat_u64 [of a] unat_u64 [of b] in simp_all)

lemma u64_mult_no_panic [simp]:
  "\<not> 340282366920938463463374607431768211456 \<le> unat (a :: u64) * unat (b :: u64)"
  using u64_mult_fits [of a b] by simp

lemma curve_out_less:
  assumes "0 < ri" and "0 < ro"
  shows "curve_out ri ro a f < ro"
proof -
  have "a * (1000 - f) * ro < ro * (ri * 1000 + a * (1000 - f))"
    using assms by (simp add: algebra_simps)
  then show ?thesis
    unfolding curve_out_def by (simp add: div_less_iff_less_mult assms)
qed

text \<open>What the floor of \<open>curve_out\<close> gives up, as an inequality without division.\<close>

lemma curve_out_floor:
  "curve_out ri ro a f * (ri * 1000 + a * (1000 - f)) \<le> a * (1000 - f) * ro"
  unfolding curve_out_def by (rule div_times_less_eq_dividend)

text \<open>
  The arithmetic of \<open>amount_out\<close> inside its guards: no operator leaves its type, and the
  quotient is \<open>curve_out\<close>.
\<close>

lemma amount_out_arith:
  fixes a ri ro f :: nat
  assumes "a \<le> 2 ^ 58" and "ri \<le> 2 ^ 58" and "ro \<le> 2 ^ 58"
  shows "a * (1000 - f) < 2 ^ 68"
    and "a * (1000 - f) * ro < 2 ^ 127"
    and "ri * 1000 + a * (1000 - f) < 2 ^ 69"
proof -
  have "a * (1000 - f) \<le> 2 ^ 58 * 1000" using assms(1) by (intro mult_le_mono) auto
  then show iwf: "a * (1000 - f) < 2 ^ 68" by simp
  show "a * (1000 - f) * ro < 2 ^ 127"
    by (rule mult_bound [of _ "2 ^ 68 - 1" _ "2 ^ 58"]) (use iwf assms in simp_all)
  show "ri * 1000 + a * (1000 - f) < 2 ^ 69" using iwf assms by simp
qed

lemma amount_out_eq:
  "amount_out ri ro a f =
     (if a = 0 then Err ZeroAmount
      else if ri = 0 \<or> ro = 0 then Err ZeroReserve
      else if unat a > 2 ^ 58 \<or> unat ri > 2 ^ 58 \<or> unat ro > 2 ^ 58 then Err ReserveCapExceeded
      else if unat f \<ge> 1000 then Err InvalidFee
      else if curve_out (unat ri) (unat ro) (unat a) (unat f) = 0 then Err OutputRoundsToZero
      else Ok (of_nat (curve_out (unat ri) (unat ro) (unat a) (unat f))))"
proof (cases "a = 0 \<or> ri = 0 \<or> ro = 0 \<or> unat a > 2 ^ 58 \<or> unat ri > 2 ^ 58 \<or> unat ro > 2 ^ 58
    \<or> unat f \<ge> 1000")
  case True
  then show ?thesis by (auto simp: amount_out_def word_arith)
next
  case False
  then have pos: "0 < unat ri" "0 < unat ro" and f: "unat f < 1000"
    and caps: "unat a \<le> 2 ^ 58" "unat ri \<le> 2 ^ 58" "unat ro \<le> 2 ^ 58"
    by (auto simp: word_eq_unat)
  note bounds = amount_out_arith [OF caps, where f = "unat f"]
  obtain keep where keep: "(sub_p 1000 f :: (u16, CurveError) result) = Ok keep"
      "unat keep = 1000 - unat f"
    using op_p_returns(2) [of f 1000] f by auto
  obtain iwf where iwf: "(mul_p (ucast a :: u128) (ucast keep) :: (u128, CurveError) result) = Ok iwf"
      "unat iwf = unat a * (1000 - unat f)"
    using op_p_returns(3) [of "ucast a :: u128" "ucast keep"] keep bounds by auto
  obtain num where num: "(mul_p iwf (ucast ro) :: (u128, CurveError) result) = Ok num"
      "unat num = unat a * (1000 - unat f) * unat ro"
    using op_p_returns(3) [of iwf "ucast ro"] iwf bounds by auto
  obtain sc where sc: "(mul_p (ucast ri :: u128) 1000 :: (u128, CurveError) result) = Ok sc"
      "unat sc = unat ri * 1000"
    using op_p_returns(3) [of "ucast ri :: u128" 1000] caps by auto
  obtain den where den: "(add_p sc iwf :: (u128, CurveError) result) = Ok den"
      "unat den = unat ri * 1000 + unat a * (1000 - unat f)"
    using op_p_returns(1) [of sc iwf] sc iwf bounds by auto
  obtain out where out: "(div_p num den :: (u128, CurveError) result) = Ok out"
      "unat out = curve_out (unat ri) (unat ro) (unat a) (unat f)"
    using op_p_returns(4) [of den num] den num pos by (auto simp: curve_out_def)
  have less: "unat out < unat ro"
    unfolding out by (rule curve_out_less) (use pos in auto)
  then have "unat (of_nat (unat out) :: u64) = unat out"
    using unat_u64 [of ro] by (simp only: unat_of_nat) simp
  then have narrow: "(try_into out :: u64 option) = Some (of_nat (unat out))"
    by (simp only: try_into_Some)
  have "\<not> (a > MAX_RESERVE \<or> ri > MAX_RESERVE \<or> ro > MAX_RESERVE)" and "\<not> f \<ge> 1000"
    and "\<not> out \<ge> ucast ro"
    using caps f less by (simp_all add: word_order not_less)
  with False have "amount_out ri ro a f = (if out = 0 then Err OutputRoundsToZero else ok_or (try_into out) Overflow)"
    by (simp add: amount_out_def keep(1) iwf(1) num(1) sc(1) den(1) out(1))
  with False narrow show ?thesis
    by (simp add: out(2) word_eq_unat)
qed

lemma amount_out_no_panic [simp]: "amount_out ri ro a f \<noteq> Panic"
  by (simp add: amount_out_eq)

lemma amount_out_Ok:
  "amount_out ri ro a f = Ok y \<longleftrightarrow>
     0 < unat a \<and> 0 < unat ri \<and> 0 < unat ro \<and> unat a \<le> 2 ^ 58 \<and> unat ri \<le> 2 ^ 58 \<and>
     unat ro \<le> 2 ^ 58 \<and> unat f < 1000 \<and> 0 < unat y \<and>
     unat y = curve_out (unat ri) (unat ro) (unat a) (unat f)"
proof -
  have "unat (of_nat (curve_out (unat ri) (unat ro) (unat a) (unat f)) :: u64) =
      curve_out (unat ri) (unat ro) (unat a) (unat f)" if "0 < unat ri" "0 < unat ro"
    using curve_out_less [OF that, of "unat a" "unat f"] unat_u64 [of ro]
    by (simp add: unat_of_nat)
  then show ?thesis
    by (auto simp: amount_out_eq word_eq_unat split: if_splits)
qed

section \<open>The curve's contract\<close>

text \<open>
  What settlement and the keeper rely on: a swap never drains the pool, never lowers the
  product of the reserves (and raises it when the fee is positive), and a larger input never
  buys less. From these alone a round trip through the pool cannot profit.
\<close>

locale swap_curve =
  fixes out :: "nat \<Rightarrow> nat \<Rightarrow> nat \<Rightarrow> nat \<Rightarrow> nat"
  assumes out_less: "0 < ri \<Longrightarrow> 0 < ro \<Longrightarrow> out ri ro a f < ro"
    and out_k: "0 < ri \<Longrightarrow> 0 < ro \<Longrightarrow> ri * ro \<le> (ri + a) * (ro - out ri ro a f)"
    and out_k_fee: "0 < ri \<Longrightarrow> 0 < ro \<Longrightarrow> 0 < a \<Longrightarrow> 0 < f \<Longrightarrow>
      ri * ro < (ri + a) * (ro - out ri ro a f)"
    and out_mono: "a \<le> b \<Longrightarrow> out ri ro a f \<le> out ri ro b f"
begin

lemma back_k:
  assumes "0 < ri" and "0 < ro" and y: "y = out ri ro a f"
  shows "ri * ro \<le> ro * (ri + a - out (ro - y) (ri + a) y g)"
proof -
  have "0 < ro - y" using out_less [OF assms(1,2)] y by simp
  then have "(ro - y) * (ri + a) \<le> (ro - y + y) * (ri + a - out (ro - y) (ri + a) y g)"
    using assms(1) by (intro out_k) auto
  moreover have "ro - y + y = ro" using out_less [OF assms(1,2), of a f] y by simp
  moreover have "ri * ro \<le> (ri + a) * (ro - y)" using out_k [OF assms(1,2)] y by simp
  ultimately show ?thesis by (metis mult.commute order_trans)
qed

lemma round_trip:
  assumes "0 < ri" and "0 < ro" and "y = out ri ro a f"
  shows "out (ro - y) (ri + a) y g \<le> a"
proof -
  have "ro * ri \<le> ro * (ri + a - out (ro - y) (ri + a) y g)"
    using back_k [OF assms] by (simp add: mult.commute)
  then have "ri \<le> ri + a - out (ro - y) (ri + a) y g"
    using assms(2) by simp
  then show ?thesis using assms(1) by linarith
qed

lemma round_trip_fee:
  assumes "0 < ri" and "0 < ro" and "0 < a" and "0 < f" and y: "y = out ri ro a f"
  shows "out (ro - y) (ri + a) y g < a"
proof -
  have "0 < ro - y" using out_less [OF assms(1,2)] y by simp
  then have "(ro - y) * (ri + a) \<le> (ro - y + y) * (ri + a - out (ro - y) (ri + a) y g)"
    using assms(1) by (intro out_k) auto
  moreover have "ro - y + y = ro" using out_less [OF assms(1,2), of a f] y by simp
  moreover have "ri * ro < (ri + a) * (ro - y)" using out_k_fee [OF assms(1-4)] y by simp
  ultimately have "ro * ri < ro * (ri + a - out (ro - y) (ri + a) y g)"
    by (metis mult.commute order_less_le_trans)
  then have "ri < ri + a - out (ro - y) (ri + a) y g" by simp
  then show ?thesis by linarith
qed

end

text \<open>The floored constant-product formula satisfies the contract.\<close>

lemma curve_out_cross:
  assumes "0 < ri" and "0 < ro"
  shows "curve_out ri ro a f * (ri * 1000) \<le> a * (1000 - f) * (ro - curve_out ri ro a f)"
proof -
  let ?y = "curve_out ri ro a f" and ?q = "a * (1000 - f)"
  have "?y * (ri * 1000) + ?y * ?q \<le> ?q * ro"
    using curve_out_floor [of ri ro a f] by (simp only: distrib_left)
  moreover have "?q * ro = ?q * (ro - ?y) + ?q * ?y"
    using curve_out_less [OF assms, of a f] by (simp flip: distrib_left)
  moreover have "?y * ?q = ?q * ?y" by (rule mult.commute)
  ultimately show ?thesis by linarith
qed

lemma k_from_cross:
  fixes y :: nat
  assumes "y * ri \<le> a * (ro - y)" and "y < ro"
  shows "ri * ro \<le> (ri + a) * (ro - y)"
proof -
  have "ri * ro = ri * (ro - y) + ri * y" using assms(2) by (simp flip: distrib_left)
  moreover have "(ri + a) * (ro - y) = ri * (ro - y) + a * (ro - y)" by (rule distrib_right)
  moreover have "y * ri = ri * y" by (rule mult.commute)
  ultimately show ?thesis using assms(1) by linarith
qed

lemma k_from_cross_strict:
  fixes y :: nat
  assumes "y * ri < a * (ro - y)" and "y < ro"
  shows "ri * ro < (ri + a) * (ro - y)"
proof -
  have "ri * ro = ri * (ro - y) + ri * y" using assms(2) by (simp flip: distrib_left)
  moreover have "(ri + a) * (ro - y) = ri * (ro - y) + a * (ro - y)" by (rule distrib_right)
  moreover have "y * ri = ri * y" by (rule mult.commute)
  ultimately show ?thesis using assms(1) by linarith
qed

lemma curve_out_mono:
  assumes "a \<le> b"
  shows "curve_out ri ro a f \<le> curve_out ri ro b f"
proof (cases "ri * 1000 + b * (1000 - f) = 0")
  case True
  then have "b * (1000 - f) = 0" by simp
  with assms have "a * (1000 - f) = 0" by auto
  then show ?thesis by (simp only: curve_out_def mult_zero_left div_0)
next
  case False
  let ?y = "curve_out ri ro a f" and ?p = "a * (1000 - f)" and ?q = "b * (1000 - f)"
  obtain d where d: "?q = ?p + d" using assms mult_le_mono1 le_Suc_ex by metis
  have "?y \<le> ro"
    unfolding curve_out_def
    by (rule div_le_of_le_mult) (simp add: distrib_left)
  then have "?y * d \<le> d * ro" by (subst mult.commute) simp
  moreover have "?y * (ri * 1000 + ?q) = ?y * (ri * 1000 + ?p) + ?y * d"
    unfolding d by (simp only: distrib_left add.assoc)
  moreover have "?q * ro = ?p * ro + d * ro"
    unfolding d by (rule distrib_right)
  ultimately have "?y * (ri * 1000 + ?q) \<le> ?q * ro"
    using curve_out_floor [of ri ro a f] by linarith
  then show ?thesis
    unfolding curve_out_def [of ri ro b f] using False
    by (metis less_eq_div_iff_mult_less_eq gr0I)
qed

interpretation curve: swap_curve curve_out
proof unfold_locales
  fix ri ro a f :: nat
  assume pos: "0 < ri" "0 < ro"
  show less: "curve_out ri ro a f < ro" using pos by (rule curve_out_less)
  have "a * (1000 - f) * (ro - curve_out ri ro a f) \<le> a * 1000 * (ro - curve_out ri ro a f)"
    by (intro mult_le_mono) auto
  from order_trans [OF curve_out_cross [OF pos, of a f] this]
  have "curve_out ri ro a f * ri \<le> a * (ro - curve_out ri ro a f)" by simp
  then show "ri * ro \<le> (ri + a) * (ro - curve_out ri ro a f)"
    using less by (rule k_from_cross)
  assume "0 < a" and "0 < f"
  then have "a * (1000 - f) * (ro - curve_out ri ro a f) < a * 1000 * (ro - curve_out ri ro a f)"
    using less by simp
  from order_le_less_trans [OF curve_out_cross [OF pos, of a f] this]
  have "curve_out ri ro a f * ri < a * (ro - curve_out ri ro a f)" by simp
  then show "ri * ro < (ri + a) * (ro - curve_out ri ro a f)"
    using less by (rule k_from_cross_strict)
qed (rule curve_out_mono)

section \<open>Minting and burning shares\<close>

lemma is_none_or_cap:
  "is_none_or (\<lambda>r. r > MAX_RESERVE) (checked_add r d) \<longleftrightarrow> 2 ^ 58 < unat r + unat d" for r d :: u64
  by (auto simp: is_none_or_def word_arith split: option.split)

lemma mint_shares_no_panic: "mint_shares rlo rhi S da db \<noteq> Panic"
  by (auto simp: mint_shares_def result_eqs word_arith split: if_splits)

lemma mint_shares_caps:
  assumes "mint_shares rlo rhi S da db = Ok m"
  shows "0 < unat da" and "0 < unat db" and "unat rlo + unat da \<le> 2 ^ 58"
    and "unat rhi + unat db \<le> 2 ^ 58"
proof -
  show "0 < unat da" "0 < unat db"
    using assms by (auto simp: mint_shares_def word_eq_unat split: if_splits)
  show "unat rlo + unat da \<le> 2 ^ 58" "unat rhi + unat db \<le> 2 ^ 58"
    using assms unfolding mint_shares_def is_none_or_cap by (auto split: if_splits)
qed

lemma mint_shares_create:
  assumes "mint_shares rlo rhi 0 da db = Ok m"
  shows "1000 < isqrt_nat (unat da * unat db)"
    and "unat (minted_total m) = isqrt_nat (unat da * unat db)"
    and "unat (to_owner m) + 1000 = isqrt_nat (unat da * unat db)"
  using assms by (auto simp: mint_shares_def result_eqs word_arith split: if_splits)

lemma mint_shares_later:
  assumes "mint_shares rlo rhi S da db = Ok m" and "S \<noteq> 0"
  shows "0 < unat rlo" and "0 < unat rhi" and "0 < unat (to_owner m)"
    and "unat (to_owner m) = min (unat da * unat S div unat rlo) (unat db * unat S div unat rhi)"
    and "unat (minted_total m) = unat S + unat (to_owner m)"
proof -
  from assms(1) obtain minted where
    "unat rlo \<noteq> 0" "unat rhi \<noteq> 0" "unat minted \<noteq> 0"
    "unat minted = min (unat da * unat S div unat rlo) (unat db * unat S div unat rhi)"
    "unat (minted_total m) = unat S + unat minted" "to_owner m = minted"
    unfolding mint_shares_def using assms(2)
    by (auto simp: and_then_eq_Ok op_p_Ok try_into_Some checked_add_Some word_eq_0 split: if_splits)
  then show "0 < unat rlo" "0 < unat rhi" "0 < unat (to_owner m)"
    "unat (to_owner m) = min (unat da * unat S div unat rlo) (unat db * unat S div unat rhi)"
    "unat (minted_total m) = unat S + unat (to_owner m)"
    by simp_all
qed

text \<open>The depositor never gets more than the pro-rata number of shares on either side.\<close>

lemma mint_shares_pro_rata:
  assumes "mint_shares rlo rhi S da db = Ok m" and "S \<noteq> 0"
  shows "unat (to_owner m) * unat rlo \<le> unat da * unat S"
    and "unat (to_owner m) * unat rhi \<le> unat db * unat S"
  using mint_shares_later(4) [OF assms] by (intro le_div_mult; simp)+

lemma burn_shares_Ok:
  assumes "burn_shares rlo rhi S s = Ok b"
  shows "0 < unat s" and "unat s \<le> unat S"
    and "unat (burn_da b) = unat rlo * unat s div unat S"
    and "unat (burn_db b) = unat rhi * unat s div unat S"
    and "unat (burned_total b) = unat S - unat s"
  using assms
  by (auto simp: burn_shares_def and_then_eq_Ok op_p_Ok try_into_Some word_eq_0 word_order not_less
      split: if_splits)

lemma burn_shares_no_panic: "burn_shares rlo rhi S s \<noteq> Panic"
  by (auto simp: burn_shares_def result_eqs word_arith split: if_splits)

lemma burn_share_le:
  fixes r s S :: nat
  assumes "s \<le> S"
  shows "r * s div S \<le> r"
  using assms by (intro div_le_of_le_mult) simp

lemma burn_shares_returns:
  assumes "0 < unat s" and "unat s \<le> unat S"
    and "0 < unat rlo * unat s div unat S \<or> 0 < unat rhi * unat s div unat S"
  shows "\<exists>b. burn_shares rlo rhi S s = Ok b"
proof (cases "burn_shares rlo rhi S s")
  case (Err e)
  have "unat rlo * unat s div unat S < 2 ^ 64" and "unat rhi * unat s div unat S < 2 ^ 64"
    using burn_share_le [OF assms(2), of "unat rlo"] burn_share_le [OF assms(2), of "unat rhi"]
      unat_u64 [of rlo] unat_u64 [of rhi] by simp_all
  with Err assms show ?thesis
    by (auto simp: burn_shares_def and_then_eq_Err op_p_Ok try_into_None try_into_Some word_eq_0
        word_order split: if_splits)
qed (auto simp: burn_shares_no_panic)

text \<open>
  The value of a share. A mint that gives at most the pro-rata shares and a burn that pays at
  most the pro-rata reserves both leave \<open>reserve / shares\<close> no lower on each side.
\<close>

lemma mint_value:
  fixes m r d S :: nat
  assumes "m * r \<le> d * S"
  shows "r * (S + m) \<le> (r + d) * S"
  using assms by (simp add: algebra_simps)

lemma burn_value:
  fixes r s S :: nat
  assumes "s \<le> S"
  shows "r * (S - s) \<le> (r - r * s div S) * S"
proof -
  have "r * s div S * S \<le> r * s" by (rule div_times_less_eq_dividend)
  then have "r * S - r * s \<le> r * S - r * s div S * S" by (rule diff_le_mono2)
  then show ?thesis by (simp add: diff_mult_distrib diff_mult_distrib2)
qed

lemma value_product:
  fixes a b c d x y :: nat
  assumes "a * x \<le> b * y" and "c * x \<le> d * y"
  shows "a * c * (x * x) \<le> b * d * (y * y)"
proof -
  have "(a * x) * (c * x) \<le> (b * y) * (d * y)" using assms by (rule mult_le_mono)
  then show ?thesis by (simp add: ac_simps)
qed

section \<open>Properties of the arithmetic\<close>

text \<open>
  \<open>amount_out\<close> is Uniswap's \<open>getAmountOut\<close> on every input: outside the guards it
  reports exactly the guard that failed, inside them no intermediate overflows, the quotient is
  the floored constant-product formula, and the only further error is an output that rounds to
  zero. The branches \<open>InsufficientLiquidity\<close> and \<open>Overflow\<close> and every panic are unreachable.
\<close>

theorem amount_out_is_the_formula:
  "amount_out ri ro a f =
     (if a = 0 then Err ZeroAmount
      else if ri = 0 \<or> ro = 0 then Err ZeroReserve
      else if unat a > 2 ^ 58 \<or> unat ri > 2 ^ 58 \<or> unat ro > 2 ^ 58 then Err ReserveCapExceeded
      else if unat f \<ge> 1000 then Err InvalidFee
      else if unat a * (1000 - unat f) * unat ro div (unat ri * 1000 + unat a * (1000 - unat f)) = 0
        then Err OutputRoundsToZero
      else Ok (of_nat
        (unat a * (1000 - unat f) * unat ro div (unat ri * 1000 + unat a * (1000 - unat f)))))"
  by (rule amount_out_eq [unfolded curve_out_def])

text \<open>
  A round trip through a pool always loses: selling \<open>a\<close> at a positive fee and selling the
  proceeds back against the moved reserves, at any fee, returns strictly less than \<open>a\<close>.
\<close>

theorem round_trip_always_loses:
  assumes "amount_out ra rb a f = Ok y" and "0 < unat f"
    and "unat ra' = unat ra + unat a" and "unat rb' = unat rb - unat y"
    and "amount_out rb' ra' y g = Ok z"
  shows "unat z < unat a"
proof -
  have "unat z = curve_out (unat rb - unat y) (unat ra + unat a) (unat y) (unat g)"
    using assms by (simp add: amount_out_Ok)
  moreover have "unat y = curve_out (unat ra) (unat rb) (unat a) (unat f)"
    using assms(1) by (simp add: amount_out_Ok)
  ultimately show ?thesis
    using curve.round_trip_fee [of "unat ra" "unat rb" "unat a" "unat f"] assms(1,2)
    by (simp add: amount_out_Ok)
qed

theorem round_trip_always_loses_witness:
  "amount_out 1000000000 1000000 10000000 3 = Ok 9871 \<and>
   amount_out 990129 1010000000 9871 3 = Ok 9940095 \<and> unat (9940095 :: u64) < unat (10000000 :: u64)"
proof -
  have sell: "amount_out 1000000000 1000000 10000000 3 = Ok 9871"
    and again: "amount_out 990129 1010000000 9871 3 = Ok 9940095"
    by (simp_all add: amount_out_eq curve_out_def)
  from round_trip_always_loses [OF sell, of 1010000000 990129 3 9940095] sell again
  show ?thesis by simp
qed

end
