(* ===== verification/Amm_Types.thy ===== *)
theory Amm_Types
  imports Amm_Math
begin

text \<open>
  The wire types of the AMM module, from \<open>modules/amm/fedimint-amm-common/src\<close>: \<open>pool_id.rs\<close>
  (canonical pool identifiers and their two encodings), \<open>types.rs\<close> (transaction items, the
  consensus item and the error taxonomy), \<open>config.rs\<close> (the consensus configuration and its
  validation) and \<open>pop.rs\<close> (the proof of possession an output carries).

  \<open>Amount\<close> (its \<open>msats\<close>) and \<open>AmountUnit\<close> are newtypes over \<open>u64\<close>; keys, signatures and digests
  are byte strings. What the module calls of fedimint-core and secp256k1 is not part of this
  repository: it is the record \<open>platform\<close>, an argument of every definition that uses it.
\<close>

type_synonym Tweak = "u8 list"
type_synonym XOnlyPublicKey = "u8 list"
type_synonym Signature = "u8 list"
type_synonym Keypair = "u8 list"
type_synonym Message = "u8 list"
type_synonym Amounts = "AmountUnit \<rightharpoonup> Amount"

section \<open>Pool identifiers\<close>

record PoolId =
  lo :: AmountUnit
  hi :: AmountUnit

definition PoolId_new :: "AmountUnit \<Rightarrow> AmountUnit \<Rightarrow> PoolId option" where
  "PoolId_new x y =
     (if x = y then None
      else if x < y then Some \<lparr>lo = x, hi = y\<rparr>
      else Some \<lparr>lo = y, hi = x\<rparr>)"

definition other :: "PoolId \<Rightarrow> AmountUnit \<Rightarrow> AmountUnit option" where
  "other p unit =
     (if unit = lo p then Some (hi p)
      else if unit = hi p then Some (lo p)
      else None)"

text \<open>The invariant of the type: its fields are private and every constructor checks it.\<close>

definition canonical :: "PoolId \<Rightarrow> bool" where
  "canonical p \<longleftrightarrow> lo p < hi p"

text \<open>
  The binary encoding: the two units one after the other, with the encoder and decoder of
  \<open>AmountUnit\<close> given.
\<close>

definition PoolId_consensus_encode :: "(AmountUnit \<Rightarrow> u8 list) \<Rightarrow> PoolId \<Rightarrow> u8 list" where
  "PoolId_consensus_encode unit_encode p = unit_encode (lo p) @ unit_encode (hi p)"

definition PoolId_consensus_decode ::
  "(u8 list \<Rightarrow> (AmountUnit \<times> u8 list) option) \<Rightarrow> u8 list \<Rightarrow> (PoolId \<times> u8 list) option" where
  "PoolId_consensus_decode unit_decode bytes =
     (case unit_decode bytes of
        None \<Rightarrow> None
      | Some (l, rest) \<Rightarrow>
          (case unit_decode rest of
             None \<Rightarrow> None
           | Some (h, rest') \<Rightarrow> if l \<ge> h then None else Some (\<lparr>lo = l, hi = h\<rparr>, rest')))"

text \<open>
  The JSON form is the string \<open>lo:hi\<close>. Printing and parsing of \<open>u64\<close> follow Rust's \<open>Display\<close>
  and \<open>FromStr\<close>: decimal digits without leading zeros, and a parser that accepts one leading
  plus sign and rejects the empty string, any other character and overflow.
\<close>

definition digit_char :: "nat \<Rightarrow> char" where
  "digit_char d = char_of (48 + d)"

fun show_nat :: "nat \<Rightarrow> string" where
  "show_nat n = (if n < 10 then [digit_char n] else show_nat (n div 10) @ [digit_char (n mod 10)])"

declare show_nat.simps [simp del]

definition char_digit :: "char \<Rightarrow> nat option" where
  "char_digit c = (if 48 \<le> (of_char c :: nat) \<and> (of_char c :: nat) \<le> 57 then Some (of_char c - 48) else None)"

fun parse_digits :: "nat \<Rightarrow> string \<Rightarrow> nat option" where
  "parse_digits acc [] = Some acc"
| "parse_digits acc (c # cs) =
     (case char_digit c of
        None \<Rightarrow> None
      | Some d \<Rightarrow> if acc * 10 + d < 2 ^ 64 then parse_digits (acc * 10 + d) cs else None)"

definition parse_u64 :: "string \<Rightarrow> u64 option" where
  "parse_u64 s =
     (let digits = (case s of c # cs \<Rightarrow> if c = CHR ''+'' then cs else s | [] \<Rightarrow> s)
      in if digits = [] then None else map_option of_nat (parse_digits 0 digits))"

fun split_once :: "char \<Rightarrow> string \<Rightarrow> (string \<times> string) option" where
  "split_once c [] = None"
| "split_once c (x # xs) =
     (if x = c then Some ([], xs)
      else map_option (\<lambda>(l, r). (x # l, r)) (split_once c xs))"

datatype SerdeError =
    NotPlainU64 AmountUnit
  | NoSeparator string
  | TooManySeparators string
  | LoInvalid string
  | HiInvalid string
  | NotCanonical u64 u64

definition PoolId_serialize :: "(AmountUnit \<Rightarrow> u64 option) \<Rightarrow> PoolId \<Rightarrow> (string, SerdeError) result" where
  "PoolId_serialize amount_unit_to_u64 p =
     and_then (ok_or (amount_unit_to_u64 (lo p)) (NotPlainU64 (lo p))) (\<lambda>l.
     and_then (ok_or (amount_unit_to_u64 (hi p)) (NotPlainU64 (hi p))) (\<lambda>h.
       Ok (show_nat (unat l) @ '':'' @ show_nat (unat h))))"

definition PoolId_deserialize :: "string \<Rightarrow> (PoolId, SerdeError) result" where
  "PoolId_deserialize s =
     and_then (ok_or (split_once (CHR '':'') s) (NoSeparator s)) (\<lambda>(lo_str, hi_str).
       if CHR '':'' \<in> set hi_str then Err (TooManySeparators s)
       else
         and_then (ok_or (parse_u64 lo_str) (LoInvalid s)) (\<lambda>l.
         and_then (ok_or (parse_u64 hi_str) (HiInvalid s)) (\<lambda>h.
           if l \<ge> h then Err (NotCanonical l h)
           else Ok \<lparr>lo = l, hi = h\<rparr>)))"

section \<open>Transaction items\<close>

datatype AmmOutput =
    SwapV0 (unit_in: AmountUnit) (unit_out: AmountUnit) (amount_in: Amount) (min_out: Amount)
      (recipient_pk: PublicKey) (swap_tweak: Tweak) (swap_pop: Signature)
  | DepositV0 (deposit_pool: PoolId) (amount_lo: Amount) (amount_hi: Amount) (min_shares: u64)
      (deposit_owner: PublicKey) (deposit_tweak: Tweak) (deposit_pop: Signature)
  | OutputDefault u64 "u8 list"

datatype AmmInput =
    ClaimBalanceV0 (claim_key: PublicKey) (claim_unit: AmountUnit)
  | WithdrawV0 (withdraw_pool: PoolId) (withdraw_owner: PublicKey) (withdraw_shares: u64)
      (min_lo: Amount) (min_hi: Amount) (max_lo: Amount) (max_hi: Amount)
  | InputDefault u64 "u8 list"

datatype AmmConsensusItem =
    FeeVoteV0 PoolId u16
  | ItemDefault u64 "u8 list"

datatype AmmInputError =
    UnknownVariant
  | NoSuchBalance
  | NoSuchPool
  | NoSuchPosition
  | InsufficientShares
  | SlippageExceeded
  | Curve string

datatype AmmOutputError =
    UnknownVariant
  | InvalidProofOfPossession
  | IdenticalUnits
  | UnknownUnit
  | NoSuchPool
  | BelowMinSwapIn
  | SlippageExceeded
  | ReserveCapExceeded
  | KInvariantViolated
  | Curve string

text \<open>The \<open>Display\<close> text of a curve error, which the wire errors carry.\<close>

fun CurveError_to_string :: "CurveError \<Rightarrow> string" where
  "CurveError_to_string ZeroAmount = ''amount must be non-zero''"
| "CurveError_to_string ZeroReserve = ''reserves must be non-zero''"
| "CurveError_to_string CurveError.ReserveCapExceeded = ''value exceeds MAX_RESERVE''"
| "CurveError_to_string InvalidFee = ''fee_per_mille must be < 1000''"
| "CurveError_to_string OutputRoundsToZero = ''output rounds to zero''"
| "CurveError_to_string InsufficientLiquidity = ''pool has insufficient liquidity''"
| "CurveError_to_string InsufficientInitialLiquidity = ''initial liquidity must exceed MINIMUM_LIQUIDITY''"
| "CurveError_to_string CurveError.InsufficientShares = ''not enough shares''"
| "CurveError_to_string Overflow = ''arithmetic overflow''"

fun AmmOutputError_to_string :: "AmmOutputError \<Rightarrow> string" where
  "AmmOutputError_to_string AmmOutputError.UnknownVariant = ''unknown output variant''"
| "AmmOutputError_to_string InvalidProofOfPossession = ''invalid proof of possession for the named key''"
| "AmmOutputError_to_string IdenticalUnits = ''unit_in and unit_out must differ''"
| "AmmOutputError_to_string UnknownUnit = ''unit not in the federation's allowlist''"
| "AmmOutputError_to_string AmmOutputError.NoSuchPool = ''no such pool''"
| "AmmOutputError_to_string BelowMinSwapIn = ''amount_in below the unit's min_swap_in''"
| "AmmOutputError_to_string AmmOutputError.SlippageExceeded = ''output below min_out, or shares below min_shares''"
| "AmmOutputError_to_string AmmOutputError.ReserveCapExceeded = ''would exceed MAX_RESERVE''"
| "AmmOutputError_to_string KInvariantViolated = ''k invariant violated''"
| "AmmOutputError_to_string (AmmOutputError.Curve e) = ''arithmetic error: '' @ e"

section \<open>Configuration\<close>

record UnitParams =
  min_swap_in :: Amount

record AmmConfigConsensus =
  units :: "(AmountUnit, UnitParams) table"
  default_fee_per_mille :: u16
  fee_overrides :: "(PoolId, u16) table"
  min_fee_per_mille :: u16
  max_fee_per_mille :: u16

record AmmClientConfig =
  client_units :: "(AmountUnit, UnitParams) table"
  client_default_fee_per_mille :: u16
  client_fee_overrides :: "(PoolId, u16) table"

datatype ConfigError =
    NoUnits
  | InvalidFee
  | ZeroMinSwapIn
  | UnknownUnitInOverride
  | InvertedFeeBand

definition contains_key :: "('k, 'v) table \<Rightarrow> 'k \<Rightarrow> bool" where
  "contains_key t k \<longleftrightarrow> map_of t k \<noteq> None"

definition fee_for :: "(PoolId, u16) table \<Rightarrow> u16 \<Rightarrow> PoolId \<Rightarrow> u16" where
  "fee_for overrides dflt pool = (case map_of overrides pool of Some fee \<Rightarrow> fee | None \<Rightarrow> dflt)"

fun validate_overrides ::
  "(AmountUnit, UnitParams) table \<Rightarrow> (PoolId \<times> u16) list \<Rightarrow> (unit, ConfigError) result" where
  "validate_overrides us [] = Ok ()"
| "validate_overrides us ((pool, fee) # rest) =
     (if fee \<ge> 1000 then Err ConfigError.InvalidFee
      else if \<not> contains_key us (lo pool) \<or> \<not> contains_key us (hi pool) then Err UnknownUnitInOverride
      else validate_overrides us rest)"

definition validate :: "AmmConfigConsensus \<Rightarrow> (unit, ConfigError) result" where
  "validate cfg =
     (if units cfg = [] then Err NoUnits
      else if default_fee_per_mille cfg \<ge> 1000 then Err ConfigError.InvalidFee
      else if max_fee_per_mille cfg \<ge> 1000 then Err ConfigError.InvalidFee
      else if min_fee_per_mille cfg > max_fee_per_mille cfg then Err InvertedFeeBand
      else if list_ex (\<lambda>(_, p). min_swap_in p = 0) (units cfg) then Err ZeroMinSwapIn
      else validate_overrides (units cfg) (fee_overrides cfg))"

definition config_fee_for :: "AmmConfigConsensus \<Rightarrow> PoolId \<Rightarrow> u16" where
  "config_fee_for cfg pool = fee_for (fee_overrides cfg) (default_fee_per_mille cfg) pool"

definition fee_in_band :: "AmmConfigConsensus \<Rightarrow> u16 \<Rightarrow> bool" where
  "fee_in_band cfg fee \<longleftrightarrow> min_fee_per_mille cfg \<le> fee \<and> fee \<le> max_fee_per_mille cfg"

text \<open>\<open>u16::clamp\<close> panics on an inverted range.\<close>

definition clamp :: "'a::linorder \<Rightarrow> 'a \<Rightarrow> 'a \<Rightarrow> ('a, 'e) result" where
  "clamp x low high =
     (if low > high then Panic
      else Ok (if x < low then low else if x > high then high else x))"

definition clamp_fee_to_band :: "AmmConfigConsensus \<Rightarrow> u16 \<Rightarrow> (u16, 'e) result" where
  "clamp_fee_to_band cfg fee = clamp fee (min_fee_per_mille cfg) (max_fee_per_mille cfg)"

definition client_fee_for :: "AmmClientConfig \<Rightarrow> PoolId \<Rightarrow> u16" where
  "client_fee_for cfg pool = fee_for (client_fee_overrides cfg) (client_default_fee_per_mille cfg) pool"

section \<open>Proof of possession\<close>

record SwapPopPayload =
  sp_domain :: u8
  sp_unit_in :: AmountUnit
  sp_unit_out :: AmountUnit
  sp_amount_in :: Amount
  sp_min_out :: Amount
  sp_recipient_pk :: PublicKey
  sp_tweak :: Tweak

record DepositPopPayload =
  dp_domain :: u8
  dp_pool :: PoolId
  dp_amount_lo :: Amount
  dp_amount_hi :: Amount
  dp_min_shares :: u64
  dp_owner_pk :: PublicKey
  dp_tweak :: Tweak

text \<open>
  What the module uses of fedimint-core and secp256k1: the SHA-256 digest of the consensus
  encoding of the two payloads, BIP-340 signing and verification, the x-only form of a key, the
  \<open>Amounts\<close> constructors, and the federation's consensus threshold.
\<close>

record platform =
  swap_payload_sha256 :: "SwapPopPayload \<Rightarrow> Message"
  deposit_payload_sha256 :: "DepositPopPayload \<Rightarrow> Message"
  public_key :: "Keypair \<Rightarrow> PublicKey"
  x_only_public_key :: "PublicKey \<Rightarrow> XOnlyPublicKey"
  sign_schnorr_no_aux_rand :: "Message \<Rightarrow> Keypair \<Rightarrow> Signature"
  verify_schnorr :: "Signature \<Rightarrow> Message \<Rightarrow> XOnlyPublicKey \<Rightarrow> bool"
  Amounts_ZERO :: Amounts
  Amounts_new_custom :: "AmountUnit \<Rightarrow> Amount \<Rightarrow> Amounts"
  Amounts_checked_add_unit :: "Amounts \<Rightarrow> Amount \<Rightarrow> AmountUnit \<Rightarrow> Amounts option"
  NumPeers_threshold :: "nat \<Rightarrow> nat"

definition DOMAIN_SWAP :: u8 where
  "DOMAIN_SWAP = 0"

definition DOMAIN_DEPOSIT :: u8 where
  "DOMAIN_DEPOSIT = 1"

definition swap_pop_message ::
  "platform \<Rightarrow> AmountUnit \<Rightarrow> AmountUnit \<Rightarrow> Amount \<Rightarrow> Amount \<Rightarrow> PublicKey \<Rightarrow> Tweak \<Rightarrow> Message" where
  "swap_pop_message P u_in u_out amt_in m_out pk tweak =
     swap_payload_sha256 P
       \<lparr>sp_domain = DOMAIN_SWAP, sp_unit_in = u_in, sp_unit_out = u_out, sp_amount_in = amt_in,
        sp_min_out = m_out, sp_recipient_pk = pk, sp_tweak = tweak\<rparr>"

definition deposit_pop_message ::
  "platform \<Rightarrow> PoolId \<Rightarrow> Amount \<Rightarrow> Amount \<Rightarrow> u64 \<Rightarrow> PublicKey \<Rightarrow> Tweak \<Rightarrow> Message" where
  "deposit_pop_message P pool a_lo a_hi m_shares pk tweak =
     deposit_payload_sha256 P
       \<lparr>dp_domain = DOMAIN_DEPOSIT, dp_pool = pool, dp_amount_lo = a_lo, dp_amount_hi = a_hi,
        dp_min_shares = m_shares, dp_owner_pk = pk, dp_tweak = tweak\<rparr>"

definition sign_pop :: "platform \<Rightarrow> Keypair \<Rightarrow> Message \<Rightarrow> Signature" where
  "sign_pop P keypair message = sign_schnorr_no_aux_rand P message keypair"

definition pop_verify :: "platform \<Rightarrow> Signature \<Rightarrow> Message \<Rightarrow> PublicKey \<Rightarrow> bool" where
  "pop_verify P signature message pubkey =
     verify_schnorr P signature message (x_only_public_key P pubkey)"

definition new_swap_v0 ::
  "platform \<Rightarrow> Keypair \<Rightarrow> AmountUnit \<Rightarrow> AmountUnit \<Rightarrow> Amount \<Rightarrow> Amount \<Rightarrow> Tweak \<Rightarrow> AmmOutput" where
  "new_swap_v0 P keypair u_in u_out amt_in m_out tweak =
     (let pk = public_key P keypair;
          pop = sign_pop P keypair (swap_pop_message P u_in u_out amt_in m_out pk tweak)
      in SwapV0 u_in u_out amt_in m_out pk tweak pop)"

definition new_deposit_v0 ::
  "platform \<Rightarrow> Keypair \<Rightarrow> PoolId \<Rightarrow> Amount \<Rightarrow> Amount \<Rightarrow> u64 \<Rightarrow> Tweak \<Rightarrow> AmmOutput" where
  "new_deposit_v0 P keypair pool a_lo a_hi m_shares tweak =
     (let pk = public_key P keypair;
          pop = sign_pop P keypair (deposit_pop_message P pool a_lo a_hi m_shares pk tweak)
      in DepositV0 pool a_lo a_hi m_shares pk tweak pop)"

fun verify_pop :: "platform \<Rightarrow> AmmOutput \<Rightarrow> bool" where
  "verify_pop P (SwapV0 u_in u_out amt_in m_out pk tweak pop) =
     pop_verify P pop (swap_pop_message P u_in u_out amt_in m_out pk tweak) pk"
| "verify_pop P (DepositV0 pool a_lo a_hi m_shares pk tweak pop) =
     pop_verify P pop (deposit_pop_message P pool a_lo a_hi m_shares pk tweak) pk"
| "verify_pop P (OutputDefault variant bytes) = False"

text \<open>
  The documented behaviour of \<open>Amounts\<close> the module relies on: a sum per unit in which a missing
  entry is zero, with additions that fail only on overflow.
\<close>

definition amount_of :: "Amounts \<Rightarrow> AmountUnit \<Rightarrow> nat" where
  "amount_of m u = (case m u of None \<Rightarrow> 0 | Some a \<Rightarrow> unat a)"

definition amounts_law :: "platform \<Rightarrow> bool" where
  "amounts_law P \<longleftrightarrow>
     (\<forall>u. amount_of (Amounts_ZERO P) u = 0) \<and>
     (\<forall>u a v. amount_of (Amounts_new_custom P u a) v = (if v = u then unat a else 0)) \<and>
     (\<forall>m a u. amount_of m u + unat a < 2 ^ 64 \<longrightarrow>
        (\<exists>m'. Amounts_checked_add_unit P m a u = Some m' \<and>
          (\<forall>v. amount_of m' v = amount_of m v + (if v = u then unat a else 0))))"

text \<open>Schnorr correctness: a signature made with a key verifies under that key.\<close>

definition schnorr_correct :: "platform \<Rightarrow> bool" where
  "schnorr_correct P \<longleftrightarrow>
     (\<forall>m k. verify_schnorr P (sign_schnorr_no_aux_rand P m k) m (x_only_public_key P (public_key P k)))"

section \<open>Lemmas\<close>

lemma PoolId_new_canonical: "PoolId_new x y = Some p \<Longrightarrow> canonical p"
  by (auto simp: PoolId_new_def canonical_def not_less split: if_splits)

lemma canonical_distinct: "canonical p \<Longrightarrow> lo p \<noteq> hi p"
  by (auto simp: canonical_def)

lemma PoolId_new_sides:
  assumes "PoolId_new x y = Some p"
  shows "x \<noteq> y" and "lo p = x \<and> hi p = y \<or> lo p = y \<and> hi p = x" and "other p x = Some y"
  using assms by (auto simp: PoolId_new_def other_def split: if_splits)

subsection \<open>Printing and parsing\<close>

lemma char_digit_digit_char: "d < 10 \<Longrightarrow> char_digit (digit_char d) = Some d"
  by (simp add: char_digit_def digit_char_def)

lemma digit_char_neq: "d < 10 \<Longrightarrow> digit_char d \<noteq> CHR '':''" "d < 10 \<Longrightarrow> digit_char d \<noteq> CHR ''+''"
  using char_digit_digit_char [of d] by (auto simp: char_digit_def)

lemma show_nat_digits: "c \<in> set (show_nat n) \<Longrightarrow> \<exists>d < 10. c = digit_char d"
proof (induction n rule: show_nat.induct)
  case (1 n)
  show ?case
  proof (cases "n < 10")
    case True
    with "1.prems" show ?thesis by (auto simp: show_nat.simps [of n])
  next
    case False
    then have "c \<in> set (show_nat (n div 10)) \<or> c = digit_char (n mod 10)"
      using "1.prems" by (auto simp: show_nat.simps [of n])
    then show ?thesis using "1.IH" [OF False] by (auto intro: exI [of _ "n mod 10"])
  qed
qed

lemma show_nat_nonempty: "show_nat n \<noteq> []"
  by (simp add: show_nat.simps [of n])

lemma show_nat_no_sign: "CHR '':'' \<notin> set (show_nat n)" "CHR ''+'' \<notin> set (show_nat n)"
  using show_nat_digits digit_char_neq by metis+

lemma parse_digits_append:
  "parse_digits acc (xs @ ys) = (case parse_digits acc xs of None \<Rightarrow> None | Some a \<Rightarrow> parse_digits a ys)"
  by (induction acc xs rule: parse_digits.induct) (auto split: option.splits)

lemma parse_show_nat: "n < 2 ^ 64 \<Longrightarrow> parse_digits 0 (show_nat n) = Some n"
proof (induction n rule: show_nat.induct)
  case (1 n)
  show ?case
  proof (cases "n < 10")
    case True
    with "1.prems" show ?thesis by (simp add: show_nat.simps [of n] char_digit_digit_char)
  next
    case False
    then have "parse_digits 0 (show_nat (n div 10)) = Some (n div 10)"
      using "1.IH" "1.prems" by simp
    moreover have "n div 10 * 10 + n mod 10 = n" by simp
    ultimately show ?thesis
      using False "1.prems"
      by (simp add: show_nat.simps [of n] parse_digits_append char_digit_digit_char)
  qed
qed

lemma parse_show_u64: "parse_u64 (show_nat (unat w)) = Some w"
proof -
  have "hd (show_nat (unat w)) \<noteq> CHR ''+''"
    using show_nat_no_sign(2) show_nat_nonempty hd_in_set by metis
  then have "(case show_nat (unat w) of c # cs \<Rightarrow> if c = CHR ''+'' then cs else show_nat (unat w)
      | [] \<Rightarrow> show_nat (unat w)) = show_nat (unat w)"
    using show_nat_nonempty by (cases "show_nat (unat w)") auto
  then show ?thesis
    using parse_show_nat [of "unat w"] unat_u64 [of w]
    by (simp add: parse_u64_def show_nat_nonempty)
qed

lemma split_once_append: "c \<notin> set xs \<Longrightarrow> split_once c (xs @ c # ys) = Some (xs, ys)"
  by (induction xs) auto

lemma deserialize_show:
  "PoolId_deserialize (show_nat (unat l) @ '':'' @ show_nat (unat h)) =
     (if l \<ge> h then Err (NotCanonical l h) else Ok \<lparr>lo = l, hi = h\<rparr>)"
  by (simp add: PoolId_deserialize_def split_once_append show_nat_no_sign parse_show_u64 ok_or_def)

lemma deserialize_canonical: "PoolId_deserialize s = Ok p \<Longrightarrow> canonical p"
  by (auto simp: PoolId_deserialize_def canonical_def result_eqs ok_or_eq not_le split: if_splits prod.splits)

lemma decode_canonical: "PoolId_consensus_decode dec bytes = Some (p, rest) \<Longrightarrow> canonical p"
  by (auto simp: PoolId_consensus_decode_def canonical_def not_le split: option.splits if_splits)

subsection \<open>Configuration\<close>

lemma clamp_Ok:
  fixes x :: "'a::linorder"
  shows "low \<le> high \<Longrightarrow> \<exists>y. clamp x low high = (Ok y :: ('a, 'e) result) \<and> low \<le> y \<and> y \<le> high"
  by (auto simp: clamp_def)

lemma validate_overrides_Ok:
  "validate_overrides us os = Ok () \<Longrightarrow> (p, fee) \<in> set os \<Longrightarrow>
    fee < 1000 \<and> contains_key us (lo p) \<and> contains_key us (hi p)"
  by (induction us os rule: validate_overrides.induct) (auto split: if_splits)

lemma validate_Ok:
  assumes "validate cfg = Ok ()"
  shows "units cfg \<noteq> []" and "default_fee_per_mille cfg < 1000" and "max_fee_per_mille cfg < 1000"
    and "min_fee_per_mille cfg \<le> max_fee_per_mille cfg"
    and "(u, p) \<in> set (units cfg) \<Longrightarrow> min_swap_in p \<noteq> 0"
    and "validate_overrides (units cfg) (fee_overrides cfg) = Ok ()"
  using assms by (auto simp: validate_def list_ex_iff split: if_splits)

lemma clamp_fee_to_band_valid:
  assumes "validate cfg = Ok ()"
  shows "\<exists>fee. clamp_fee_to_band cfg x = (Ok fee :: (u16, 'e) result) \<and>
    fee_in_band cfg fee \<and> unat fee < 1000"
proof -
  obtain fee where "clamp_fee_to_band cfg x = (Ok fee :: (u16, 'e) result)" "fee_in_band cfg fee"
    using clamp_Ok [OF validate_Ok(4) [OF assms], of x]
    by (auto simp: clamp_fee_to_band_def fee_in_band_def)
  moreover from this have "fee < 1000"
    using validate_Ok(3) [OF assms] by (auto simp: fee_in_band_def)
  ultimately show ?thesis by (auto simp: word_order)
qed

end
