(* ===== verification/Amm_Server.thy ===== *)
theory Amm_Server
  imports Amm_Types
begin

text \<open>
  The server side of the AMM module, from \<open>modules/amm/fedimint-amm-server/src\<close>: the database
  schema of \<open>db.rs\<close> and the handlers of \<open>lib.rs\<close>. The five tables are the record \<open>amm_db\<close>. A
  handler takes the database and returns the updated one; an error carries no database because
  the caller drops the database transaction of a rejected item. \<open>get_value\<close>, \<open>insert_entry\<close> and
  \<open>remove_entry\<close> are \<open>map_of\<close>, \<open>AList.update\<close> and \<open>AList.delete\<close>; a prefix scan reads the rows
  of a table whose key has the prefix.
\<close>

section \<open>Database schema\<close>

record Pool =
  reserve_lo :: Amount
  reserve_hi :: Amount
  total_shares :: u64

record LpPositionKey =
  lp_pool :: PoolId
  lp_owner :: PublicKey

record LpPosition =
  shares :: u64
  lp_tweak :: Tweak

record BalanceKey =
  b_owner :: PublicKey
  b_unit :: AmountUnit

record BalanceEntry =
  b_amount :: Amount
  b_tweak :: Tweak

record FeeVoteKey =
  fv_pool :: PoolId
  fv_peer :: PeerId

record amm_db =
  pools :: "(PoolId, Pool) table"
  lp_positions :: "(LpPositionKey, LpPosition) table"
  balances :: "(BalanceKey, BalanceEntry) table"
  fee_votes :: "(FeeVoteKey, u16) table"
  desired_fees :: "(PoolId, u16) table"

definition empty_db :: amm_db where
  "empty_db = \<lparr>pools = [], lp_positions = [], balances = [], fee_votes = [], desired_fees = []\<rparr>"

section \<open>Module setup\<close>

record Amm =
  cfg :: AmmConfigConsensus
  num_peers :: nat
  our_peer_id :: PeerId

definition BITCOIN :: AmountUnit where
  "BITCOIN = 0"

definition default_consensus_config :: AmmConfigConsensus where
  "default_consensus_config =
     \<lparr>units = [(BITCOIN, \<lparr>min_swap_in = 1000\<rparr>), (1, \<lparr>min_swap_in = 10\<rparr>)],
      default_fee_per_mille = 3, fee_overrides = [],
      min_fee_per_mille = 1, max_fee_per_mille = 50\<rparr>"

definition trusted_dealer_gen :: "PeerId list \<Rightarrow> (PeerId, AmmConfigConsensus) table" where
  "trusted_dealer_gen peers = map (\<lambda>peer. (peer, default_consensus_config)) peers"

definition distributed_gen :: "(AmmConfigConsensus, ConfigError) result" where
  "distributed_gen =
     (let consensus = default_consensus_config
      in and_then (validate consensus) (\<lambda>_. Ok consensus))"

definition get_client_config :: "AmmConfigConsensus \<Rightarrow> AmmClientConfig" where
  "get_client_config config =
     \<lparr>client_units = units config, client_default_fee_per_mille = default_fee_per_mille config,
      client_fee_overrides = fee_overrides config\<rparr>"

definition validate_config :: "AmmConfigConsensus \<Rightarrow> (unit, ConfigError) result" where
  "validate_config config = validate config"

fun map_curve_error :: "CurveError \<Rightarrow> AmmOutputError" where
  "map_curve_error CurveError.ReserveCapExceeded = AmmOutputError.ReserveCapExceeded"
| "map_curve_error e = AmmOutputError.Curve (CurveError_to_string e)"

fun map_curve_error_input :: "CurveError \<Rightarrow> AmmInputError" where
  "map_curve_error_input CurveError.InsufficientShares = AmmInputError.InsufficientShares"
| "map_curve_error_input e = AmmInputError.Curve (CurveError_to_string e)"

section \<open>Fees\<close>

text \<open>
  \<open>votes.get(threshold() - 1)\<close>: the subtraction is on \<open>usize\<close> and panics at threshold zero; an
  index past the end is \<open>None\<close> and falls back to the configured fee.
\<close>

definition fee_votes_of :: "amm_db \<Rightarrow> PoolId \<Rightarrow> (PeerId \<times> u16) list" where
  "fee_votes_of db pool =
     map (\<lambda>(k, fee). (fv_peer k, fee)) (filter (\<lambda>(k, fee). fv_pool k = pool) (fee_votes db))"

definition get_nth :: "'a list \<Rightarrow> nat \<Rightarrow> 'a option" where
  "get_nth xs i = (if i < length xs then Some (xs ! i) else None)"

definition consensus_fee_for :: "platform \<Rightarrow> Amm \<Rightarrow> amm_db \<Rightarrow> PoolId \<Rightarrow> (u16, 'e) result" where
  "consensus_fee_for P amm db pool =
     (let votes = sort (map snd (fee_votes_of db pool));
          threshold = NumPeers_threshold P (num_peers amm)
      in if threshold = 0 then Panic
         else
           (let voted = get_nth votes (threshold - 1)
            in clamp_fee_to_band (cfg amm)
                 (case voted of Some fee \<Rightarrow> fee | None \<Rightarrow> config_fee_for (cfg amm) pool)))"

section \<open>Swap quotes\<close>

record SwapQuote =
  dy :: u64
  in_is_lo :: bool
  reserve_in :: Amount
  reserve_out :: Amount
  reserve_in_new :: u64

definition quote_swap ::
  "platform \<Rightarrow> Amm \<Rightarrow> amm_db \<Rightarrow> Pool \<Rightarrow> PoolId \<Rightarrow> AmountUnit \<Rightarrow> Amount \<Rightarrow> Amount option \<Rightarrow>
    (SwapQuote, AmmOutputError) result" where
  "quote_swap P amm db pool pool_id u_in amt_in m_out =
     and_then (ok_or (map_of (units (cfg amm)) u_in) UnknownUnit) (\<lambda>params_in.
     let is_lo = (u_in = lo pool_id) in
     and_then (ok_or (other pool_id u_in) UnknownUnit) (\<lambda>u_out.
     if \<not> contains_key (units (cfg amm)) u_out then Err UnknownUnit
     else if amt_in < min_swap_in params_in then Err BelowMinSwapIn
     else
       let (r_in, r_out) = (if is_lo then (reserve_lo pool, reserve_hi pool)
                            else (reserve_hi pool, reserve_lo pool)) in
       and_then (consensus_fee_for P amm db pool_id) (\<lambda>fee.
       and_then (map_err map_curve_error (amount_out r_in r_out amt_in fee)) (\<lambda>out.
       if (case m_out of Some m \<Rightarrow> out < m | None \<Rightarrow> False) then Err AmmOutputError.SlippageExceeded
       else
         and_then (ok_or (checked_add r_in amt_in) AmmOutputError.ReserveCapExceeded) (\<lambda>r_in_new.
         if r_in_new > MAX_RESERVE then Err AmmOutputError.ReserveCapExceeded
         else Ok \<lparr>dy = out, in_is_lo = is_lo, reserve_in = r_in, reserve_out = r_out,
                  reserve_in_new = r_in_new\<rparr>)))))"

section \<open>Consensus items\<close>

datatype ItemError = FeeOutsideBand | PoolDoesNotExist | RedundantVote | UnknownItemVariant

fun propose_desired :: "Amm \<Rightarrow> amm_db \<Rightarrow> (PoolId \<times> u16) list \<Rightarrow> AmmConsensusItem list" where
  "propose_desired amm db [] = []"
| "propose_desired amm db ((pool, fee) # desired) =
     (if map_of (pools db) pool = None then propose_desired amm db desired
      else if map_of (fee_votes db) \<lparr>fv_pool = pool, fv_peer = our_peer_id amm\<rparr> \<noteq> Some fee
      then FeeVoteV0 pool fee # propose_desired amm db desired
      else propose_desired amm db desired)"

definition consensus_proposal :: "Amm \<Rightarrow> amm_db \<Rightarrow> AmmConsensusItem list" where
  "consensus_proposal amm db = propose_desired amm db (desired_fees db)"

fun process_consensus_item ::
  "Amm \<Rightarrow> amm_db \<Rightarrow> AmmConsensusItem \<Rightarrow> PeerId \<Rightarrow> (amm_db, ItemError) result" where
  "process_consensus_item amm db (FeeVoteV0 pool fee) peer_id =
     and_then (ensure (fee_in_band (cfg amm) fee) FeeOutsideBand) (\<lambda>_.
     and_then (ensure (map_of (pools db) pool \<noteq> None) PoolDoesNotExist) (\<lambda>_.
       let key = \<lparr>fv_pool = pool, fv_peer = peer_id\<rparr>;
           previous = map_of (fee_votes db) key;
           db' = db\<lparr>fee_votes := AList.update key fee (fee_votes db)\<rparr>
       in and_then (ensure (previous \<noteq> Some fee) RedundantVote) (\<lambda>_. Ok db')))"
| "process_consensus_item amm db (ItemDefault variant bytes) peer_id = Err UnknownItemVariant"

section \<open>Inputs\<close>

record TransactionItemAmounts =
  amounts :: Amounts
  fees :: Amounts

record InputMeta =
  amount :: TransactionItemAmounts
  pub_key :: PublicKey

definition process_claim ::
  "platform \<Rightarrow> amm_db \<Rightarrow> PublicKey \<Rightarrow> AmountUnit \<Rightarrow> (amm_db \<times> InputMeta, AmmInputError) result" where
  "process_claim P db pk u =
     (let key = \<lparr>b_owner = pk, b_unit = u\<rparr> in
      and_then (ok_or (map_of (balances db) key) NoSuchBalance) (\<lambda>entry.
        Ok (db\<lparr>balances := AList.delete key (balances db)\<rparr>,
            \<lparr>amount = \<lparr>amounts = Amounts_new_custom P u (b_amount entry), fees = Amounts_ZERO P\<rparr>,
             pub_key = pk\<rparr>)))"

definition process_withdraw ::
  "platform \<Rightarrow> amm_db \<Rightarrow> PoolId \<Rightarrow> PublicKey \<Rightarrow> u64 \<Rightarrow> Amount \<Rightarrow> Amount \<Rightarrow> Amount \<Rightarrow> Amount \<Rightarrow>
    (amm_db \<times> InputMeta, AmmInputError) result" where
  "process_withdraw P db pool pk s m_lo m_hi x_lo x_hi =
     and_then (ok_or (map_of (pools db) pool) AmmInputError.NoSuchPool) (\<lambda>db_pool.
     let lp_key = \<lparr>lp_pool = pool, lp_owner = pk\<rparr> in
     and_then (ok_or (map_of (lp_positions db) lp_key) NoSuchPosition) (\<lambda>position.
     if s > shares position then Err AmmInputError.InsufficientShares
     else
       and_then (map_err map_curve_error_input
         (burn_shares (reserve_lo db_pool) (reserve_hi db_pool) (total_shares db_pool) s)) (\<lambda>outcome.
       if burn_da outcome < m_lo \<or> burn_db outcome < m_hi \<or> burn_da outcome > x_lo
          \<or> burn_db outcome > x_hi
       then Err AmmInputError.SlippageExceeded
       else
         and_then (ok_or
           (Option.bind (Amounts_checked_add_unit P (Amounts_ZERO P) (burn_da outcome) (lo pool))
             (\<lambda>a. Amounts_checked_add_unit P a (burn_db outcome) (hi pool)))
           (AmmInputError.Curve ''amount overflow'')) (\<lambda>amts.
         and_then (sub_p (reserve_lo db_pool) (burn_da outcome)) (\<lambda>new_lo.
         and_then (sub_p (reserve_hi db_pool) (burn_db outcome)) (\<lambda>new_hi.
         and_then (sub_p (shares position) s) (\<lambda>left.
           let pool' = \<lparr>reserve_lo = new_lo, reserve_hi = new_hi,
                        total_shares = burned_total outcome\<rparr>;
               positions' = (if left = 0 then AList.delete lp_key (lp_positions db)
                             else AList.update lp_key (position\<lparr>shares := left\<rparr>) (lp_positions db))
           in Ok (db\<lparr>pools := AList.update pool pool' (pools db), lp_positions := positions'\<rparr>,
                  \<lparr>amount = \<lparr>amounts = amts, fees = Amounts_ZERO P\<rparr>, pub_key = pk\<rparr>))))))))"

fun process_input ::
  "platform \<Rightarrow> amm_db \<Rightarrow> AmmInput \<Rightarrow> (amm_db \<times> InputMeta, AmmInputError) result" where
  "process_input P db (ClaimBalanceV0 pk u) = process_claim P db pk u"
| "process_input P db (WithdrawV0 pool pk s m_lo m_hi x_lo x_hi) =
     process_withdraw P db pool pk s m_lo m_hi x_lo x_hi"
| "process_input P db (InputDefault variant bytes) = Err AmmInputError.UnknownVariant"

section \<open>Outputs\<close>

definition process_swap ::
  "platform \<Rightarrow> Amm \<Rightarrow> amm_db \<Rightarrow> AmountUnit \<Rightarrow> AmountUnit \<Rightarrow> Amount \<Rightarrow> Amount \<Rightarrow> PublicKey \<Rightarrow> Tweak \<Rightarrow>
    (amm_db \<times> TransactionItemAmounts, AmmOutputError) result" where
  "process_swap P amm db u_in u_out amt_in m_out pk tweak =
     and_then (ok_or (PoolId_new u_in u_out) IdenticalUnits) (\<lambda>pool_id.
     and_then (ok_or (map_of (pools db) pool_id) AmmOutputError.NoSuchPool) (\<lambda>pool.
     and_then (quote_swap P amm db pool pool_id u_in amt_in (Some m_out)) (\<lambda>quote.
     and_then (sub_p (reserve_out quote) (dy quote)) (\<lambda>reserve_out_new.
     and_then (k_non_decreasing (reserve_in quote) (reserve_out quote)
                 (reserve_in_new quote) reserve_out_new) (\<lambda>k_ok.
     if \<not> k_ok then Err KInvariantViolated
     else
       let bkey = \<lparr>b_owner = pk, b_unit = u_out\<rparr> in
       and_then (case map_of (balances db) bkey of
           Some entry \<Rightarrow>
             and_then (ok_or (checked_add (b_amount entry) (dy quote)) AmmOutputError.ReserveCapExceeded)
               (\<lambda>credited. if credited > MAX_RESERVE then Err AmmOutputError.ReserveCapExceeded
                           else Ok (credited, tweak))
         | None \<Rightarrow> Ok (dy quote, tweak)) (\<lambda>(credited, stored_tweak).
       let pool' = (if in_is_lo quote
                    then pool\<lparr>reserve_lo := reserve_in_new quote, reserve_hi := reserve_out_new\<rparr>
                    else pool\<lparr>reserve_hi := reserve_in_new quote, reserve_lo := reserve_out_new\<rparr>)
       in Ok (db\<lparr>pools := AList.update pool_id pool' (pools db),
                 balances := AList.update bkey \<lparr>b_amount = credited, b_tweak = stored_tweak\<rparr> (balances db)\<rparr>,
              \<lparr>amounts = Amounts_new_custom P u_in amt_in, fees = Amounts_ZERO P\<rparr>)))))))"

definition process_deposit ::
  "platform \<Rightarrow> Amm \<Rightarrow> amm_db \<Rightarrow> PoolId \<Rightarrow> Amount \<Rightarrow> Amount \<Rightarrow> u64 \<Rightarrow> PublicKey \<Rightarrow> Tweak \<Rightarrow>
    (amm_db \<times> TransactionItemAmounts, AmmOutputError) result" where
  "process_deposit P amm db pool a_lo a_hi m_shares pk tweak =
     (if \<not> contains_key (units (cfg amm)) (lo pool) \<or> \<not> contains_key (units (cfg amm)) (hi pool)
      then Err UnknownUnit
      else
        let db_pool = (case map_of (pools db) pool of Some p \<Rightarrow> p
                       | None \<Rightarrow> \<lparr>reserve_lo = 0, reserve_hi = 0, total_shares = 0\<rparr>) in
        and_then (map_err map_curve_error
          (mint_shares (reserve_lo db_pool) (reserve_hi db_pool) (total_shares db_pool) a_lo a_hi)) (\<lambda>outcome.
        if to_owner outcome < m_shares then Err AmmOutputError.SlippageExceeded
        else
          let lp_key = \<lparr>lp_pool = pool, lp_owner = pk\<rparr>;
              existing_shares = (case map_of (lp_positions db) lp_key of None \<Rightarrow> 0 | Some p \<Rightarrow> shares p) in
          and_then (ok_or (checked_add existing_shares (to_owner outcome))
                      (AmmOutputError.Curve ''share overflow'')) (\<lambda>new_shares.
          and_then (ok_or (checked_add (reserve_lo db_pool) a_lo) AmmOutputError.ReserveCapExceeded) (\<lambda>new_lo.
          and_then (ok_or (checked_add (reserve_hi db_pool) a_hi) AmmOutputError.ReserveCapExceeded) (\<lambda>new_hi.
          let pool' = \<lparr>reserve_lo = new_lo, reserve_hi = new_hi, total_shares = minted_total outcome\<rparr>;
              db' = db\<lparr>pools := AList.update pool pool' (pools db),
                       lp_positions := AList.update lp_key \<lparr>shares = new_shares, lp_tweak = tweak\<rparr>
                                         (lp_positions db)\<rparr> in
          and_then (ok_or
            (Option.bind (Amounts_checked_add_unit P (Amounts_ZERO P) a_lo (lo pool))
              (\<lambda>a. Amounts_checked_add_unit P a a_hi (hi pool)))
            AmmOutputError.ReserveCapExceeded) (\<lambda>amts.
            Ok (db', \<lparr>amounts = amts, fees = Amounts_ZERO P\<rparr>)))))))"

definition process_output ::
  "platform \<Rightarrow> Amm \<Rightarrow> amm_db \<Rightarrow> AmmOutput \<Rightarrow>
    (amm_db \<times> TransactionItemAmounts, AmmOutputError) result" where
  "process_output P amm db out =
     (if \<not> verify_pop P out then Err InvalidProofOfPossession
      else
        (case out of
           SwapV0 u_in u_out amt_in m_out pk tweak pop \<Rightarrow>
             process_swap P amm db u_in u_out amt_in m_out pk tweak
         | DepositV0 pool a_lo a_hi m_shares pk tweak pop \<Rightarrow>
             process_deposit P amm db pool a_lo a_hi m_shares pk tweak
         | OutputDefault variant bytes \<Rightarrow> Err AmmOutputError.UnknownVariant))"

definition output_status :: "amm_db \<Rightarrow> unit option" where
  "output_status db = None"

section \<open>Audit\<close>

text \<open>
  \<open>-i64::try_from(x).expect(..)\<close>: the items of the audit are signed 64-bit values; a stored amount
  that does not fit panics.
\<close>

definition audit_item :: "u64 \<Rightarrow> (int, 'e) result" where
  "audit_item w = (if unat w < 2 ^ 63 then Ok (- int (unat w)) else Panic)"

fun audit_items :: "u64 list \<Rightarrow> (int list, 'e) result" where
  "audit_items [] = Ok []"
| "audit_items (w # ws) =
     and_then (audit_item w) (\<lambda>i. and_then (audit_items ws) (\<lambda>is. Ok (i # is)))"

definition audit :: "amm_db \<Rightarrow> (int list, 'e) result" where
  "audit db =
     and_then (audit_items (map (\<lambda>(_, p). reserve_lo p) (pools db))) (\<lambda>los.
     and_then (audit_items (map (\<lambda>(_, p). reserve_hi p) (pools db))) (\<lambda>his.
     and_then (audit_items (map (\<lambda>(_, b). b_amount b) (balances db))) (\<lambda>bals.
       Ok (los @ his @ bals))))"

section \<open>API endpoints\<close>

datatype ApiError =
    bad_request string
  | not_found string
  | server_error string
  | unauthorized

record PoolSummary =
  ps_pool :: PoolId
  ps_reserve_lo :: Amount
  ps_reserve_hi :: Amount
  ps_total_shares :: u64
  ps_fee_per_mille :: u16

fun pool_summaries ::
  "platform \<Rightarrow> Amm \<Rightarrow> amm_db \<Rightarrow> (PoolId \<times> Pool) list \<Rightarrow> (PoolSummary list, ApiError) result" where
  "pool_summaries P amm db [] = Ok []"
| "pool_summaries P amm db ((pid, p) # rest) =
     and_then (consensus_fee_for P amm db pid) (\<lambda>fee.
     and_then (pool_summaries P amm db rest) (\<lambda>summaries.
       Ok (\<lparr>ps_pool = pid, ps_reserve_lo = reserve_lo p, ps_reserve_hi = reserve_hi p,
            ps_total_shares = total_shares p, ps_fee_per_mille = fee\<rparr> # summaries)))"

definition pools_endpoint :: "platform \<Rightarrow> Amm \<Rightarrow> amm_db \<Rightarrow> (PoolSummary list, ApiError) result" where
  "pools_endpoint P amm db = pool_summaries P amm db (pools db)"

record QuoteResponse =
  q_amount_out :: Amount
  q_price_impact_per_mille :: u64

definition quote_endpoint ::
  "platform \<Rightarrow> Amm \<Rightarrow> amm_db \<Rightarrow> AmountUnit \<Rightarrow> AmountUnit \<Rightarrow> Amount \<Rightarrow> (QuoteResponse, ApiError) result" where
  "quote_endpoint P amm db u_in u_out amt_in =
     and_then (ok_or (PoolId_new u_in u_out) (bad_request ''unit_in and unit_out must differ'')) (\<lambda>pool_id.
     and_then (ok_or (map_of (pools db) pool_id) (not_found ''no such pool'')) (\<lambda>pool.
     and_then (map_err (\<lambda>e. bad_request (AmmOutputError_to_string e))
       (quote_swap P amm db pool pool_id u_in amt_in None)) (\<lambda>quote.
     and_then (price_impact_per_mille (reserve_in quote) (reserve_out quote) amt_in (dy quote)) (\<lambda>impact.
       Ok \<lparr>q_amount_out = dy quote, q_price_impact_per_mille = impact\<rparr>))))"

definition fee_vote_submit_endpoint ::
  "Amm \<Rightarrow> amm_db \<Rightarrow> bool \<Rightarrow> PoolId \<Rightarrow> u16 \<Rightarrow> (amm_db, ApiError) result" where
  "fee_vote_submit_endpoint amm db has_auth pool fee =
     (if \<not> has_auth then Err unauthorized
      else if \<not> fee_in_band (cfg amm) fee
      then Err (bad_request (''fee_per_mille must be within ['' @ show_nat (unat (min_fee_per_mille (cfg amm)))
                  @ '', '' @ show_nat (unat (max_fee_per_mille (cfg amm))) @ '']''))
      else if map_of (pools db) pool = None then Err (not_found ''no such pool'')
      else Ok (db\<lparr>desired_fees := AList.update pool fee (desired_fees db)\<rparr>))"

record FeeVotesResponse =
  fr_votes :: "(PeerId \<times> u16) list"
  fr_effective_fee_per_mille :: u16
  fr_min_fee_per_mille :: u16
  fr_max_fee_per_mille :: u16

definition fee_votes_endpoint ::
  "platform \<Rightarrow> Amm \<Rightarrow> amm_db \<Rightarrow> PoolId \<Rightarrow> (FeeVotesResponse, ApiError) result" where
  "fee_votes_endpoint P amm db pool =
     and_then (consensus_fee_for P amm db pool) (\<lambda>fee.
       Ok \<lparr>fr_votes = fee_votes_of db pool, fr_effective_fee_per_mille = fee,
           fr_min_fee_per_mille = min_fee_per_mille (cfg amm),
           fr_max_fee_per_mille = max_fee_per_mille (cfg amm)\<rparr>)"

definition balance_endpoint :: "amm_db \<Rightarrow> PublicKey \<Rightarrow> AmountUnit \<Rightarrow> Amount option" where
  "balance_endpoint db pk u =
     map_option b_amount (map_of (balances db) \<lparr>b_owner = pk, b_unit = u\<rparr>)"

end
