(* ===== verification/Amm_Ledger.thy ===== *)
theory Amm_Ledger
  imports Amm_Server
begin

text \<open>
  The correctness of the AMM's state machine. The first part describes what each handler does when
  it accepts an item; the second gives the invariant of the database and shows that every handler
  keeps it; the third is the transition system of a guardian processing the ordered items, with
  ghost counters of what was paid in and out, as an instance of the state machines of the prelude.
\<close>

section \<open>What the handlers do\<close>

lemma map_err_Panic [simp]: "map_err g m = Panic \<longleftrightarrow> m = Panic"
  by (cases m) auto

lemma consensus_fee_for_valid:
  assumes "validate (cfg amm) = Ok ()" and "0 < NumPeers_threshold P (num_peers amm)"
  shows "\<exists>fee. consensus_fee_for P amm db pool = (Ok fee :: (u16, 'e) result) \<and>
    fee_in_band (cfg amm) fee \<and> unat fee < 1000"
  using assms(2) clamp_fee_to_band_valid [OF assms(1)]
  by (simp add: consensus_fee_for_def Let_def)

lemma quote_swap_Ok:
  assumes "quote_swap P amm db pool pid ui a m = Ok q"
  obtains params uo fee where "map_of (units (cfg amm)) ui = Some params"
    and "other pid ui = Some uo" and "contains_key (units (cfg amm)) uo"
    and "min_swap_in params \<le> a"
    and "consensus_fee_for P amm db pid = (Ok fee :: (u16, AmmOutputError) result)"
    and "amount_out (reserve_in q) (reserve_out q) a fee = Ok (dy q)"
    and "\<And>x. m = Some x \<Longrightarrow> x \<le> dy q"
    and "unat (reserve_in_new q) = unat (reserve_in q) + unat a" and "unat (reserve_in_new q) \<le> 2 ^ 58"
    and "in_is_lo q \<longleftrightarrow> ui = lo pid"
    and "reserve_in q = (if ui = lo pid then reserve_lo pool else reserve_hi pool)"
    and "reserve_out q = (if ui = lo pid then reserve_hi pool else reserve_lo pool)"
proof -
  let ?ri = "if ui = lo pid then reserve_lo pool else reserve_hi pool"
  let ?ro = "if ui = lo pid then reserve_hi pool else reserve_lo pool"
  from assms obtain params uo fee out r' where *:
    "map_of (units (cfg amm)) ui = Some params" "other pid ui = Some uo"
    "contains_key (units (cfg amm)) uo" "\<not> a < min_swap_in params"
    "consensus_fee_for P amm db pid = (Ok fee :: (u16, AmmOutputError) result)"
    "amount_out ?ri ?ro a fee = Ok out" "\<not> (case m of Some m \<Rightarrow> out < m | None \<Rightarrow> False)"
    "checked_add ?ri a = Some r'" "\<not> r' > MAX_RESERVE"
    "q = \<lparr>dy = out, in_is_lo = (ui = lo pid), reserve_in = ?ri, reserve_out = ?ro, reserve_in_new = r'\<rparr>"
    by (auto simp: quote_swap_def Let_def and_then_eq_Ok split: if_splits)
  show ?thesis
  proof (rule that)
    show "unat (reserve_in_new q) = unat (reserve_in q) + unat a"
      using *(8) by (simp add: *(10) checked_add_Some)
    show "unat (reserve_in_new q) \<le> 2 ^ 58"
      using *(9) by (simp add: *(10) word_order)
  qed (use * in \<open>auto split: option.splits\<close>)
qed

lemma quote_swap_min_out:
  "quote_swap P amm db pool pid ui a (Some m) = Ok q \<longleftrightarrow>
    quote_swap P amm db pool pid ui a None = Ok q \<and> m \<le> dy q"
proof (cases "\<exists>params uo fee. map_of (units (cfg amm)) ui = Some params \<and> other pid ui = Some uo \<and>
    consensus_fee_for P amm db pid = (Ok fee :: (u16, AmmOutputError) result)")
  case True
  then obtain params uo fee where *: "map_of (units (cfg amm)) ui = Some params"
    "other pid ui = Some uo"
    "consensus_fee_for P amm db pid = (Ok fee :: (u16, AmmOutputError) result)" by auto
  let ?ri = "if ui = lo pid then reserve_lo pool else reserve_hi pool"
  let ?ro = "if ui = lo pid then reserve_hi pool else reserve_lo pool"
  show ?thesis
    by (cases "amount_out ?ri ?ro a fee"; cases "checked_add ?ri a")
      (auto simp: quote_swap_def Let_def * split: if_splits)
next
  case False
  then show ?thesis by (meson quote_swap_Ok)
qed

text \<open>The balance a swap credits: what the recipient had in the output unit plus the output.\<close>

definition balance_of :: "amm_db \<Rightarrow> PublicKey \<Rightarrow> AmountUnit \<Rightarrow> nat" where
  "balance_of db pk u = (case map_of (balances db) \<lparr>b_owner = pk, b_unit = u\<rparr> of
     None \<Rightarrow> 0 | Some e \<Rightarrow> unat (b_amount e))"

definition swapped_pool :: "Pool \<Rightarrow> SwapQuote \<Rightarrow> u64 \<Rightarrow> Pool" where
  "swapped_pool pool q r_out =
     (if in_is_lo q then pool\<lparr>reserve_lo := reserve_in_new q, reserve_hi := r_out\<rparr>
      else pool\<lparr>reserve_hi := reserve_in_new q, reserve_lo := r_out\<rparr>)"

lemma process_swap_Ok:
  assumes "process_swap P amm db ui uo a m pk tw = Ok (db', t)"
  obtains pid pool q r_out credited where "PoolId_new ui uo = Some pid"
    and "map_of (pools db) pid = Some pool"
    and "quote_swap P amm db pool pid ui a (Some m) = Ok q"
    and "unat (dy q) \<le> unat (reserve_out q)"
    and "unat r_out = unat (reserve_out q) - unat (dy q)"
    and "unat credited = balance_of db pk uo + unat (dy q)"
    and "map_of (balances db) \<lparr>b_owner = pk, b_unit = uo\<rparr> = None \<or> unat credited \<le> 2 ^ 58"
    and "db' = db\<lparr>pools := AList.update pid (swapped_pool pool q r_out) (pools db),
           balances := AList.update \<lparr>b_owner = pk, b_unit = uo\<rparr>
             \<lparr>b_amount = credited, b_tweak = tw\<rparr> (balances db)\<rparr>"
    and "t = \<lparr>amounts = Amounts_new_custom P ui a, fees = Amounts_ZERO P\<rparr>"
proof -
  let ?key = "\<lparr>b_owner = pk, b_unit = uo\<rparr>"
  from assms obtain pid pool q r_out credited tw' where *: "PoolId_new ui uo = Some pid"
    "map_of (pools db) pid = Some pool" "quote_swap P amm db pool pid ui a (Some m) = Ok q"
    "sub_p (reserve_out q) (dy q) = (Ok r_out :: (u64, AmmOutputError) result)"
    "(case map_of (balances db) ?key of
           Some entry \<Rightarrow>
             and_then (ok_or (checked_add (b_amount entry) (dy q)) AmmOutputError.ReserveCapExceeded)
               (\<lambda>credited. if credited > MAX_RESERVE then Err AmmOutputError.ReserveCapExceeded
                           else Ok (credited, tw))
         | None \<Rightarrow> Ok (dy q, tw)) = Ok (credited, tw')"
    "db' = db\<lparr>pools := AList.update pid (swapped_pool pool q r_out) (pools db),
           balances := AList.update ?key \<lparr>b_amount = credited, b_tweak = tw'\<rparr> (balances db)\<rparr>"
    "t = \<lparr>amounts = Amounts_new_custom P ui a, fees = Amounts_ZERO P\<rparr>"
    unfolding process_swap_def and_then_eq_Ok ok_or_eq Let_def swapped_pool_def
    by (auto simp: and_then_eq_Ok split: if_splits prod.splits)
  from *(5) have "tw' = tw"
    and "unat credited = balance_of db pk uo + unat (dy q)"
    and "map_of (balances db) ?key = None \<or> unat credited \<le> 2 ^ 58"
    by (auto simp: balance_of_def and_then_eq_Ok checked_add_Some word_order
        split: option.splits if_splits)
  moreover have "unat (dy q) \<le> unat (reserve_out q)" "unat r_out = unat (reserve_out q) - unat (dy q)"
    using *(4) by (auto simp: op_p_Ok)
  ultimately show ?thesis using that * by simp
qed

lemma process_deposit_Ok:
  assumes "process_deposit P amm db pid a_lo a_hi m pk tw = Ok (db', t)"
  obtains pool mo new_shares new_lo new_hi amts where
    "pool = (case map_of (pools db) pid of Some p \<Rightarrow> p
       | None \<Rightarrow> \<lparr>reserve_lo = 0, reserve_hi = 0, total_shares = 0\<rparr>)"
    and "mint_shares (reserve_lo pool) (reserve_hi pool) (total_shares pool) a_lo a_hi = Ok mo"
    and "m \<le> to_owner mo"
    and "unat new_shares = (case map_of (lp_positions db) \<lparr>lp_pool = pid, lp_owner = pk\<rparr> of
           None \<Rightarrow> 0 | Some p \<Rightarrow> unat (shares p)) + unat (to_owner mo)"
    and "unat new_lo = unat (reserve_lo pool) + unat a_lo"
    and "unat new_hi = unat (reserve_hi pool) + unat a_hi"
    and "Option.bind (Amounts_checked_add_unit P (Amounts_ZERO P) a_lo (lo pid))
           (\<lambda>a. Amounts_checked_add_unit P a a_hi (hi pid)) = Some amts"
    and "db' = db\<lparr>pools := AList.update pid \<lparr>reserve_lo = new_lo, reserve_hi = new_hi,
             total_shares = minted_total mo\<rparr> (pools db),
           lp_positions := AList.update \<lparr>lp_pool = pid, lp_owner = pk\<rparr>
             \<lparr>shares = new_shares, lp_tweak = tw\<rparr> (lp_positions db)\<rparr>"
    and "t = \<lparr>amounts = amts, fees = Amounts_ZERO P\<rparr>"
    and "contains_key (units (cfg amm)) (lo pid)" and "contains_key (units (cfg amm)) (hi pid)"
proof -
  let ?key = "\<lparr>lp_pool = pid, lp_owner = pk\<rparr>"
  define pool where "pool = (case map_of (pools db) pid of Some p \<Rightarrow> p
       | None \<Rightarrow> \<lparr>reserve_lo = 0, reserve_hi = 0, total_shares = 0\<rparr>)"
  define held where "held = (case map_of (lp_positions db) ?key of None \<Rightarrow> 0 | Some p \<Rightarrow> shares p)"
  from assms obtain mo new_shares new_lo new_hi amts where *:
    "contains_key (units (cfg amm)) (lo pid)" "contains_key (units (cfg amm)) (hi pid)"
    "mint_shares (reserve_lo pool) (reserve_hi pool) (total_shares pool) a_lo a_hi = Ok mo"
    "\<not> to_owner mo < m" "checked_add held (to_owner mo) = Some new_shares"
    "checked_add (reserve_lo pool) a_lo = Some new_lo" "checked_add (reserve_hi pool) a_hi = Some new_hi"
    "Option.bind (Amounts_checked_add_unit P (Amounts_ZERO P) a_lo (lo pid))
           (\<lambda>a. Amounts_checked_add_unit P a a_hi (hi pid)) = Some amts"
    "db' = db\<lparr>pools := AList.update pid \<lparr>reserve_lo = new_lo, reserve_hi = new_hi,
             total_shares = minted_total mo\<rparr> (pools db),
           lp_positions := AList.update ?key \<lparr>shares = new_shares, lp_tweak = tw\<rparr> (lp_positions db)\<rparr>"
    "t = \<lparr>amounts = amts, fees = Amounts_ZERO P\<rparr>"
    unfolding process_deposit_def Let_def pool_def [symmetric] held_def [symmetric]
    by (auto simp: and_then_eq_Ok split: if_splits)
  have "unat held = (case map_of (lp_positions db) ?key of None \<Rightarrow> 0 | Some p \<Rightarrow> unat (shares p))"
    by (simp add: held_def split: option.splits)
  then show ?thesis
    using * by (intro that [OF pool_def]) (auto simp: checked_add_Some not_less)
qed

lemma process_withdraw_Ok:
  assumes "process_withdraw P db pid pk s m_lo m_hi x_lo x_hi = Ok (db', t)"
  obtains pool pos b new_lo new_hi left amts where "map_of (pools db) pid = Some pool"
    and "map_of (lp_positions db) \<lparr>lp_pool = pid, lp_owner = pk\<rparr> = Some pos"
    and "burn_shares (reserve_lo pool) (reserve_hi pool) (total_shares pool) s = Ok b"
    and "m_lo \<le> burn_da b" and "m_hi \<le> burn_db b" and "burn_da b \<le> x_lo" and "burn_db b \<le> x_hi"
    and "Option.bind (Amounts_checked_add_unit P (Amounts_ZERO P) (burn_da b) (lo pid))
             (\<lambda>a. Amounts_checked_add_unit P a (burn_db b) (hi pid)) = Some amts"
    and "unat (burn_da b) \<le> unat (reserve_lo pool)"
    and "unat new_lo = unat (reserve_lo pool) - unat (burn_da b)"
    and "unat (burn_db b) \<le> unat (reserve_hi pool)"
    and "unat new_hi = unat (reserve_hi pool) - unat (burn_db b)"
    and "unat s \<le> unat (shares pos)" and "unat left = unat (shares pos) - unat s"
    and "db' = db\<lparr>pools := AList.update pid \<lparr>reserve_lo = new_lo, reserve_hi = new_hi,
             total_shares = burned_total b\<rparr> (pools db),
           lp_positions := (if left = 0 then AList.delete \<lparr>lp_pool = pid, lp_owner = pk\<rparr> (lp_positions db)
             else AList.update \<lparr>lp_pool = pid, lp_owner = pk\<rparr> (pos\<lparr>shares := left\<rparr>) (lp_positions db))\<rparr>"
    and "t = \<lparr>amount = \<lparr>amounts = amts, fees = Amounts_ZERO P\<rparr>, pub_key = pk\<rparr>"
proof -
  let ?key = "\<lparr>lp_pool = pid, lp_owner = pk\<rparr>"
  from assms obtain pool pos b new_lo new_hi left amts where *: "map_of (pools db) pid = Some pool"
    "map_of (lp_positions db) ?key = Some pos"
    "burn_shares (reserve_lo pool) (reserve_hi pool) (total_shares pool) s = Ok b"
    "\<not> (burn_da b < m_lo \<or> burn_db b < m_hi \<or> burn_da b > x_lo \<or> burn_db b > x_hi)"
    "Option.bind (Amounts_checked_add_unit P (Amounts_ZERO P) (burn_da b) (lo pid))
             (\<lambda>a. Amounts_checked_add_unit P a (burn_db b) (hi pid)) = Some amts"
    "sub_p (reserve_lo pool) (burn_da b) = (Ok new_lo :: (u64, AmmInputError) result)"
    "sub_p (reserve_hi pool) (burn_db b) = (Ok new_hi :: (u64, AmmInputError) result)"
    "sub_p (shares pos) s = (Ok left :: (u64, AmmInputError) result)"
    "db' = db\<lparr>pools := AList.update pid \<lparr>reserve_lo = new_lo, reserve_hi = new_hi,
             total_shares = burned_total b\<rparr> (pools db),
           lp_positions := (if left = 0 then AList.delete ?key (lp_positions db)
             else AList.update ?key (pos\<lparr>shares := left\<rparr>) (lp_positions db))\<rparr>"
    "t = \<lparr>amount = \<lparr>amounts = amts, fees = Amounts_ZERO P\<rparr>, pub_key = pk\<rparr>"
    unfolding process_withdraw_def Let_def by (auto simp: and_then_eq_Ok split: if_splits)
  show ?thesis
    by (rule that [OF *(1,2,3) _ _ _ _ *(5) _ _ _ _ _ _ *(9,10)]) (use *(4,6-8) in \<open>auto simp: op_p_Ok not_less\<close>)
qed

lemma process_claim_Ok:
  assumes "process_claim P db pk u = Ok (db', t)"
  obtains e where "map_of (balances db) \<lparr>b_owner = pk, b_unit = u\<rparr> = Some e"
    and "db' = db\<lparr>balances := AList.delete \<lparr>b_owner = pk, b_unit = u\<rparr> (balances db)\<rparr>"
    and "t = \<lparr>amount = \<lparr>amounts = Amounts_new_custom P u (b_amount e), fees = Amounts_ZERO P\<rparr>, pub_key = pk\<rparr>"
  using assms by (auto simp: process_claim_def Let_def and_then_eq_Ok)

section \<open>The invariant of the database\<close>

text \<open>
  Every pool has positive reserves within the cap, at least the locked minimum of shares, and
  shares whose square is at most the product of the reserves. That last conjunct bounds the shares
  by the cap, so that share arithmetic never overflows, and makes every share worth at least one
  unit of one side.
\<close>

definition pool_ok :: "Pool \<Rightarrow> bool" where
  "pool_ok p \<longleftrightarrow> 0 < unat (reserve_lo p) \<and> unat (reserve_lo p) \<le> 2 ^ 58 \<and>
     0 < unat (reserve_hi p) \<and> unat (reserve_hi p) \<le> 2 ^ 58 \<and> 1000 \<le> unat (total_shares p) \<and>
     unat (total_shares p) * unat (total_shares p) \<le> unat (reserve_lo p) * unat (reserve_hi p)"

lemma pool_okD:
  assumes "pool_ok p"
  shows "0 < unat (reserve_lo p)" and "unat (reserve_lo p) \<le> 2 ^ 58"
    and "0 < unat (reserve_hi p)" and "unat (reserve_hi p) \<le> 2 ^ 58"
    and "1000 \<le> unat (total_shares p)"
    and "unat (total_shares p) * unat (total_shares p) \<le> unat (reserve_lo p) * unat (reserve_hi p)"
  using assms unfolding pool_ok_def by blast+

definition shares_in :: "(LpPositionKey, LpPosition) table \<Rightarrow> PoolId \<Rightarrow> nat" where
  "shares_in t pid = tally (\<lambda>k v. if lp_pool k = pid then unat (shares v) else 0) t"

definition pools_inv :: "amm_db \<Rightarrow> bool" where
  "pools_inv db \<longleftrightarrow> (\<forall>(pid, p)\<in>set (pools db). canonical pid \<and> pool_ok p \<and>
     unat (total_shares p) = 1000 + shares_in (lp_positions db) pid)"

definition positions_inv :: "amm_db \<Rightarrow> bool" where
  "positions_inv db \<longleftrightarrow> (\<forall>(k, v)\<in>set (lp_positions db). 0 < unat (shares v) \<and>
     map_of (pools db) (lp_pool k) \<noteq> None)"

definition balance_ok :: "BalanceEntry \<Rightarrow> bool" where
  "balance_ok e \<longleftrightarrow> 0 < unat (b_amount e) \<and> unat (b_amount e) \<le> 2 ^ 58"

definition balances_inv :: "amm_db \<Rightarrow> bool" where
  "balances_inv db \<longleftrightarrow> (\<forall>(k, v)\<in>set (balances db). balance_ok v)"

definition votes_inv :: "Amm \<Rightarrow> amm_db \<Rightarrow> bool" where
  "votes_inv amm db \<longleftrightarrow>
     (\<forall>(k, fee)\<in>set (fee_votes db). fee_in_band (cfg amm) fee \<and> map_of (pools db) (fv_pool k) \<noteq> None) \<and>
     (\<forall>(pid, fee)\<in>set (desired_fees db). fee_in_band (cfg amm) fee \<and> map_of (pools db) pid \<noteq> None)"

definition tables_wf :: "amm_db \<Rightarrow> bool" where
  "tables_wf db \<longleftrightarrow> wf_table (pools db) \<and> wf_table (lp_positions db) \<and> wf_table (balances db) \<and>
     wf_table (fee_votes db) \<and> wf_table (desired_fees db)"

definition db_inv :: "Amm \<Rightarrow> amm_db \<Rightarrow> bool" where
  "db_inv amm db \<longleftrightarrow> tables_wf db \<and> pools_inv db \<and> positions_inv db \<and> balances_inv db \<and> votes_inv amm db"

lemma db_inv_empty: "db_inv amm empty_db"
  by (simp add: db_inv_def empty_db_def tables_wf_def pools_inv_def positions_inv_def balances_inv_def
      votes_inv_def)

lemma db_inv_pool:
  assumes "db_inv amm db" and "map_of (pools db) pid = Some p"
  shows "canonical pid" and "pool_ok p" and "unat (total_shares p) = 1000 + shares_in (lp_positions db) pid"
  using assms map_of_SomeD [OF assms(2)] by (auto simp: db_inv_def pools_inv_def)

lemma db_inv_balance:
  assumes "db_inv amm db" and "map_of (balances db) k = Some e"
  shows "balance_ok e"
  using assms map_of_SomeD [OF assms(2)] by (auto simp: db_inv_def balances_inv_def)

lemma db_inv_position:
  assumes "db_inv amm db" and "map_of (lp_positions db) k = Some v"
  shows "0 < unat (shares v)" and "\<exists>p. map_of (pools db) (lp_pool k) = Some p"
  using assms map_of_SomeD [OF assms(2)] by (auto simp: db_inv_def positions_inv_def)

lemma shares_in_ge:
  assumes "wf_table t" and "map_of t k = Some v" and "lp_pool k = pid"
  shows "unat (shares v) \<le> shares_in t pid"
  using tbl.tally_ge [OF assms(1,2), of "\<lambda>k v. if lp_pool k = pid then unat (shares v) else 0"] assms(3)
  by (simp add: shares_in_def)

lemma shares_in_update:
  assumes "wf_table t"
  shows "shares_in (AList.update k v t) pid +
      (if lp_pool k = pid then (case map_of t k of None \<Rightarrow> 0 | Some w \<Rightarrow> unat (shares w)) else 0) =
    shares_in t pid + (if lp_pool k = pid then unat (shares v) else 0)"
  using tbl.tally_insert [OF assms, of "\<lambda>k v. if lp_pool k = pid then unat (shares v) else 0" k v]
  by (cases "lp_pool k = pid") (simp_all add: shares_in_def split: option.splits)

lemma shares_in_delete:
  assumes "wf_table t" and "map_of t k = Some v"
  shows "shares_in t pid = shares_in (AList.delete k t) pid + (if lp_pool k = pid then unat (shares v) else 0)"
  using tbl.tally_remove [OF assms, of "\<lambda>k v. if lp_pool k = pid then unat (shares v) else 0"]
  by (simp add: shares_in_def)

text \<open>
  All three handlers that touch a pool write one row of \<open>pools\<close> and one row of another table; the
  invariant after such a write follows from what holds of the row.
\<close>

lemma db_inv_write:
  assumes inv: "db_inv amm db" and "canonical pid" and "pool_ok p"
    and "wf_table ps" and "wf_table bs"
    and "unat (total_shares p) = 1000 + shares_in ps pid"
    and "\<And>q. q \<noteq> pid \<Longrightarrow> shares_in ps q = shares_in (lp_positions db) q"
    and "\<forall>(k, v)\<in>set ps. 0 < unat (shares v) \<and> (lp_pool k = pid \<or> map_of (pools db) (lp_pool k) \<noteq> None)"
    and "\<forall>(k, v)\<in>set bs. balance_ok v"
  shows "db_inv amm (db\<lparr>pools := AList.update pid p (pools db), lp_positions := ps, balances := bs\<rparr>)"
proof -
  have wf: "wf_table (pools db)" using inv by (simp add: db_inv_def tables_wf_def)
  have "pools_inv (db\<lparr>pools := AList.update pid p (pools db), lp_positions := ps, balances := bs\<rparr>)"
    using inv assms(2,3,6,7) by (auto simp: pools_inv_def db_inv_def tbl.rows_insert [OF wf])
  moreover have "map_of (AList.update pid p (pools db)) q \<noteq> None" if "map_of (pools db) q \<noteq> None" for q
    using that by (auto simp: tbl.get_insert)
  ultimately show ?thesis
    using inv assms(4,5,8,9)
    by (fastforce simp: db_inv_def tables_wf_def positions_inv_def balances_inv_def votes_inv_def
        tbl.get_insert tbl.wf_insert)
qed

subsection \<open>Pools stay well formed\<close>

lemma shares_square:
  fixes a c a' c' x y :: nat
  assumes "0 < a" and "0 < c" and "y * y \<le> a * c" and "a * x \<le> a' * y" and "c * x \<le> c' * y"
  shows "x * x \<le> a' * c'"
proof -
  have "a * c * (x * x) \<le> a' * c' * (y * y)" by (rule value_product [OF assms(4,5)])
  also have "\<dots> \<le> a' * c' * (a * c)" using assms(3) by (rule mult_le_mono2)
  finally have "(a * c) * (x * x) \<le> (a * c) * (a' * c')" by (simp only: mult.commute)
  moreover have "0 < a * c" using assms(1,2) by simp
  ultimately show ?thesis by (simp only: mult_le_cancel1)
qed

lemma swap_reserves:
  assumes "quote_swap P amm db pool pid ui a m = Ok q"
  shows "0 < unat (reserve_in q)" and "0 < unat (dy q)" and "unat (dy q) < unat (reserve_out q)"
    and "unat (reserve_in q) * unat (reserve_out q) \<le>
      unat (reserve_in_new q) * (unat (reserve_out q) - unat (dy q))"
    and "unat (reserve_in_new q) = unat (reserve_in q) + unat a" and "unat (reserve_in_new q) \<le> 2 ^ 58"
proof -
  from assms obtain fee :: u16 where *: "amount_out (reserve_in q) (reserve_out q) a fee = Ok (dy q)"
    and new: "unat (reserve_in_new q) = unat (reserve_in q) + unat a" "unat (reserve_in_new q) \<le> 2 ^ 58"
    by (rule quote_swap_Ok)
  then have e: "unat (dy q) = curve_out (unat (reserve_in q)) (unat (reserve_out q)) (unat a) (unat fee)"
    and r: "0 < unat (reserve_in q)" "0 < unat (reserve_out q)" and d: "0 < unat (dy q)"
    by (simp_all add: amount_out_Ok)
  show "unat (dy q) < unat (reserve_out q)" unfolding e by (rule curve.out_less [OF r])
  show "unat (reserve_in q) * unat (reserve_out q) \<le>
      unat (reserve_in_new q) * (unat (reserve_out q) - unat (dy q))"
    unfolding e new(1) by (rule curve.out_k [OF r])
  show "0 < unat (reserve_in q)" by (rule r(1))
  show "0 < unat (dy q)" by (rule d)
  show "unat (reserve_in_new q) = unat (reserve_in q) + unat a" by (rule new(1))
  show "unat (reserve_in_new q) \<le> 2 ^ 58" by (rule new(2))
qed

lemma swapped_pool_ok:
  assumes q: "quote_swap P amm db pool pid ui a m = Ok q" and "pool_ok pool"
    and r_out: "unat r_out = unat (reserve_out q) - unat (dy q)"
  shows "pool_ok (swapped_pool pool q r_out)"
proof -
  note s = swap_reserves [OF q]
  from q have orient: "in_is_lo q \<longleftrightarrow> ui = lo pid"
    "reserve_in q = (if ui = lo pid then reserve_lo pool else reserve_hi pool)"
    "reserve_out q = (if ui = lo pid then reserve_hi pool else reserve_lo pool)"
    by (auto elim: quote_swap_Ok)
  have out: "0 < unat r_out" "unat r_out \<le> unat (reserve_out q)" using s(3) r_out by simp_all
  have new: "0 < unat (reserve_in_new q)" using s(1,5) by simp
  show ?thesis
  proof (cases "ui = lo pid")
    case True
    then have o: "reserve_in q = reserve_lo pool" "reserve_out q = reserve_hi pool" "in_is_lo q"
      using orient by simp_all
    have "unat (total_shares pool) * unat (total_shares pool) \<le> unat (reserve_in_new q) * unat r_out"
      using assms(2) s(4) unfolding r_out o pool_ok_def by linarith
    then show ?thesis
      using assms(2) s(6) out new o(2,3) by (simp add: pool_ok_def swapped_pool_def)
  next
    case False
    then have o: "reserve_in q = reserve_hi pool" "reserve_out q = reserve_lo pool" "\<not> in_is_lo q"
      using orient by simp_all
    have "unat (total_shares pool) * unat (total_shares pool) \<le> unat r_out * unat (reserve_in_new q)"
      using assms(2) s(4) unfolding r_out o pool_ok_def by (simp only: mult.commute) linarith
    then show ?thesis
      using assms(2) s(6) out new o(2,3) by (simp add: pool_ok_def swapped_pool_def)
  qed
qed

lemma deposit_pool_ok:
  assumes "pool = (case map_of (pools db) pid of Some p \<Rightarrow> p
       | None \<Rightarrow> \<lparr>reserve_lo = 0, reserve_hi = 0, total_shares = 0\<rparr>)" and inv: "db_inv amm db"
    and mint: "mint_shares (reserve_lo pool) (reserve_hi pool) (total_shares pool) a_lo a_hi = Ok mo"
    and lo: "unat new_lo = unat (reserve_lo pool) + unat a_lo"
    and hi: "unat new_hi = unat (reserve_hi pool) + unat a_hi"
  shows "pool_ok \<lparr>reserve_lo = new_lo, reserve_hi = new_hi, total_shares = minted_total mo\<rparr>"
    and "unat (minted_total mo) =
      (if map_of (pools db) pid = None then 1000 else unat (total_shares pool)) + unat (to_owner mo)"
    and "0 < unat (to_owner mo)"
proof -
  note caps = mint_shares_caps [OF mint]
  have goal: "pool_ok \<lparr>reserve_lo = new_lo, reserve_hi = new_hi, total_shares = minted_total mo\<rparr> \<and>
    unat (minted_total mo) =
      (if map_of (pools db) pid = None then 1000 else unat (total_shares pool)) + unat (to_owner mo) \<and>
    0 < unat (to_owner mo)"
  proof (cases "map_of (pools db) pid")
    case None
    then have pool: "pool = \<lparr>reserve_lo = 0, reserve_hi = 0, total_shares = 0\<rparr>" using assms(1) by simp
    note c = mint_shares_create [OF mint [unfolded pool Pool.simps]]
    show ?thesis
      using c caps isqrt_nat_correct [of "unat a_lo * unat a_hi"] lo hi None
      by (simp add: pool_ok_def pool)
  next
    case (Some p)
    then have p: "pool = p" "pool_ok pool" using assms(1) db_inv_pool(2) [OF inv] by auto
    then have nz: "total_shares pool \<noteq> 0" by (auto simp: pool_ok_def)
    note l = mint_shares_later [OF mint nz] and pr = mint_shares_pro_rata [OF mint nz]
    have "unat (minted_total mo) * unat (minted_total mo) \<le> unat new_lo * unat new_hi"
      using pool_okD(1,3,6) [OF p(2)] mint_value [OF pr(1)] mint_value [OF pr(2)]
      unfolding l(5) lo hi by (rule shares_square)
    then show ?thesis using p(1) l(3,5) caps lo hi Some pool_okD(1,3,5) [OF p(2)] by (simp add: pool_ok_def)
  qed
  then show "pool_ok \<lparr>reserve_lo = new_lo, reserve_hi = new_hi, total_shares = minted_total mo\<rparr>"
    and "unat (minted_total mo) =
      (if map_of (pools db) pid = None then 1000 else unat (total_shares pool)) + unat (to_owner mo)"
    and "0 < unat (to_owner mo)" by blast+
qed

lemma burned_pool_ok:
  assumes "pool_ok pool" and burn: "burn_shares (reserve_lo pool) (reserve_hi pool) (total_shares pool) s = Ok b"
    and "unat s + 1000 \<le> unat (total_shares pool)"
    and lo: "unat new_lo = unat (reserve_lo pool) - unat (burn_da b)"
    and hi: "unat new_hi = unat (reserve_hi pool) - unat (burn_db b)"
  shows "pool_ok \<lparr>reserve_lo = new_lo, reserve_hi = new_hi, total_shares = burned_total b\<rparr>"
proof -
  note ok = burn_shares_Ok [OF burn]
  let ?S = "unat (total_shares pool)"
  have v: "unat (reserve_lo pool) * (?S - unat s) \<le> unat new_lo * ?S"
    "unat (reserve_hi pool) * (?S - unat s) \<le> unat new_hi * ?S"
    using burn_value [OF ok(2)] by (simp_all add: lo hi ok)
  have "(?S - unat s) * (?S - unat s) \<le> unat new_lo * unat new_hi"
    using pool_okD(1,3,6) [OF assms(1)] v by (rule shares_square)
  moreover have "0 < unat (reserve_lo pool) * (?S - unat s)" "0 < unat (reserve_hi pool) * (?S - unat s)"
    using pool_okD(1,3) [OF assms(1)] assms(3) by simp_all
  then have "0 < unat new_lo * ?S" "0 < unat new_hi * ?S"
    using v by linarith+
  then have "0 < unat new_lo" "0 < unat new_hi" by simp_all
  moreover have "unat new_lo \<le> 2 ^ 58" "unat new_hi \<le> 2 ^ 58" "1000 \<le> ?S - unat s"
    using pool_okD(2,4) [OF assms(1)] assms(3) lo hi by linarith+
  ultimately show ?thesis by (simp add: pool_ok_def ok(5))
qed

subsection \<open>Every handler keeps the invariant\<close>

lemma db_inv_wf:
  assumes "db_inv amm db"
  shows "wf_table (pools db)" and "wf_table (lp_positions db)" and "wf_table (balances db)"
    and "wf_table (fee_votes db)" and "wf_table (desired_fees db)"
  using assms by (simp_all add: db_inv_def tables_wf_def)

lemma db_inv_rows:
  assumes "db_inv amm db"
  shows "\<forall>(k, v)\<in>set (lp_positions db). 0 < unat (shares v) \<and> (lp_pool k = pid \<or> map_of (pools db) (lp_pool k) \<noteq> None)"
    and "\<forall>(k, v)\<in>set (balances db). balance_ok v"
  using assms by (auto simp: db_inv_def positions_inv_def balances_inv_def)

lemma shares_in_no_pool:
  assumes "db_inv amm db" and "map_of (pools db) pid = None"
  shows "shares_in (lp_positions db) pid = 0"
  unfolding shares_in_def using assms
  by (intro tally_0) (auto simp: db_inv_def positions_inv_def)

lemma swap_inv:
  assumes inv: "db_inv amm db" and "process_swap P amm db ui uo a m pk tw = Ok (db', t)"
  shows "db_inv amm db'"
  using assms(2)
proof (rule process_swap_Ok)
  fix pid :: PoolId and pool :: Pool and q :: SwapQuote and r_out credited :: u64
  let ?key = "\<lparr>b_owner = pk, b_unit = uo\<rparr>"
  assume pid: "PoolId_new ui uo = Some pid" and pool: "map_of (pools db) pid = Some pool"
    and q: "quote_swap P amm db pool pid ui a (Some m) = Ok q"
    and r_out: "unat r_out = unat (reserve_out q) - unat (dy q)"
    and cr: "unat credited = balance_of db pk uo + unat (dy q)"
      "map_of (balances db) ?key = None \<or> unat credited \<le> 2 ^ 58"
    and db': "db' = db\<lparr>pools := AList.update pid (swapped_pool pool q r_out) (pools db),
           balances := AList.update ?key \<lparr>b_amount = credited, b_tweak = tw\<rparr> (balances db)\<rparr>"
  note ok = db_inv_pool [OF inv pool] and s = swap_reserves [OF q]
  have "unat (reserve_out q) \<le> 2 ^ 58"
    using q pool_okD(2,4) [OF ok(2)] by (auto elim!: quote_swap_Ok)
  then have "balance_ok \<lparr>b_amount = credited, b_tweak = tw\<rparr>"
    using cr s(2,3) by (auto simp: balance_ok_def balance_of_def)
  then have "\<forall>(k, v)\<in>set (balances db'). balance_ok v"
    unfolding db' using tbl.all_rows_insert [OF db_inv_wf(3) [OF inv] db_inv_rows(2) [OF inv]] by simp
  moreover have "total_shares (swapped_pool pool q r_out) = total_shares pool"
    by (simp add: swapped_pool_def)
  ultimately have "db_inv amm (db\<lparr>pools := AList.update pid (swapped_pool pool q r_out) (pools db),
      lp_positions := lp_positions db, balances := balances db'\<rparr>)"
    using ok db_inv_rows(1) [OF inv] db_inv_wf [OF inv]
    by (intro db_inv_write [OF inv] swapped_pool_ok [OF q _ r_out]) (auto simp: db' tbl.wf_insert)
  then show ?thesis by (simp add: db')
qed

lemma deposit_inv:
  assumes inv: "db_inv amm db" and "canonical pid"
    and "process_deposit P amm db pid a_lo a_hi m pk tw = Ok (db', t)"
  shows "db_inv amm db'"
  using assms(3)
proof (rule process_deposit_Ok)
  fix pool :: Pool and mo :: MintOutcome and new_shares new_lo new_hi :: u64 and amts
  let ?key = "\<lparr>lp_pool = pid, lp_owner = pk\<rparr>"
  let ?ps = "AList.update ?key \<lparr>shares = new_shares, lp_tweak = tw\<rparr> (lp_positions db)"
  let ?p = "\<lparr>reserve_lo = new_lo, reserve_hi = new_hi, total_shares = minted_total mo\<rparr>"
  assume pool: "pool = (case map_of (pools db) pid of Some p \<Rightarrow> p
       | None \<Rightarrow> \<lparr>reserve_lo = 0, reserve_hi = 0, total_shares = 0\<rparr>)"
    and mint: "mint_shares (reserve_lo pool) (reserve_hi pool) (total_shares pool) a_lo a_hi = Ok mo"
    and sh: "unat new_shares = (case map_of (lp_positions db) ?key of
           None \<Rightarrow> 0 | Some p \<Rightarrow> unat (shares p)) + unat (to_owner mo)"
    and r: "unat new_lo = unat (reserve_lo pool) + unat a_lo" "unat new_hi = unat (reserve_hi pool) + unat a_hi"
    and db': "db' = db\<lparr>pools := AList.update pid ?p (pools db), lp_positions := ?ps\<rparr>"
  note ok = deposit_pool_ok [OF pool inv mint r] and wf = db_inv_wf [OF inv]
  have sum: "shares_in ?ps pid = shares_in (lp_positions db) pid + unat (to_owner mo)"
    using shares_in_update [OF wf(2), of ?key "\<lparr>shares = new_shares, lp_tweak = tw\<rparr>" pid] sh by simp
  have other: "shares_in ?ps x = shares_in (lp_positions db) x" if "x \<noteq> pid" for x
    using shares_in_update [OF wf(2), of ?key "\<lparr>shares = new_shares, lp_tweak = tw\<rparr>" x] that by simp
  have "(if map_of (pools db) pid = None then 1000 else unat (total_shares pool)) =
      1000 + shares_in (lp_positions db) pid"
    using shares_in_no_pool [OF inv, of pid] db_inv_pool(3) [OF inv, of pid] pool
    by (auto split: option.splits)
  then have total: "unat (total_shares ?p) = 1000 + shares_in ?ps pid" using ok(2) sum by simp
  have "\<forall>(k, v)\<in>set ?ps. 0 < unat (shares v) \<and> (lp_pool k = pid \<or> map_of (pools db) (lp_pool k) \<noteq> None)"
    using ok(3) sh by (intro tbl.all_rows_insert [OF wf(2)] db_inv_rows [OF inv]) simp
  then have "db_inv amm (db\<lparr>pools := AList.update pid ?p (pools db), lp_positions := ?ps,
      balances := balances db\<rparr>)"
    using total other db_inv_rows(2) [OF inv] wf
    by (intro db_inv_write [OF inv assms(2) ok(1)]) (auto simp: tbl.wf_insert)
  then show ?thesis by (simp add: db')
qed

lemma withdraw_inv:
  assumes inv: "db_inv amm db" and "process_withdraw P db pid pk s m_lo m_hi x_lo x_hi = Ok (db', t)"
  shows "db_inv amm db'"
  using assms(2)
proof (rule process_withdraw_Ok)
  fix pool :: Pool and pos :: LpPosition and b :: BurnOutcome and new_lo new_hi left :: u64 and amts
  let ?key = "\<lparr>lp_pool = pid, lp_owner = pk\<rparr>"
  let ?ps = "if left = 0 then AList.delete ?key (lp_positions db)
             else AList.update ?key (pos\<lparr>shares := left\<rparr>) (lp_positions db)"
  let ?p = "\<lparr>reserve_lo = new_lo, reserve_hi = new_hi, total_shares = burned_total b\<rparr>"
  assume pool: "map_of (pools db) pid = Some pool" and pos: "map_of (lp_positions db) ?key = Some pos"
    and burn: "burn_shares (reserve_lo pool) (reserve_hi pool) (total_shares pool) s = Ok b"
    and r: "unat new_lo = unat (reserve_lo pool) - unat (burn_da b)"
      "unat new_hi = unat (reserve_hi pool) - unat (burn_db b)"
    and left: "unat s \<le> unat (shares pos)" "unat left = unat (shares pos) - unat s"
    and db': "db' = db\<lparr>pools := AList.update pid ?p (pools db), lp_positions := ?ps\<rparr>"
  note ok = db_inv_pool [OF inv pool] and wf = db_inv_wf [OF inv]
  have held: "unat (shares pos) \<le> shares_in (lp_positions db) pid"
    using shares_in_ge [OF wf(2) pos] by simp
  have pok: "pool_ok ?p" by (rule burned_pool_ok [OF ok(2) burn _ r]) (use held left(1) ok(3) in simp)
  have sum: "shares_in ?ps x + (if pid = x then unat s else 0) = shares_in (lp_positions db) x" for x
    using shares_in_delete [OF wf(2) pos, of x] left
      shares_in_update [OF wf(2), of ?key "pos\<lparr>shares := left\<rparr>" x] pos
    by (cases "pid = x") (auto simp: word_eq_0)
  have total: "unat (total_shares ?p) = 1000 + shares_in ?ps pid"
    using sum [of pid] ok(3) burn_shares_Ok(5) [OF burn] by simp
  have other: "shares_in ?ps x = shares_in (lp_positions db) x" if "x \<noteq> pid" for x
    using sum [of x] that by simp
  have "\<forall>(k, v)\<in>set ?ps. 0 < unat (shares v) \<and> (lp_pool k = pid \<or> map_of (pools db) (lp_pool k) \<noteq> None)"
    using db_inv_rows(1) [OF inv, of pid]
    by (auto simp: tbl.rows_remove [OF wf(2)] tbl.rows_insert [OF wf(2)] word_eq_0)
  then have "db_inv amm (db\<lparr>pools := AList.update pid ?p (pools db), lp_positions := ?ps,
      balances := balances db\<rparr>)"
    using total other db_inv_rows(2) [OF inv] wf
    by (intro db_inv_write [OF inv ok(1) pok]) (auto simp: tbl.wf_insert tbl.wf_remove)
  then show ?thesis by (simp add: db')
qed

lemma claim_inv:
  assumes inv: "db_inv amm db" and "process_claim P db pk u = Ok (db', t)"
  shows "db_inv amm db'"
  using assms(2)
proof (rule process_claim_Ok)
  assume db': "db' = db\<lparr>balances := AList.delete \<lparr>b_owner = pk, b_unit = u\<rparr> (balances db)\<rparr>"
  have "\<forall>(k, v)\<in>set (balances db'). balance_ok v"
    unfolding db' using tbl.all_rows_remove [OF db_inv_wf(3) [OF inv] db_inv_rows(2) [OF inv]] by simp
  then show ?thesis
    using inv by (simp add: db' db_inv_def tables_wf_def tbl.wf_remove pools_inv_def positions_inv_def
        balances_inv_def votes_inv_def)
qed

lemma item_inv:
  assumes inv: "db_inv amm db" and "process_consensus_item amm db item peer = Ok db'"
  shows "db_inv amm db'"
proof (cases item)
  case (FeeVoteV0 pid fee)
  then have *: "fee_in_band (cfg amm) fee" "map_of (pools db) pid \<noteq> None"
    "db' = db\<lparr>fee_votes := AList.update \<lparr>fv_pool = pid, fv_peer = peer\<rparr> fee (fee_votes db)\<rparr>"
    using assms(2) by (auto simp: and_then_eq_Ok Let_def)
  have "\<forall>(k, fee)\<in>set (fee_votes db'). fee_in_band (cfg amm) fee \<and> map_of (pools db) (fv_pool k) \<noteq> None"
    using *(1,2) inv by (auto simp: *(3) tbl.rows_insert [OF db_inv_wf(4) [OF inv]] db_inv_def votes_inv_def)
  then show ?thesis
    using inv by (simp add: *(3) db_inv_def tables_wf_def tbl.wf_insert pools_inv_def positions_inv_def
        balances_inv_def votes_inv_def)
qed (use assms(2) in simp)

lemma submit_inv:
  assumes inv: "db_inv amm db" and "fee_vote_submit_endpoint amm db auth pid fee = Ok db'"
  shows "db_inv amm db'"
proof -
  have *: "fee_in_band (cfg amm) fee" "map_of (pools db) pid \<noteq> None"
    "db' = db\<lparr>desired_fees := AList.update pid fee (desired_fees db)\<rparr>"
    using assms(2) by (auto simp: fee_vote_submit_endpoint_def split: if_splits)
  have "\<forall>(pid, fee)\<in>set (desired_fees db'). fee_in_band (cfg amm) fee \<and> map_of (pools db) pid \<noteq> None"
    using *(1,2) inv by (auto simp: *(3) tbl.rows_insert [OF db_inv_wf(5) [OF inv]] db_inv_def votes_inv_def)
  then show ?thesis
    using inv by (simp add: *(3) db_inv_def tables_wf_def tbl.wf_insert pools_inv_def positions_inv_def
        balances_inv_def votes_inv_def)
qed

section \<open>The balance sheet\<close>

text \<open>
  What the module owes in one unit: the reserves of the pools on that side and the unclaimed
  balances. Shares are a claim on reserves already counted.
\<close>

definition pool_liability :: "AmountUnit \<Rightarrow> PoolId \<Rightarrow> Pool \<Rightarrow> nat" where
  "pool_liability u pid p =
     (if lo pid = u then unat (reserve_lo p) else 0) + (if hi pid = u then unat (reserve_hi p) else 0)"

definition balance_liability :: "AmountUnit \<Rightarrow> BalanceKey \<Rightarrow> BalanceEntry \<Rightarrow> nat" where
  "balance_liability u k e = (if b_unit k = u then unat (b_amount e) else 0)"

definition liability :: "amm_db \<Rightarrow> AmountUnit \<Rightarrow> nat" where
  "liability db u = tally (pool_liability u) (pools db) + tally (balance_liability u) (balances db)"

lemma tally_pool_update:
  assumes "wf_table t" and "map_of t pid = Some p"
  shows "tally (pool_liability u) (AList.update pid p' t) + pool_liability u pid p =
    tally (pool_liability u) t + pool_liability u pid p'"
  using tbl.tally_insert [OF assms(1), of "pool_liability u" pid p'] assms(2) by simp

lemma amounts_two_legs:
  assumes "amounts_law P" and "x \<noteq> y"
  obtains amts where "Option.bind (Amounts_checked_add_unit P (Amounts_ZERO P) a x)
      (\<lambda>m. Amounts_checked_add_unit P m b y) = Some amts"
    and "\<And>v. amount_of amts v = (if v = x then unat a else 0) + (if v = y then unat b else 0)"
proof -
  have zero: "amount_of (Amounts_ZERO P) v = 0" for v
    using assms(1) by (simp add: amounts_law_def)
  have add: "amount_of m v + unat c < 2 ^ 64 \<Longrightarrow> \<exists>m'. Amounts_checked_add_unit P m c v = Some m' \<and>
      (\<forall>w. amount_of m' w = amount_of m w + (if w = v then unat c else 0))" for m c v
    using assms(1) by (simp add: amounts_law_def)
  obtain m where m: "Amounts_checked_add_unit P (Amounts_ZERO P) a x = Some m"
    "\<And>w. amount_of m w = (if w = x then unat a else 0)"
    using add [of "Amounts_ZERO P" x a] unat_u64 [of a] by (auto simp: zero)
  obtain m' where m': "Amounts_checked_add_unit P m b y = Some m'"
    "\<And>w. amount_of m' w = amount_of m w + (if w = y then unat b else 0)"
    using add [of m y b] unat_u64 [of b] assms(2) by (auto simp: m(2))
  show ?thesis by (rule that [of m']) (simp_all add: m m')
qed

lemma amounts_new_custom: "amounts_law P \<Longrightarrow> amount_of (Amounts_new_custom P u a) v = (if v = u then unat a else 0)"
  by (simp add: amounts_law_def)

lemma swap_conserves:
  assumes inv: "db_inv amm db" and law: "amounts_law P"
    and "process_swap P amm db ui uo a m pk tw = Ok (db', t)"
  shows "liability db' u = liability db u + amount_of (amounts t) u"
  using assms(3)
proof (rule process_swap_Ok)
  fix pid :: PoolId and pool :: Pool and q :: SwapQuote and r_out credited :: u64
  let ?key = "\<lparr>b_owner = pk, b_unit = uo\<rparr>"
  assume pid: "PoolId_new ui uo = Some pid" and pool: "map_of (pools db) pid = Some pool"
    and q: "quote_swap P amm db pool pid ui a (Some m) = Ok q"
    and d: "unat (dy q) \<le> unat (reserve_out q)" "unat r_out = unat (reserve_out q) - unat (dy q)"
    and cr: "unat credited = balance_of db pk uo + unat (dy q)"
    and db': "db' = db\<lparr>pools := AList.update pid (swapped_pool pool q r_out) (pools db),
           balances := AList.update ?key \<lparr>b_amount = credited, b_tweak = tw\<rparr> (balances db)\<rparr>"
    and t: "t = \<lparr>amounts = Amounts_new_custom P ui a, fees = Amounts_ZERO P\<rparr>"
  from q have o: "in_is_lo q \<longleftrightarrow> ui = lo pid"
    "reserve_in q = (if ui = lo pid then reserve_lo pool else reserve_hi pool)"
    "reserve_out q = (if ui = lo pid then reserve_hi pool else reserve_lo pool)"
    "unat (reserve_in_new q) = unat (reserve_in q) + unat a"
    by (auto elim: quote_swap_Ok)
  have "pool_liability u pid (swapped_pool pool q r_out) + (if u = uo then unat (dy q) else 0) =
      pool_liability u pid pool + (if u = ui then unat a else 0)"
    using PoolId_new_sides(1,2) [OF pid] d o by (auto simp: pool_liability_def swapped_pool_def)
  moreover note tally_pool_update [OF db_inv_wf(1) [OF inv] pool, of u "swapped_pool pool q r_out"]
  moreover have "tally (balance_liability u) (balances db') =
      tally (balance_liability u) (balances db) + (if u = uo then unat (dy q) else 0)"
    using tbl.tally_insert [OF db_inv_wf(3) [OF inv], of "balance_liability u" ?key
        "\<lparr>b_amount = credited, b_tweak = tw\<rparr>"] cr
    by (auto simp: db' balance_liability_def balance_of_def split: option.splits if_splits)
  ultimately show ?thesis
    by (simp add: liability_def t amounts_new_custom [OF law] db')
qed

lemma deposit_conserves:
  assumes inv: "db_inv amm db" and law: "amounts_law P" and can: "canonical pid"
    and "process_deposit P amm db pid a_lo a_hi m pk tw = Ok (db', t)"
  shows "liability db' u = liability db u + amount_of (amounts t) u"
  using assms(4)
proof (rule process_deposit_Ok)
  fix pool :: Pool and mo :: MintOutcome and new_shares new_lo new_hi :: u64 and amts
  let ?p = "\<lparr>reserve_lo = new_lo, reserve_hi = new_hi, total_shares = minted_total mo\<rparr>"
  assume pool: "pool = (case map_of (pools db) pid of Some p \<Rightarrow> p
       | None \<Rightarrow> \<lparr>reserve_lo = 0, reserve_hi = 0, total_shares = 0\<rparr>)"
    and r: "unat new_lo = unat (reserve_lo pool) + unat a_lo" "unat new_hi = unat (reserve_hi pool) + unat a_hi"
    and amts: "Option.bind (Amounts_checked_add_unit P (Amounts_ZERO P) a_lo (lo pid))
           (\<lambda>a. Amounts_checked_add_unit P a a_hi (hi pid)) = Some amts"
    and db': "db' = db\<lparr>pools := AList.update pid ?p (pools db), lp_positions := AList.update
             \<lparr>lp_pool = pid, lp_owner = pk\<rparr> \<lparr>shares = new_shares, lp_tweak = tw\<rparr> (lp_positions db)\<rparr>"
    and t: "t = \<lparr>amounts = amts, fees = Amounts_ZERO P\<rparr>"
  have legs: "amount_of amts u = (if u = lo pid then unat a_lo else 0) + (if u = hi pid then unat a_hi else 0)"
    by (rule amounts_two_legs [OF law canonical_distinct [OF can], of a_lo a_hi]) (use amts in simp)
  have "(case map_of (pools db) pid of None \<Rightarrow> 0 | Some w \<Rightarrow> pool_liability u pid w) = pool_liability u pid pool"
    using pool by (simp add: pool_liability_def split: option.splits)
  then have "tally (pool_liability u) (AList.update pid ?p (pools db)) + pool_liability u pid pool =
      tally (pool_liability u) (pools db) + pool_liability u pid ?p"
    using tbl.tally_insert [OF db_inv_wf(1) [OF inv], of "pool_liability u" pid ?p] by simp
  then show ?thesis
    using r by (auto simp: liability_def db' t legs pool_liability_def split: if_splits)
qed

lemma withdraw_conserves:
  assumes inv: "db_inv amm db" and law: "amounts_law P"
    and "process_withdraw P db pid pk s m_lo m_hi x_lo x_hi = Ok (db', t)"
  shows "liability db' u + amount_of (amounts (amount t)) u = liability db u"
  using assms(3)
proof (rule process_withdraw_Ok)
  fix pool :: Pool and pos :: LpPosition and b :: BurnOutcome and new_lo new_hi left :: u64 and amts
  let ?p = "\<lparr>reserve_lo = new_lo, reserve_hi = new_hi, total_shares = burned_total b\<rparr>"
  assume pool: "map_of (pools db) pid = Some pool"
    and amts: "Option.bind (Amounts_checked_add_unit P (Amounts_ZERO P) (burn_da b) (lo pid))
             (\<lambda>a. Amounts_checked_add_unit P a (burn_db b) (hi pid)) = Some amts"
    and r: "unat (burn_da b) \<le> unat (reserve_lo pool)"
      "unat new_lo = unat (reserve_lo pool) - unat (burn_da b)"
      "unat (burn_db b) \<le> unat (reserve_hi pool)"
      "unat new_hi = unat (reserve_hi pool) - unat (burn_db b)"
    and db': "db' = db\<lparr>pools := AList.update pid ?p (pools db),
           lp_positions := (if left = 0 then AList.delete \<lparr>lp_pool = pid, lp_owner = pk\<rparr> (lp_positions db)
             else AList.update \<lparr>lp_pool = pid, lp_owner = pk\<rparr> (pos\<lparr>shares := left\<rparr>) (lp_positions db))\<rparr>"
    and t: "t = \<lparr>amount = \<lparr>amounts = amts, fees = Amounts_ZERO P\<rparr>, pub_key = pk\<rparr>"
  have legs: "amount_of amts u =
      (if u = lo pid then unat (burn_da b) else 0) + (if u = hi pid then unat (burn_db b) else 0)"
    by (rule amounts_two_legs [OF law canonical_distinct [OF db_inv_pool(1) [OF inv pool]],
          of "burn_da b" "burn_db b"]) (use amts in simp)
  show ?thesis
    using tally_pool_update [OF db_inv_wf(1) [OF inv] pool, of u ?p] r
    by (auto simp: liability_def db' t legs pool_liability_def split: if_splits)
qed

lemma claim_conserves:
  assumes inv: "db_inv amm db" and law: "amounts_law P" and "process_claim P db pk u' = Ok (db', t)"
  shows "liability db' u + amount_of (amounts (amount t)) u = liability db u"
  using assms(3)
proof (rule process_claim_Ok)
  fix e :: BalanceEntry
  let ?key = "\<lparr>b_owner = pk, b_unit = u'\<rparr>"
  assume e: "map_of (balances db) ?key = Some e"
    and db': "db' = db\<lparr>balances := AList.delete ?key (balances db)\<rparr>"
    and t: "t = \<lparr>amount = \<lparr>amounts = Amounts_new_custom P u' (b_amount e), fees = Amounts_ZERO P\<rparr>, pub_key = pk\<rparr>"
  show ?thesis
    using tbl.tally_remove [OF db_inv_wf(3) [OF inv] e, of "balance_liability u"]
    by (simp add: liability_def db' t amounts_new_custom [OF law] balance_liability_def)
qed

section \<open>The transition system\<close>

text \<open>
  The environment the guarantees rest on: the documented behaviour of \<open>Amounts\<close>, a configuration
  that passed \<open>validate\<close>, and a positive consensus threshold.
\<close>

definition env_ok :: "platform \<Rightarrow> Amm \<Rightarrow> bool" where
  "env_ok P amm \<longleftrightarrow> amounts_law P \<and> validate (cfg amm) = Ok () \<and> 0 < NumPeers_threshold P (num_peers amm)"

datatype amm_event =
    InputEvent AmmInput
  | OutputEvent AmmOutput
  | ItemEvent AmmConsensusItem PeerId
  | SubmitEvent bool PoolId u16

record amm_state =
  ledger :: amm_db
  paid_in :: "AmountUnit \<Rightarrow> nat"
  paid_out :: "AmountUnit \<Rightarrow> nat"

text \<open>The type invariant of the pool id an output carries.\<close>

fun output_canonical :: "AmmOutput \<Rightarrow> bool" where
  "output_canonical (DepositV0 pool _ _ _ _ _ _) = canonical pool"
| "output_canonical _ = True"

inductive amm_step :: "platform \<Rightarrow> Amm \<Rightarrow> amm_state \<Rightarrow> amm_event \<Rightarrow> amm_state \<Rightarrow> bool"
  for P amm where
  on_input: "process_input P (ledger s) i = Ok (db', meta) \<Longrightarrow>
    amm_step P amm s (InputEvent i)
      (s\<lparr>ledger := db', paid_out := (\<lambda>u. paid_out s u + amount_of (amounts (amount meta)) u)\<rparr>)"
| on_output: "process_output P amm (ledger s) out = Ok (db', t) \<Longrightarrow> output_canonical out \<Longrightarrow>
    amm_step P amm s (OutputEvent out)
      (s\<lparr>ledger := db', paid_in := (\<lambda>u. paid_in s u + amount_of (amounts t) u)\<rparr>)"
| on_item: "process_consensus_item amm (ledger s) c peer = Ok db' \<Longrightarrow>
    amm_step P amm s (ItemEvent c peer) (s\<lparr>ledger := db'\<rparr>)"
| on_submit: "fee_vote_submit_endpoint amm (ledger s) auth pool fee = Ok db' \<Longrightarrow>
    amm_step P amm s (SubmitEvent auth pool fee) (s\<lparr>ledger := db'\<rparr>)"

inductive_cases amm_stepE: "amm_step P amm s l s'"

definition amm_start :: "platform \<Rightarrow> Amm \<Rightarrow> amm_state \<Rightarrow> bool" where
  "amm_start P amm s \<longleftrightarrow> env_ok P amm \<and>
     s = \<lparr>ledger = empty_db, paid_in = (\<lambda>_. 0), paid_out = (\<lambda>_. 0)\<rparr>"

definition amm_inv :: "platform \<Rightarrow> Amm \<Rightarrow> amm_state \<Rightarrow> bool" where
  "amm_inv P amm s \<longleftrightarrow> env_ok P amm \<and> db_inv amm (ledger s) \<and>
     (\<forall>u. liability (ledger s) u + paid_out s u = paid_in s u)"

lemma input_inv:
  assumes "db_inv amm db" and "process_input P db i = Ok (db', meta)"
  shows "db_inv amm db'"
  using assms by (cases i) (auto intro: claim_inv withdraw_inv)

lemma input_conserves:
  assumes "db_inv amm db" and "amounts_law P" and "process_input P db i = Ok (db', meta)"
  shows "liability db' u + amount_of (amounts (amount meta)) u = liability db u"
  using assms by (cases i) (auto intro: claim_conserves withdraw_conserves)

lemma output_inv:
  assumes "db_inv amm db" and "output_canonical out" and "process_output P amm db out = Ok (db', t)"
  shows "db_inv amm db'"
  using assms by (cases out) (auto simp: process_output_def intro: swap_inv deposit_inv split: if_splits)

lemma output_conserves:
  assumes "db_inv amm db" and "amounts_law P" and "output_canonical out"
    and "process_output P amm db out = Ok (db', t)"
  shows "liability db' u = liability db u + amount_of (amounts t) u"
  using assms by (cases out)
    (auto simp: process_output_def intro: swap_conserves deposit_conserves split: if_splits)

lemma vote_conserves:
  shows "process_consensus_item amm db c peer = Ok db' \<Longrightarrow> liability db' u = liability db u"
    and "fee_vote_submit_endpoint amm db auth pool fee = Ok db' \<Longrightarrow> liability db' u = liability db u"
  by (cases c; auto simp: and_then_eq_Ok Let_def liability_def)
    (auto simp: fee_vote_submit_endpoint_def liability_def split: if_splits)

lemma liability_empty [simp]: "liability empty_db u = 0"
  by (simp add: liability_def empty_db_def)

interpretation amm_sys: guarded_system "amm_start P amm" "amm_step P amm" "amm_inv P amm" for P amm
proof unfold_locales
  fix s assume "amm_start P amm s"
  then show "amm_inv P amm s" by (simp add: amm_start_def amm_inv_def db_inv_empty)
next
  fix s l s' assume "amm_step P amm s l s'" and "amm_inv P amm s"
  then have env: "env_ok P amm" and inv: "db_inv amm (ledger s)" and law: "amounts_law P"
    and bal: "\<And>u. liability (ledger s) u + paid_out s u = paid_in s u"
    by (auto simp: amm_inv_def env_ok_def)
  from \<open>amm_step P amm s l s'\<close> show "amm_inv P amm s'"
  proof (cases rule: amm_step.cases)
    case (on_input i db' meta)
    have "liability db' u + (paid_out s u + amount_of (amounts (amount meta)) u) = paid_in s u" for u
      using input_conserves [OF inv law on_input(3), of u] bal [of u] by simp
    then show ?thesis using env input_inv [OF inv on_input(3)] by (simp add: amm_inv_def on_input)
  next
    case (on_output out db' t)
    then show ?thesis
      using env output_inv [OF inv on_output(4,3)] output_conserves [OF inv law on_output(4,3)] bal
      by (simp add: amm_inv_def)
  next
    case (on_item c peer db')
    then show ?thesis using env item_inv [OF inv on_item(3)] vote_conserves(1) [OF on_item(3)] bal by (simp add: amm_inv_def)
  next
    case (on_submit auth pool fee db')
    then show ?thesis using env submit_inv [OF inv on_submit(3)] vote_conserves(2) [OF on_submit(3)] bal by (simp add: amm_inv_def)
  qed
qed

section \<open>No handler panics\<close>

lemma u64_mult_returns:
  obtains x where "mul_p (ucast (a :: u64) :: u128) (ucast (b :: u64)) = (Ok x :: (u128, 'e) result)"
    and "unat x = unat a * unat b"
proof (cases "mul_p (ucast a :: u128) (ucast b) :: (u128, 'e) result")
  case (Ok x)
  then have "unat x = unat a * unat b" by (simp add: op_p_Ok)
  with Ok show ?thesis by (rule that)
next
  case Panic
  then show ?thesis using u64_mult_fits [of a b] by (simp add: op_p_Panic not_le)
qed simp

lemma k_non_decreasing_eq:
  "k_non_decreasing a b c d = (Ok (unat a * unat b \<le> unat c * unat d) :: (bool, 'e) result)"
proof -
  obtain x where x: "mul_p (ucast a :: u128) (ucast b) = (Ok x :: (u128, 'e) result)"
    "unat x = unat a * unat b" by (rule u64_mult_returns)
  obtain y where y: "mul_p (ucast c :: u128) (ucast d) = (Ok y :: (u128, 'e) result)"
    "unat y = unat c * unat d" by (rule u64_mult_returns)
  show ?thesis by (simp add: k_non_decreasing_def x y word_le_nat_alt)
qed

lemma quote_swap_no_panic:
  assumes "env_ok P amm"
  shows "quote_swap P amm db pool pid ui a m \<noteq> Panic"
proof -
  obtain fee where fee: "consensus_fee_for P amm db pid = (Ok fee :: (u16, AmmOutputError) result)"
    using consensus_fee_for_valid assms unfolding env_ok_def by blast
  show ?thesis
    by (auto simp: quote_swap_def Let_def and_then_eq_Panic fee split: if_splits)
qed

text \<open>
  Once a swap is quoted, the reserve does not underflow and the product of the reserves does not
  shrink, so only the credit to the recipient can still be refused.
\<close>

lemma process_swap_quoted:
  assumes "PoolId_new ui uo = Some pid" and "map_of (pools db) pid = Some pool"
    and q: "quote_swap P amm db pool pid ui a (Some m) = Ok q"
  shows "\<exists>r_out. unat r_out = unat (reserve_out q) - unat (dy q) \<and>
    process_swap P amm db ui uo a m pk tw =
      (if map_of (balances db) \<lparr>b_owner = pk, b_unit = uo\<rparr> \<noteq> None \<and>
          2 ^ 58 < balance_of db pk uo + unat (dy q)
       then Err AmmOutputError.ReserveCapExceeded
       else Ok (db\<lparr>pools := AList.update pid (swapped_pool pool q r_out) (pools db),
           balances := AList.update \<lparr>b_owner = pk, b_unit = uo\<rparr>
             \<lparr>b_amount = of_nat (balance_of db pk uo + unat (dy q)), b_tweak = tw\<rparr> (balances db)\<rparr>,
         \<lparr>amounts = Amounts_new_custom P ui a, fees = Amounts_ZERO P\<rparr>))"
proof -
  note s = swap_reserves [OF q]
  obtain r where r: "sub_p (reserve_out q) (dy q) = (Ok r :: (u64, AmmOutputError) result)"
    "unat r = unat (reserve_out q) - unat (dy q)"
    using op_p_returns(2) [of "dy q" "reserve_out q"] s(3) by (metis less_imp_le)
  have k: "k_non_decreasing (reserve_in q) (reserve_out q) (reserve_in_new q) r =
      (Ok True :: (bool, AmmOutputError) result)"
    using s(4) by (simp add: k_non_decreasing_eq r(2))
  have credit: "checked_add x y = (if unat x + unat y < 2 ^ 64 then Some (of_nat (unat x + unat y)) else None)"
    for x y :: u64
    by (simp add: checked_add_def)
  have sum: "unat (x + y) = unat x + unat y" if "unat x + unat y < 18446744073709551616" for x y :: u64
    using that by (simp add: unat_word_ariths)
  show ?thesis
  proof (intro exI conjI)
    show "unat r = unat (reserve_out q) - unat (dy q)" by (rule r(2))
  qed (auto simp: process_swap_def assms r(1) k Let_def balance_of_def credit swapped_pool_def
      word_less_nat_alt sum split: option.splits)
qed

lemma process_swap_no_panic:
  assumes "env_ok P amm"
  shows "process_swap P amm db ui uo a m pk tw \<noteq> Panic"
proof (cases "PoolId_new ui uo")
  case (Some pid)
  show ?thesis
  proof (cases "map_of (pools db) pid")
    case pool: (Some pool)
    show ?thesis
    proof (cases "quote_swap P amm db pool pid ui a (Some m)")
      case (Ok q)
      show ?thesis using process_swap_quoted [OF Some pool Ok, of pk tw] by (auto split: if_splits)
    qed (simp_all add: process_swap_def Some pool quote_swap_no_panic [OF assms])
  qed (simp add: process_swap_def Some)
qed (simp add: process_swap_def)

lemma process_deposit_no_panic: "process_deposit P amm db pid a_lo a_hi m pk tw \<noteq> Panic"
  by (auto simp: process_deposit_def Let_def and_then_eq_Panic mint_shares_no_panic split: if_splits)

lemma process_output_no_panic:
  assumes "env_ok P amm"
  shows "process_output P amm db out \<noteq> Panic"
  by (cases out) (simp_all add: process_output_def process_swap_no_panic [OF assms] process_deposit_no_panic)

lemma burn_fits:
  assumes "burn_shares rlo rhi S s = Ok b"
  shows "(sub_p rlo (burn_da b) :: (u64, 'e) result) \<noteq> Panic"
    and "(sub_p rhi (burn_db b) :: (u64, 'e) result) \<noteq> Panic"
  using burn_shares_Ok(2-4) [OF assms] burn_share_le by (auto simp: op_p_Panic not_less)

lemma process_withdraw_no_panic: "process_withdraw P db pid pk s m_lo m_hi x_lo x_hi \<noteq> Panic"
  unfolding process_withdraw_def Let_def
  by (auto simp: and_then_eq_Panic burn_shares_no_panic op_p_Panic(2) [of "shares _"] word_order
      dest: burn_fits split: if_splits)

lemma process_input_no_panic: "process_input P db i \<noteq> Panic"
  by (cases i) (simp_all add: process_withdraw_no_panic process_claim_def Let_def and_then_eq_Panic)

lemma item_no_panic: "process_consensus_item amm db c peer \<noteq> Panic"
  by (cases c) (auto simp: and_then_eq_Panic Let_def)

lemma audit_items_eq:
  "\<forall>w\<in>set ws. unat w < 2 ^ 63 \<Longrightarrow> audit_items ws = Ok (map (\<lambda>w. - int (unat w)) ws)"
  by (induction ws) (simp_all add: audit_item_def)

lemma audit_eq:
  assumes "db_inv amm db"
  shows "audit db = (Ok (map (\<lambda>(_, p). - int (unat (reserve_lo p))) (pools db) @
    map (\<lambda>(_, p). - int (unat (reserve_hi p))) (pools db) @
    map (\<lambda>(_, b). - int (unat (b_amount b))) (balances db)) :: (int list, 'e) result)"
proof -
  have p: "unat (reserve_lo p) < 2 ^ 63" "unat (reserve_hi p) < 2 ^ 63" if "(pid, p) \<in> set (pools db)" for pid p
  proof -
    have "pool_ok p" using that assms by (auto simp: db_inv_def pools_inv_def)
    from pool_okD(2,4) [OF this] show "unat (reserve_lo p) < 2 ^ 63" "unat (reserve_hi p) < 2 ^ 63"
      by simp_all
  qed
  have b: "unat (b_amount e) < 2 ^ 63" if "(k, e) \<in> set (balances db)" for k e
    using that assms by (auto simp: db_inv_def balances_inv_def balance_ok_def)
  have "audit_items (map (\<lambda>(_, p). reserve_lo p) (pools db)) =
      (Ok (map (\<lambda>w. - int (unat w)) (map (\<lambda>(_, p). reserve_lo p) (pools db))) :: (int list, 'e) result)"
    "audit_items (map (\<lambda>(_, p). reserve_hi p) (pools db)) =
      (Ok (map (\<lambda>w. - int (unat w)) (map (\<lambda>(_, p). reserve_hi p) (pools db))) :: (int list, 'e) result)"
    "audit_items (map (\<lambda>(_, b). b_amount b) (balances db)) =
      (Ok (map (\<lambda>w. - int (unat w)) (map (\<lambda>(_, b). b_amount b) (balances db))) :: (int list, 'e) result)"
    using p b by (intro audit_items_eq; force)+
  then show ?thesis by (simp add: audit_def comp_def case_prod_unfold)
qed

section \<open>What a share is worth\<close>

text \<open>
  The worth of a share, as the product of the reserves over the square of the shares, compared by
  cross-multiplication.
\<close>

definition share_worth_le :: "Pool \<Rightarrow> Pool \<Rightarrow> bool" where
  "share_worth_le p p' \<longleftrightarrow>
     unat (reserve_lo p) * unat (reserve_hi p) * (unat (total_shares p') * unat (total_shares p')) \<le>
     unat (reserve_lo p') * unat (reserve_hi p') * (unat (total_shares p) * unat (total_shares p))"

lemma share_worth_refl [simp]: "share_worth_le p p"
  by (simp add: share_worth_le_def)

lemma share_worth_trans:
  assumes "share_worth_le p q" and "share_worth_le q r" and "0 < unat (total_shares q)"
  shows "share_worth_le p r"
proof -
  have gen: "a * z \<le> c * x" if ab: "a * y \<le> b * x" and bc: "b * z \<le> c * y" and y: "0 < (y :: nat)"
    for a b c x y z :: nat
  proof -
    have "y * (a * z) = (a * y) * z" by simp
    also have "\<dots> \<le> (b * x) * z" using ab by (rule mult_le_mono1)
    also have "\<dots> = (b * z) * x" by simp
    also have "\<dots> \<le> (c * y) * x" using bc by (rule mult_le_mono1)
    also have "\<dots> = y * (c * x)" by simp
    finally show ?thesis using y by simp
  qed
  show ?thesis
    unfolding share_worth_le_def
    by (rule gen [OF assms(1) [unfolded share_worth_le_def] assms(2) [unfolded share_worth_le_def]])
      (use assms(3) in simp)
qed

lemma share_worth_swap:
  assumes q: "quote_swap P amm db pool pid ui a m = Ok q"
    and r_out: "unat r_out = unat (reserve_out q) - unat (dy q)"
  shows "share_worth_le pool (swapped_pool pool q r_out)"
proof -
  have k: "unat (reserve_in q) * unat (reserve_out q) \<le> unat (reserve_in_new q) * unat r_out"
    using swap_reserves(4) [OF q] r_out by simp
  from q have o: "in_is_lo q \<longleftrightarrow> ui = lo pid"
    "reserve_in q = (if ui = lo pid then reserve_lo pool else reserve_hi pool)"
    "reserve_out q = (if ui = lo pid then reserve_hi pool else reserve_lo pool)"
    by (auto elim: quote_swap_Ok)
  show ?thesis
    using k unfolding share_worth_le_def
    by (cases "ui = lo pid") (auto simp: o swapped_pool_def mult.commute intro!: mult_le_mono1)
qed

lemma share_worth_mint:
  assumes "mint_shares (reserve_lo pool) (reserve_hi pool) (total_shares pool) a_lo a_hi = Ok mo"
    and "total_shares pool \<noteq> 0"
    and "unat new_lo = unat (reserve_lo pool) + unat a_lo" and "unat new_hi = unat (reserve_hi pool) + unat a_hi"
  shows "share_worth_le pool \<lparr>reserve_lo = new_lo, reserve_hi = new_hi, total_shares = minted_total mo\<rparr>"
  using value_product [OF mint_value [OF mint_shares_pro_rata(1)] mint_value [OF mint_shares_pro_rata(2)],
      OF assms(1,2,1,2)]
  by (simp add: share_worth_le_def assms(3,4) mint_shares_later(5) [OF assms(1,2)])

lemma share_worth_burn:
  assumes "burn_shares (reserve_lo pool) (reserve_hi pool) (total_shares pool) s = Ok b"
    and "unat new_lo = unat (reserve_lo pool) - unat (burn_da b)"
    and "unat new_hi = unat (reserve_hi pool) - unat (burn_db b)"
  shows "share_worth_le pool \<lparr>reserve_lo = new_lo, reserve_hi = new_hi, total_shares = burned_total b\<rparr>"
  using value_product [OF burn_value burn_value, of "unat s" "unat (total_shares pool)" "unat (reserve_lo pool)"
      "unat (reserve_hi pool)"] burn_shares_Ok [OF assms(1)]
  by (simp add: share_worth_le_def assms(2,3))

lemma step_share_worth:
  assumes step: "amm_step P amm s l s'" and inv: "db_inv amm (ledger s)"
    and p: "map_of (pools (ledger s)) pid = Some p"
  shows "\<exists>p'. map_of (pools (ledger s')) pid = Some p' \<and> share_worth_le p p'"
  using step
proof cases
  case (on_input i db' meta)
  show ?thesis
  proof (cases i)
    case (WithdrawV0 x1 x2 x3 x4 x5 x6 x7)
    with on_input(3) have "process_withdraw P (ledger s) x1 x2 x3 x4 x5 x6 x7 = Ok (db', meta)" by simp
    then show ?thesis
      by (rule process_withdraw_Ok) (use p on_input(2) share_worth_burn in \<open>auto simp: tbl.get_insert\<close>)
  qed (use on_input p in \<open>auto elim!: process_claim_Ok\<close>)
next
  case (on_output out db' t)
  show ?thesis
  proof (cases out)
    case (SwapV0 x1 x2 x3 x4 x5 x6 x7)
    with on_output(3) have "process_swap P amm (ledger s) x1 x2 x3 x4 x5 x6 = Ok (db', t)"
      by (simp add: process_output_def split: if_splits)
    then show ?thesis
      by (rule process_swap_Ok) (use p on_output(2) share_worth_swap in \<open>auto simp: tbl.get_insert\<close>)
  next
    case (DepositV0 x1 x2 x3 x4 x5 x6 x7)
    with on_output(3) have "process_deposit P amm (ledger s) x1 x2 x3 x4 x5 x6 = Ok (db', t)"
      by (simp add: process_output_def split: if_splits)
    moreover have "total_shares p \<noteq> 0" using pool_okD(5) [OF db_inv_pool(2) [OF inv p]] by auto
    ultimately show ?thesis
      by (elim process_deposit_Ok) (use p on_output(2) share_worth_mint in \<open>auto simp: tbl.get_insert\<close>)
  qed (use on_output in \<open>simp add: process_output_def\<close>)
next
  case (on_item c peer db')
  then show ?thesis using p by (cases c) (auto simp: and_then_eq_Ok Let_def)
next
  case (on_submit auth pool fee db')
  then show ?thesis using p by (auto simp: fee_vote_submit_endpoint_def split: if_splits)
qed

end
