(* ===== verification/Amm_Safety.thy ===== *)
theory Amm_Safety
  imports Amm_Ledger
begin

text \<open>
  The guarantees of the AMM module, as properties of its handlers and of every state a guardian can
  reach. The section on a concrete federation gives an instance of the platform that satisfies its
  documented behaviour and a short history of a pool, on which the hypotheses of the properties are
  seen to hold.
\<close>

section \<open>A concrete federation\<close>

definition demo_add_unit :: "Amounts \<Rightarrow> Amount \<Rightarrow> AmountUnit \<Rightarrow> Amounts option" where
  "demo_add_unit m a u =
     (if a = 0 then Some m
      else map_option (\<lambda>s. m(u \<mapsto> s)) (checked_add (case m u of None \<Rightarrow> 0 | Some b \<Rightarrow> b) a))"

definition demo_platform :: platform where
  "demo_platform =
     \<lparr>swap_payload_sha256 = (\<lambda>p. sp_domain p # sp_tweak p),
      deposit_payload_sha256 = (\<lambda>p. dp_domain p # dp_tweak p),
      public_key = (\<lambda>k. k), x_only_public_key = (\<lambda>k. k),
      sign_schnorr_no_aux_rand = (\<lambda>m k. k @ m), verify_schnorr = (\<lambda>s m k. s = k @ m),
      Amounts_ZERO = Map.empty, Amounts_new_custom = (\<lambda>u a. [u \<mapsto> a]),
      Amounts_checked_add_unit = demo_add_unit, NumPeers_threshold = (\<lambda>n. n - (n - 1) div 3)\<rparr>"

definition demo_amm :: Amm where
  "demo_amm = \<lparr>cfg = default_consensus_config, num_peers = 4, our_peer_id = 0\<rparr>"

definition demo_pool :: PoolId where
  "demo_pool = \<lparr>lo = 0, hi = 1\<rparr>"

definition demo_deposit :: AmmOutput where
  "demo_deposit = new_deposit_v0 demo_platform [1] demo_pool 1000000 4000000 1 [7]"

definition demo_swap :: AmmOutput where
  "demo_swap = new_swap_v0 demo_platform [2] 0 1 10000 1 [9]"

definition demo_db1 :: amm_db where
  "demo_db1 = empty_db\<lparr>
     pools := [(demo_pool, \<lparr>reserve_lo = 1000000, reserve_hi = 4000000, total_shares = 2000000\<rparr>)],
     lp_positions := [(\<lparr>lp_pool = demo_pool, lp_owner = [1]\<rparr>, \<lparr>shares = 1999000, lp_tweak = [7]\<rparr>)]\<rparr>"

definition demo_db2 :: amm_db where
  "demo_db2 = demo_db1\<lparr>
     pools := [(demo_pool, \<lparr>reserve_lo = 1010000, reserve_hi = 3960514, total_shares = 2000000\<rparr>)],
     balances := [(\<lparr>b_owner = [2], b_unit = 1\<rparr>, \<lparr>b_amount = 39486, b_tweak = [9]\<rparr>)]\<rparr>"

lemma demo_add_unit_law:
  "amount_of m u + unat a < 2 ^ 64 \<Longrightarrow> \<exists>m'. demo_add_unit m a u = Some m' \<and>
    (\<forall>v. amount_of m' v = amount_of m v + (if v = u then unat a else 0))"
  by (auto simp: demo_add_unit_def amount_of_def checked_add_def unat_word_ariths split: option.splits)

lemma demo_env: "env_ok demo_platform demo_amm"
proof -
  have "amounts_law demo_platform"
    using demo_add_unit_law by (simp add: amounts_law_def demo_platform_def amount_of_def)
  moreover have "validate (cfg demo_amm) = Ok ()"
    by (simp add: demo_amm_def default_consensus_config_def validate_def)
  moreover have "0 < NumPeers_threshold demo_platform (num_peers demo_amm)"
    by (simp add: demo_platform_def demo_amm_def)
  ultimately show ?thesis by (simp add: env_ok_def)
qed

lemmas demo_defs = demo_amm_def demo_platform_def demo_pool_def demo_deposit_def demo_swap_def
  demo_db1_def demo_db2_def demo_add_unit_def default_consensus_config_def BITCOIN_def empty_db_def

lemma demo_isqrt: "isqrt_nat 4000000000000 = 2000000"
  by (simp add: isqrt_nat.simps)

lemma demo_mint: "mint_shares 0 0 0 1000000 4000000 = Ok \<lparr>to_owner = 1999000, minted_total = 2000000\<rparr>"
  by (simp add: mint_shares_def eval_ops is_none_or_def MAX_RESERVE_def demo_isqrt MINIMUM_LIQUIDITY_def)

lemma demo_1: "process_output demo_platform demo_amm empty_db demo_deposit =
  Ok (demo_db1, \<lparr>amounts = [0 \<mapsto> 1000000, 1 \<mapsto> 4000000], fees = Map.empty\<rparr>)"
  by (simp add: demo_defs process_output_def new_deposit_v0_def sign_pop_def pop_verify_def
     deposit_pop_message_def process_deposit_def contains_key_def eval_ops demo_mint)

lemma demo_fee: "consensus_fee_for demo_platform demo_amm demo_db1 demo_pool = Ok 3"
  by (simp add: consensus_fee_for_def demo_defs fee_votes_of_def get_nth_def config_fee_for_def fee_for_def
     clamp_fee_to_band_def clamp_def)

lemma demo_units: "units (cfg demo_amm) = [(0, \<lparr>min_swap_in = 1000\<rparr>), (1, \<lparr>min_swap_in = 10\<rparr>)]"
  by (simp add: demo_defs)

lemma demo_quote:
  "quote_swap demo_platform demo_amm demo_db1
     \<lparr>reserve_lo = 1000000, reserve_hi = 4000000, total_shares = 2000000\<rparr> demo_pool 0 10000 m =
   (if (case m of Some x \<Rightarrow> 39486 < x | None \<Rightarrow> False) then Err AmmOutputError.SlippageExceeded
    else Ok \<lparr>dy = 39486, in_is_lo = True, reserve_in = 1000000, reserve_out = 4000000,
             reserve_in_new = 1010000\<rparr>)"
  by (simp add: quote_swap_def demo_fee [unfolded demo_pool_def] demo_units demo_pool_def other_def
      contains_key_def amount_out_eq curve_out_def eval_ops MAX_RESERVE_def)

lemma demo_2: "process_output demo_platform demo_amm demo_db1 demo_swap =
  Ok (demo_db2, \<lparr>amounts = [0 \<mapsto> 10000], fees = Map.empty\<rparr>)"
proof -
  have "process_swap demo_platform demo_amm demo_db1 0 1 10000 1 [2] [9] =
    Ok (demo_db2, \<lparr>amounts = [0 \<mapsto> 10000], fees = Map.empty\<rparr>)"
    using demo_quote [of "Some 1"]
    by (simp add: process_swap_def PoolId_new_def demo_defs k_non_decreasing_eq eval_ops)
  then show ?thesis
    by (simp add: process_output_def demo_swap_def new_swap_v0_def sign_pop_def pop_verify_def
        swap_pop_message_def demo_platform_def)
qed

definition demo_state0 :: amm_state where
  "demo_state0 = \<lparr>ledger = empty_db, paid_in = (\<lambda>_. 0), paid_out = (\<lambda>_. 0)\<rparr>"

definition demo_state1 :: amm_state where
  "demo_state1 = demo_state0\<lparr>ledger := demo_db1,
     paid_in := (\<lambda>u. paid_in demo_state0 u + amount_of [0 \<mapsto> 1000000, 1 \<mapsto> 4000000] u)\<rparr>"

definition demo_state2 :: amm_state where
  "demo_state2 = demo_state1\<lparr>ledger := demo_db2,
     paid_in := (\<lambda>u. paid_in demo_state1 u + amount_of [0 \<mapsto> 10000] u)\<rparr>"

lemma demo_canonical: "output_canonical demo_deposit" "output_canonical demo_swap"
  by (simp_all add: demo_deposit_def demo_swap_def demo_pool_def new_deposit_v0_def new_swap_v0_def
      canonical_def Let_def)

lemma demo_step1: "amm_step demo_platform demo_amm demo_state0 (OutputEvent demo_deposit) demo_state1"
  using on_output [of demo_platform demo_amm demo_state0, OF _ demo_canonical(1)] demo_1
  by (simp add: demo_state1_def demo_state0_def)

lemma demo_step2: "amm_step demo_platform demo_amm demo_state1 (OutputEvent demo_swap) demo_state2"
  using on_output [of demo_platform demo_amm demo_state1, OF _ demo_canonical(2)] demo_2
  by (simp add: demo_state2_def demo_state1_def)

lemma demo_reachable:
  "reachable (amm_start demo_platform demo_amm) (amm_step demo_platform demo_amm) demo_state1"
  "reachable (amm_start demo_platform demo_amm) (amm_step demo_platform demo_amm) demo_state2"
proof -
  have "reachable (amm_start demo_platform demo_amm) (amm_step demo_platform demo_amm) demo_state0"
    by (rule reachable.start) (simp add: amm_start_def demo_env demo_state0_def)
  then show "reachable (amm_start demo_platform demo_amm) (amm_step demo_platform demo_amm) demo_state1"
    using demo_step1 by (rule reachable.step)
  then show "reachable (amm_start demo_platform demo_amm) (amm_step demo_platform demo_amm) demo_state2"
    using demo_step2 by (rule reachable.step)
qed

lemma demo_ledger [simp]: "ledger demo_state1 = demo_db1" "ledger demo_state2 = demo_db2"
  by (simp_all add: demo_state1_def demo_state2_def)

section \<open>Withdrawing\<close>

text \<open>
  A share is always worth at least one unit of one side: the square of the shares is at most the
  product of the reserves, so one reserve is at least as large as the number of shares.
\<close>

lemma burn_pays:
  assumes "pool_ok p" and "0 < unat s" and "unat s \<le> unat (total_shares p)"
  shows "\<exists>b. burn_shares (reserve_lo p) (reserve_hi p) (total_shares p) s = Ok b \<and>
    (0 < unat (burn_da b) \<or> 0 < unat (burn_db b))"
proof -
  let ?S = "unat (total_shares p)"
  have S: "0 < ?S" using pool_okD(5) [OF assms(1)] by simp
  have "?S \<le> unat (reserve_lo p) \<or> ?S \<le> unat (reserve_hi p)"
  proof (rule ccontr)
    assume "\<not> ?thesis"
    then have "unat (reserve_lo p) * unat (reserve_hi p) < ?S * ?S"
      by (intro mult_strict_mono) auto
    then show False using pool_okD(6) [OF assms(1)] by simp
  qed
  moreover have "unat s \<le> r * unat s div ?S" if "?S \<le> r" for r
    using that S by (simp add: less_eq_div_iff_mult_less_eq mult.commute)
  ultimately have pos: "0 < unat (reserve_lo p) * unat s div ?S \<or> 0 < unat (reserve_hi p) * unat s div ?S"
    using assms(2) by (metis less_le_trans)
  then obtain b where b: "burn_shares (reserve_lo p) (reserve_hi p) (total_shares p) s = Ok b"
    using burn_shares_returns [OF assms(2,3)] by blast
  with pos show ?thesis using burn_shares_Ok(3,4) [OF b] by auto
qed

lemma withdraw_returns:
  assumes inv: "db_inv amm db" and law: "amounts_law P" and pool: "map_of (pools db) pid = Some pool"
    and pos: "map_of (lp_positions db) \<lparr>lp_pool = pid, lp_owner = pk\<rparr> = Some pos"
    and s: "unat s \<le> unat (shares pos)"
    and b: "burn_shares (reserve_lo pool) (reserve_hi pool) (total_shares pool) s = Ok b"
    and limits: "m_lo \<le> burn_da b" "m_hi \<le> burn_db b" "burn_da b \<le> x_lo" "burn_db b \<le> x_hi"
  shows "\<exists>db' meta. process_withdraw P db pid pk s m_lo m_hi x_lo x_hi = Ok (db', meta) \<and>
    (\<forall>u. amount_of (amounts (amount meta)) u =
      (if u = lo pid then unat (burn_da b) else 0) + (if u = hi pid then unat (burn_db b) else 0))"
proof -
  have "lo pid \<noteq> hi pid" by (rule canonical_distinct [OF db_inv_pool(1) [OF inv pool]])
  then obtain amts where amts: "Option.bind (Amounts_checked_add_unit P (Amounts_ZERO P) (burn_da b) (lo pid))
      (\<lambda>a. Amounts_checked_add_unit P a (burn_db b) (hi pid)) = Some amts"
    "\<And>u. amount_of amts u = (if u = lo pid then unat (burn_da b) else 0) + (if u = hi pid then unat (burn_db b) else 0)"
    using amounts_two_legs [OF law] by blast
  have "\<not> shares pos < s" using s by (simp add: word_order)
  then have "process_withdraw P db pid pk s m_lo m_hi x_lo x_hi \<noteq> Err e" for e
    using limits by (auto simp: process_withdraw_def Let_def pool pos b amts(1) and_then_eq_Err not_less)
  then obtain r where "process_withdraw P db pid pk s m_lo m_hi x_lo x_hi = Ok r"
    using process_withdraw_no_panic by (cases "process_withdraw P db pid pk s m_lo m_hi x_lo x_hi") auto
  moreover from this obtain db' meta where "r = (db', meta)" "amounts (amount meta) = amts"
    using pool b amts(1) by (cases r) (auto elim!: process_withdraw_Ok)
  ultimately show ?thesis using amts(2) by auto
qed

section \<open>Properties of every reachable state\<close>

text \<open>
  C11. The balance sheet: in every state a guardian can reach, and in every unit, the reserves and
  unclaimed balances the module holds plus everything inputs have released equal everything outputs
  have funded. No history creates or loses a single unit.
\<close>

theorem amm_conserves_funds:
  assumes "reachable (amm_start P amm) (amm_step P amm) s"
  shows "liability (ledger s) u + paid_out s u = paid_in s u"
  using amm_sys.reachable_inv [OF assms] by (simp add: amm_inv_def)

theorem amm_conserves_funds_witness:
  "liability demo_db2 1 + paid_out demo_state2 1 = paid_in demo_state2 1 \<and> liability demo_db2 1 = 4000000"
  using amm_conserves_funds [OF demo_reachable(2), of 1]
  by (simp add: liability_def pool_liability_def balance_liability_def demo_defs)

text \<open>
  C12. Every pool of a reachable state is sound: both reserves are positive and within the cap, the
  shares are exactly the locked thousand plus the sum of the recorded positions, and their square
  is at most the product of the reserves; its id is canonical, so no pair of units has two pools.
\<close>

theorem amm_pools_sound:
  assumes "reachable (amm_start P amm) (amm_step P amm) s"
    and "map_of (pools (ledger s)) pid = Some p"
  shows "canonical pid \<and> 0 < unat (reserve_lo p) \<and> unat (reserve_lo p) \<le> 2 ^ 58 \<and>
    0 < unat (reserve_hi p) \<and> unat (reserve_hi p) \<le> 2 ^ 58 \<and>
    unat (total_shares p) = 1000 + shares_in (lp_positions (ledger s)) pid \<and>
    unat (total_shares p) * unat (total_shares p) \<le> unat (reserve_lo p) * unat (reserve_hi p)"
proof -
  have "db_inv amm (ledger s)" using amm_sys.reachable_inv [OF assms(1)] by (simp add: amm_inv_def)
  from db_inv_pool [OF this assms(2)] show ?thesis unfolding pool_ok_def by blast
qed

theorem amm_pools_sound_witness:
  "map_of (pools demo_db2) demo_pool = Some \<lparr>reserve_lo = 1010000, reserve_hi = 3960514, total_shares = 2000000\<rparr> \<and>
   unat (2000000 :: u64) = 1000 + shares_in (lp_positions demo_db2) demo_pool"
proof -
  have "map_of (pools demo_db2) demo_pool = Some \<lparr>reserve_lo = 1010000, reserve_hi = 3960514, total_shares = 2000000\<rparr>"
    by (simp add: demo_defs)
  with amm_pools_sound [OF demo_reachable(2), of demo_pool] show ?thesis by simp
qed

text \<open>
  C13. What a share is worth never decreases: from any reachable state and over any further history
  of swaps, deposits, withdrawals, claims and votes, a pool stays in existence and the product of
  its reserves over the square of its shares is no lower at the end.
\<close>

theorem share_worth_never_decreases:
  assumes "reachable (amm_start P amm) (amm_step P amm) s"
    and "(\<lambda>s s'. \<exists>l. amm_step P amm s l s')\<^sup>*\<^sup>* s s'"
    and "map_of (pools (ledger s)) pid = Some p"
  shows "\<exists>p'. map_of (pools (ledger s')) pid = Some p' \<and>
    unat (reserve_lo p) * unat (reserve_hi p) * (unat (total_shares p') * unat (total_shares p')) \<le>
    unat (reserve_lo p') * unat (reserve_hi p') * (unat (total_shares p) * unat (total_shares p))"
proof -
  have "reachable (amm_start P amm) (amm_step P amm) s' \<and>
      (\<exists>p'. map_of (pools (ledger s')) pid = Some p' \<and> share_worth_le p p')"
    using assms(2)
  proof (induction rule: rtranclp_induct)
    case base
    with assms(1,3) show ?case by simp
  next
    case (step y z)
    then obtain l q where l: "amm_step P amm y l z" and reach: "reachable (amm_start P amm) (amm_step P amm) y"
      and q: "map_of (pools (ledger y)) pid = Some q" "share_worth_le p q" by blast
    have inv: "db_inv amm (ledger y)" using amm_sys.reachable_inv [OF reach] by (simp add: amm_inv_def)
    obtain r where r: "map_of (pools (ledger z)) pid = Some r" "share_worth_le q r"
      using step_share_worth [OF l inv q(1)] by blast
    have "0 < unat (total_shares q)" using pool_okD(5) [OF db_inv_pool(2) [OF inv q(1)]] by simp
    then show ?case using reachable.step [OF reach l] r share_worth_trans [OF q(2) r(2)] by blast
  qed
  then show ?thesis by (auto simp: share_worth_le_def)
qed

theorem share_worth_never_decreases_witness:
  "\<exists>p'. map_of (pools demo_db2) demo_pool = Some p' \<and>
    1000000 * 4000000 * (unat (total_shares p') * unat (total_shares p')) \<le>
    unat (reserve_lo p') * unat (reserve_hi p') * (2000000 * 2000000)"
proof -
  have "(\<lambda>s s'. \<exists>l. amm_step demo_platform demo_amm s l s')\<^sup>*\<^sup>* demo_state1 demo_state2"
    using demo_step2 by blast
  moreover have "map_of (pools (ledger demo_state1)) demo_pool =
      Some \<lparr>reserve_lo = 1000000, reserve_hi = 4000000, total_shares = 2000000\<rparr>"
    by (simp add: demo_defs)
  ultimately show ?thesis
    using share_worth_never_decreases [OF demo_reachable(1)] by fastforce
qed

text \<open>
  C14. A guardian never panics: in every reachable state, processing any output, input or consensus
  item returns, and the audit that runs after every item returns one negative entry per reserve and
  balance. No arithmetic overflows, no subtraction underflows and no \<open>expect\<close> fails.
\<close>

theorem amm_never_panics:
  assumes "reachable (amm_start P amm) (amm_step P amm) s"
  shows "process_output P amm (ledger s) out \<noteq> Panic \<and> process_input P (ledger s) i \<noteq> Panic \<and>
    process_consensus_item amm (ledger s) c peer \<noteq> Panic \<and>
    audit (ledger s) = Ok (map (\<lambda>(_, p). - int (unat (reserve_lo p))) (pools (ledger s)) @
      map (\<lambda>(_, p). - int (unat (reserve_hi p))) (pools (ledger s)) @
      map (\<lambda>(_, b). - int (unat (b_amount b))) (balances (ledger s)))"
proof -
  have "env_ok P amm" "db_inv amm (ledger s)"
    using amm_sys.reachable_inv [OF assms] by (simp_all add: amm_inv_def)
  then show ?thesis
    using process_output_no_panic process_input_no_panic item_no_panic audit_eq by blast
qed

theorem amm_never_panics_witness:
  "audit demo_db2 = Ok [- 1010000, - 3960514, - 39486]"
proof -
  have "audit (ledger demo_state2) =
      Ok (map (\<lambda>(_, p). - int (unat (reserve_lo p))) (pools (ledger demo_state2)) @
      map (\<lambda>(_, p). - int (unat (reserve_hi p))) (pools (ledger demo_state2)) @
      map (\<lambda>(_, b). - int (unat (b_amount b))) (balances (ledger demo_state2)))"
    using amm_never_panics [OF demo_reachable(2)] by blast
  then show ?thesis by (simp add: demo_defs)
qed

text \<open>
  C17. Liquidity is never locked: in every reachable state the holder of a position can burn any
  positive number of its shares, the withdrawal is accepted, and it pays out at least one unit.
\<close>

theorem lp_position_withdrawable:
  assumes "reachable (amm_start P amm) (amm_step P amm) s"
    and "map_of (lp_positions (ledger s)) \<lparr>lp_pool = pid, lp_owner = pk\<rparr> = Some pos"
    and "0 < unat n" and "unat n \<le> unat (shares pos)"
  shows "\<exists>db' meta. process_input P (ledger s) (WithdrawV0 pid pk n 0 0 (- 1) (- 1)) = Ok (db', meta) \<and>
    pub_key meta = pk \<and> 0 < amount_of (amounts (amount meta)) (lo pid) + amount_of (amounts (amount meta)) (hi pid)"
proof -
  have inv: "db_inv amm (ledger s)" and law: "amounts_law P"
    using amm_sys.reachable_inv [OF assms(1)] by (simp_all add: amm_inv_def env_ok_def)
  obtain p where p: "map_of (pools (ledger s)) pid = Some p"
    using db_inv_position(2) [OF inv assms(2)] by auto
  have "unat n \<le> unat (total_shares p)"
    using db_inv_pool(3) [OF inv p] shares_in_ge [OF db_inv_wf(2) [OF inv] assms(2)] assms(4) by simp
  then obtain b where b: "burn_shares (reserve_lo p) (reserve_hi p) (total_shares p) n = Ok b"
    "0 < unat (burn_da b) \<or> 0 < unat (burn_db b)"
    using burn_pays [OF db_inv_pool(2) [OF inv p] assms(3)] by blast
  have max: "w \<le> - 1" for w :: u64 by simp
  obtain db' meta where w: "process_withdraw P (ledger s) pid pk n 0 0 (- 1) (- 1) = Ok (db', meta)"
    "\<forall>u. amount_of (amounts (amount meta)) u =
      (if u = lo pid then unat (burn_da b) else 0) + (if u = hi pid then unat (burn_db b) else 0)"
    using withdraw_returns [OF inv law p assms(2,4) b(1), of 0 0 "- 1" "- 1"] max by auto
  moreover have "pub_key meta = pk" using w(1) by (auto elim!: process_withdraw_Ok)
  ultimately show ?thesis using b(2) by auto
qed

theorem lp_position_withdrawable_witness:
  "\<exists>db' meta. process_input demo_platform demo_db2 (WithdrawV0 demo_pool [1] 1 0 0 (- 1) (- 1)) = Ok (db', meta)"
proof -
  have "map_of (lp_positions (ledger demo_state2)) \<lparr>lp_pool = demo_pool, lp_owner = [1]\<rparr> =
      Some \<lparr>shares = 1999000, lp_tweak = [7]\<rparr>" by (simp add: demo_defs)
  from lp_position_withdrawable [OF demo_reachable(2) this, of 1] show ?thesis by auto
qed

section \<open>Properties of the handlers\<close>

definition position_of :: "amm_db \<Rightarrow> PoolId \<Rightarrow> PublicKey \<Rightarrow> nat" where
  "position_of db pid pk = (case map_of (lp_positions db) \<lparr>lp_pool = pid, lp_owner = pk\<rparr> of
     None \<Rightarrow> 0 | Some p \<Rightarrow> unat (shares p))"

lemma burn_le_deposit:
  fixes r d S m s :: nat
  assumes "m * r \<le> d * S" and "s \<le> m"
  shows "(r + d) * s div (S + m) \<le> d"
proof (rule div_le_of_le_mult)
  have "s * r \<le> m * r" "d * s \<le> d * m" using assms(2) by (rule mult_le_mono1, rule mult_le_mono2)
  then show "(r + d) * s \<le> d * (S + m)"
    using assms(1) by (simp only: add_mult_distrib add_mult_distrib2 mult.commute [of r s])
qed

text \<open>
  C18. Depositing and withdrawing again never profits: if a deposit is accepted and at most the
  shares it minted are then burned, the withdrawal returns in each unit at most what was deposited,
  whether the deposit created the pool or joined one.
\<close>

theorem deposit_then_withdraw_no_profit:
  assumes inv: "reachable (amm_start P amm) (amm_step P amm) st" and db: "db = ledger st"
    and can: "canonical pid"
    and dep: "process_deposit P amm db pid a_lo a_hi m pk tw = Ok (db1, t)"
    and wd: "process_withdraw P db1 pid pk s m_lo m_hi x_lo x_hi = Ok (db2, meta)"
    and s: "position_of db pid pk + unat s \<le> position_of db1 pid pk"
  shows "amount_of (amounts (amount meta)) u \<le> amount_of (amounts t) u"
proof -
  have inv: "db_inv amm db" and law: "amounts_law P"
    using amm_sys.reachable_inv [OF inv] by (simp_all add: amm_inv_def env_ok_def db)
  note ne = canonical_distinct [OF can]
  from dep obtain pool mo new_lo new_hi amts where
    pool: "pool = (case map_of (pools db) pid of Some p \<Rightarrow> p
       | None \<Rightarrow> \<lparr>reserve_lo = 0, reserve_hi = 0, total_shares = 0\<rparr>)"
    and mint: "mint_shares (reserve_lo pool) (reserve_hi pool) (total_shares pool) a_lo a_hi = Ok mo"
    and r: "unat new_lo = unat (reserve_lo pool) + unat a_lo" "unat new_hi = unat (reserve_hi pool) + unat a_hi"
    and amts: "Option.bind (Amounts_checked_add_unit P (Amounts_ZERO P) a_lo (lo pid))
           (\<lambda>a. Amounts_checked_add_unit P a a_hi (hi pid)) = Some amts" "amounts t = amts"
    and p1: "map_of (pools db1) pid = Some \<lparr>reserve_lo = new_lo, reserve_hi = new_hi, total_shares = minted_total mo\<rparr>"
    and owned: "position_of db1 pid pk = position_of db pid pk + unat (to_owner mo)"
    by (rule process_deposit_Ok) (auto simp: tbl.get_insert position_of_def split: option.splits)
  from wd obtain b amts' where
    burn: "burn_shares new_lo new_hi (minted_total mo) s = Ok b"
    and amts': "Option.bind (Amounts_checked_add_unit P (Amounts_ZERO P) (burn_da b) (lo pid))
             (\<lambda>a. Amounts_checked_add_unit P a (burn_db b) (hi pid)) = Some amts'"
      "amounts (amount meta) = amts'"
    by (rule process_withdraw_Ok) (auto simp: p1)
  define base where "base = (if map_of (pools db) pid = None then 1000 else unat (total_shares pool))"
  have total: "unat (minted_total mo) = base + unat (to_owner mo)"
    using deposit_pool_ok(2) [OF pool inv mint r] by (simp add: base_def)
  have "unat (to_owner mo) * unat (reserve_lo pool) \<le> unat a_lo * base \<and>
      unat (to_owner mo) * unat (reserve_hi pool) \<le> unat a_hi * base"
  proof (cases "map_of (pools db) pid")
    case None
    then show ?thesis by (simp add: pool)
  next
    case (Some p)
    then have "pool = p" "total_shares p \<noteq> 0"
      using pool pool_okD(5) [OF db_inv_pool(2) [OF inv Some]] by auto
    then show ?thesis using mint_shares_pro_rata [OF mint] Some by (simp add: base_def)
  qed
  then have "unat (burn_da b) \<le> unat a_lo" "unat (burn_db b) \<le> unat a_hi"
    using burn_shares_Ok(3,4) [OF burn] burn_le_deposit s owned by (simp_all add: total r)
  moreover have "amount_of amts u = (if u = lo pid then unat a_lo else 0) + (if u = hi pid then unat a_hi else 0)"
    by (rule amounts_two_legs [OF law ne, of a_lo a_hi]) (use amts in simp)
  moreover have "amount_of amts' u =
      (if u = lo pid then unat (burn_da b) else 0) + (if u = hi pid then unat (burn_db b) else 0)"
    by (rule amounts_two_legs [OF law ne, of "burn_da b" "burn_db b"]) (use amts' in simp)
  ultimately show ?thesis using amts(2) amts'(2) by simp
qed

lemma demo_deposit_run: "process_deposit demo_platform demo_amm empty_db demo_pool 1000000 4000000 1 [1] [7] =
  Ok (demo_db1, \<lparr>amounts = [0 \<mapsto> 1000000, 1 \<mapsto> 4000000], fees = Map.empty\<rparr>)"
  by (simp add: demo_defs process_deposit_def contains_key_def eval_ops demo_mint)

definition demo_db3 :: amm_db where
  "demo_db3 = demo_db1\<lparr>
     pools := [(demo_pool, \<lparr>reserve_lo = 500, reserve_hi = 2000, total_shares = 1000\<rparr>)], lp_positions := []\<rparr>"

lemma demo_withdraw_run: "process_withdraw demo_platform demo_db1 demo_pool [1] 1999000 0 0 (- 1) (- 1) =
  Ok (demo_db3, \<lparr>amount = \<lparr>amounts = [0 \<mapsto> 999500, 1 \<mapsto> 3998000], fees = Map.empty\<rparr>, pub_key = [1]\<rparr>)"
  by (simp add: demo_defs demo_db3_def process_withdraw_def burn_shares_def eval_ops)

theorem deposit_then_withdraw_no_profit_witness:
  "amount_of [0 \<mapsto> 999500, 1 \<mapsto> 3998000] 0 \<le> amount_of [0 \<mapsto> 1000000, 1 \<mapsto> 4000000] 0"
proof -
  have "reachable (amm_start demo_platform demo_amm) (amm_step demo_platform demo_amm) demo_state0"
    by (rule reachable.start) (simp add: amm_start_def demo_env demo_state0_def)
  moreover have "empty_db = ledger demo_state0" by (simp add: demo_state0_def)
  moreover have "canonical demo_pool" by (simp add: demo_pool_def canonical_def)
  moreover have "position_of empty_db demo_pool [1] + unat (1999000 :: u64) \<le> position_of demo_db1 demo_pool [1]"
    by (simp add: position_of_def demo_defs)
  ultimately show ?thesis
    using deposit_then_withdraw_no_profit [OF _ _ _ demo_deposit_run demo_withdraw_run, of demo_state0 0] by simp
qed

lemma quote_settles:
  assumes "quote_endpoint P amm db ui uo a = Ok r"
    and "balance_of db pk uo + unat (q_amount_out r) \<le> 2 ^ 58"
  shows "if m \<le> q_amount_out r
    then \<exists>db' t. process_swap P amm db ui uo a m pk tw = Ok (db', t) \<and>
      balance_of db' pk uo = balance_of db pk uo + unat (q_amount_out r) \<and>
      amounts t = Amounts_new_custom P ui a
    else process_swap P amm db ui uo a m pk tw = Err AmmOutputError.SlippageExceeded"
proof -
  from assms(1) obtain pid pool q where pid: "PoolId_new ui uo = Some pid"
    and pool: "map_of (pools db) pid = Some pool"
    and q: "quote_swap P amm db pool pid ui a None = Ok q" "q_amount_out r = dy q"
    by (auto simp: quote_endpoint_def and_then_eq_Ok)
  have fits: "unat (of_nat (balance_of db pk uo + unat (dy q)) :: u64) = balance_of db pk uo + unat (dy q)"
    using assms(2) by (simp add: q(2) unat_of_nat del: of_nat_add)
  show ?thesis
  proof (cases "m \<le> q_amount_out r")
    case True
    then have "quote_swap P amm db pool pid ui a (Some m) = Ok q" using q by (simp add: quote_swap_min_out)
    from process_swap_quoted [OF pid pool this, of pk tw] assms(2) True
    show ?thesis
      using fits by (auto simp: q(2) balance_of_def [of "_\<lparr>pools := _, balances := _\<rparr>"] tbl.get_insert)
  next
    case False
    then have "quote_swap P amm db pool pid ui a (Some m) = Err AmmOutputError.SlippageExceeded"
      using q(1) unfolding q(2)
      by (auto simp: quote_swap_def Let_def and_then_eq_Ok split: if_splits)
    with False show ?thesis by (simp add: process_swap_def pid pool)
  qed
qed

text \<open>
  C15. A quote is what settlement pays: if the quote endpoint answers \<open>y\<close> and the recipient's balance
  has room for it, a swap of the same amount in the same state with any \<open>min_out\<close> up to \<open>y\<close> is
  accepted and credits exactly \<open>y\<close>, and one that demands more is refused for slippage.
\<close>

theorem quote_is_settlement:
  assumes "quote_endpoint P amm db ui uo a = Ok r"
    and "balance_of db pk uo + unat (q_amount_out r) \<le> 2 ^ 58"
  shows "if m \<le> q_amount_out r
    then \<exists>db' t. process_swap P amm db ui uo a m pk tw = Ok (db', t) \<and>
      balance_of db' pk uo = balance_of db pk uo + unat (q_amount_out r) \<and>
      amounts t = Amounts_new_custom P ui a
    else process_swap P amm db ui uo a m pk tw = Err AmmOutputError.SlippageExceeded"
  by (rule quote_settles [OF assms])

theorem quote_is_settlement_witness:
  "quote_endpoint demo_platform demo_amm demo_db1 0 1 10000 = Ok \<lparr>q_amount_out = 39486, q_price_impact_per_mille = 13\<rparr> \<and>
   (\<exists>db' t. process_swap demo_platform demo_amm demo_db1 0 1 10000 39486 [2] [9] = Ok (db', t)) \<and>
   process_swap demo_platform demo_amm demo_db1 0 1 10000 39487 [2] [9] = Err AmmOutputError.SlippageExceeded"
proof -
  have q: "quote_endpoint demo_platform demo_amm demo_db1 0 1 10000 =
      Ok \<lparr>q_amount_out = 39486, q_price_impact_per_mille = 13\<rparr>"
    using demo_quote [of None]
    by (simp add: quote_endpoint_def PoolId_new_def demo_pool_def demo_db1_def price_impact_per_mille_def
        eval_ops Let_def)
  have "balance_of demo_db1 [2] 1 = 0" by (simp add: balance_of_def demo_defs)
  with q quote_is_settlement [OF q, of "[2]" 39486 "[9]"] quote_is_settlement [OF q, of "[2]" 39487 "[9]"]
  show ?thesis by auto
qed

text \<open>
  C16. A balance is claimed exactly once and in full: a claim releases the whole recorded amount of
  that unit, removes the record, makes every further claim for the key fail with
  \<open>NoSuchBalance\<close>, and leaves every other balance, position, pool and vote as it was.
\<close>

theorem claim_pays_exactly_once:
  assumes "reachable (amm_start P amm) (amm_step P amm) s"
    and "process_input P (ledger s) (ClaimBalanceV0 pk u) = Ok (db', meta)"
  shows "(\<exists>a. balance_endpoint (ledger s) pk u = Some a \<and>
      amounts (amount meta) = Amounts_new_custom P u a) \<and> pub_key meta = pk \<and>
    balance_endpoint db' pk u = None \<and>
    process_input P db' (ClaimBalanceV0 pk u) = Err NoSuchBalance \<and>
    (\<forall>pk' u'. (pk', u') \<noteq> (pk, u) \<longrightarrow> balance_endpoint db' pk' u' = balance_endpoint (ledger s) pk' u') \<and>
    db'\<lparr>balances := balances (ledger s)\<rparr> = ledger s"
proof -
  have "wf_table (balances (ledger s))"
    using amm_sys.reachable_inv [OF assms(1)] db_inv_wf(3) by (auto simp: amm_inv_def)
  note get = tbl.get_remove [OF this]
  from assms(2) have "process_claim P (ledger s) pk u = Ok (db', meta)" by simp
  then show ?thesis
    by (rule process_claim_Ok) (auto simp: balance_endpoint_def process_claim_def get)
qed

theorem claim_pays_exactly_once_witness:
  "\<exists>db' meta. process_input demo_platform demo_db2 (ClaimBalanceV0 [2] 1) = Ok (db', meta) \<and>
     process_input demo_platform db' (ClaimBalanceV0 [2] 1) = Err NoSuchBalance"
proof -
  obtain db' meta where c: "process_input demo_platform (ledger demo_state2) (ClaimBalanceV0 [2] 1) = Ok (db', meta)"
    by (simp add: process_claim_def demo_db2_def)
  from claim_pays_exactly_once [OF demo_reachable(2) c] c show ?thesis by auto
qed

text \<open>
  C19. Nothing is written at a key whose owner did not sign: an accepted output carries a Schnorr
  signature, by the key it names, over all of its fields including that key and the tweak; an
  unknown variant is never accepted.
\<close>

theorem accepted_output_proves_possession:
  assumes "process_output P amm db out = Ok r"
  shows "case out of
      SwapV0 ui uo a m pk tw pop \<Rightarrow> verify_schnorr P pop
        (swap_payload_sha256 P \<lparr>sp_domain = 0, sp_unit_in = ui, sp_unit_out = uo, sp_amount_in = a,
          sp_min_out = m, sp_recipient_pk = pk, sp_tweak = tw\<rparr>) (x_only_public_key P pk)
    | DepositV0 pid a_lo a_hi m pk tw pop \<Rightarrow> verify_schnorr P pop
        (deposit_payload_sha256 P \<lparr>dp_domain = 1, dp_pool = pid, dp_amount_lo = a_lo, dp_amount_hi = a_hi,
          dp_min_shares = m, dp_owner_pk = pk, dp_tweak = tw\<rparr>) (x_only_public_key P pk)
    | OutputDefault v bytes \<Rightarrow> False"
  using assms by (cases out)
    (simp_all add: process_output_def pop_verify_def swap_pop_message_def deposit_pop_message_def
      DOMAIN_SWAP_def DOMAIN_DEPOSIT_def split: if_splits)

theorem accepted_output_proves_possession_witness:
  "\<exists>r. process_output demo_platform demo_amm demo_db1 demo_swap = Ok r \<and>
     demo_swap = SwapV0 0 1 10000 1 [2] [9] [2, 0, 9] \<and> verify_schnorr demo_platform [2, 0, 9] [0, 9] [2]"
proof -
  have d: "demo_swap = SwapV0 0 1 10000 1 [2] [9] [2, 0, 9]"
    by (simp add: demo_swap_def new_swap_v0_def demo_platform_def sign_pop_def swap_pop_message_def DOMAIN_SWAP_def)
  from accepted_output_proves_possession [OF demo_2] show ?thesis
    using demo_2 by (simp add: d) (simp add: demo_platform_def)
qed

text \<open>
  An honest client's output is never refused for its proof of possession: with correct Schnorr
  signatures, the outputs built by \<open>new_swap_v0\<close> and \<open>new_deposit_v0\<close> go straight to settlement.
\<close>

theorem honest_output_reaches_settlement:
  assumes "schnorr_correct P"
  shows "process_output P amm db (new_swap_v0 P kp ui uo a m tw) =
      process_swap P amm db ui uo a m (public_key P kp) tw \<and>
    process_output P amm db (new_deposit_v0 P kp pid a_lo a_hi n tw) =
      process_deposit P amm db pid a_lo a_hi n (public_key P kp) tw"
  using assms
  by (simp add: process_output_def new_swap_v0_def new_deposit_v0_def Let_def pop_verify_def sign_pop_def
      schnorr_correct_def)

theorem honest_output_reaches_settlement_witness:
  "process_output demo_platform demo_amm demo_db1 demo_swap =
     process_swap demo_platform demo_amm demo_db1 0 1 10000 1 [2] [9]"
proof -
  have "schnorr_correct demo_platform" by (simp add: schnorr_correct_def demo_platform_def)
  from honest_output_reaches_settlement [OF this, of demo_amm demo_db1 "[2]" 0 1 10000 1 "[9]"]
  show ?thesis by (simp add: demo_swap_def) (simp add: demo_platform_def)
qed

lemma consensus_fee_for_no_error: "consensus_fee_for P amm db pid \<noteq> Err e"
  by (simp add: consensus_fee_for_def Let_def clamp_fee_to_band_def clamp_def)

lemma map_curve_error_not_k: "map_curve_error e \<noteq> KInvariantViolated"
  by (cases e) simp_all

text \<open>
  C20. The constant-product backstop is never what refuses a swap: on any database whatsoever,
  \<open>process_output\<close> does not return \<open>KInvariantViolated\<close>.
\<close>

theorem k_backstop_unreachable: "process_output P amm db out \<noteq> Err KInvariantViolated"
proof (cases out)
  case (SwapV0 ui uo a m pk tw pop)
  have quote: "quote_swap P amm db pool pid ui a (Some m) \<noteq> Err KInvariantViolated" for pool pid
    by (auto simp: quote_swap_def Let_def and_then_eq_Err map_err_eq_Err consensus_fee_for_no_error
        map_curve_error_not_k split: if_splits)
  have "process_swap P amm db ui uo a m pk tw \<noteq> Err KInvariantViolated"
  proof (cases "\<exists>pid pool q. PoolId_new ui uo = Some pid \<and> map_of (pools db) pid = Some pool \<and>
      quote_swap P amm db pool pid ui a (Some m) = Ok q")
    case True
    then obtain pid pool q where "PoolId_new ui uo = Some pid" "map_of (pools db) pid = Some pool"
      "quote_swap P amm db pool pid ui a (Some m) = Ok q" by blast
    from process_swap_quoted [OF this, of pk tw] show ?thesis by (auto split: if_splits)
  next
    case False
    then show ?thesis using quote by (auto simp: process_swap_def and_then_eq_Err)
  qed
  with SwapV0 show ?thesis by (simp add: process_output_def)
next
  case (DepositV0 pid a_lo a_hi m pk tw pop)
  have "process_deposit P amm db pid a_lo a_hi m pk tw \<noteq> Err KInvariantViolated"
    by (auto simp: process_deposit_def Let_def and_then_eq_Err map_err_eq_Err map_curve_error_not_k
        split: if_splits)
  with DepositV0 show ?thesis by (simp add: process_output_def)
qed (simp add: process_output_def)

lemma price_impact_returns:
  assumes "unat r_in \<le> 2 ^ 58" and "unat y \<le> 2 ^ 58"
  shows "\<exists>i. price_impact_per_mille r_in r_out a y = (Ok i :: (u64, 'e) result) \<and> unat i \<le> 1000"
proof -
  obtain d where d: "mul_p (ucast a :: u128) (ucast r_out) = (Ok d :: (u128, 'e) result)"
    by (rule u64_mult_returns)
  have "unat (1000 :: u128) * unat y < 2 ^ LENGTH(128)" using assms(2) by simp
  then obtain x where x: "mul_p (1000 :: u128) (ucast y) = (Ok x :: (u128, 'e) result)"
    "unat x = 1000 * unat y"
    using op_p_returns(3) [of "1000 :: u128" "ucast y", where 'e = 'e] by auto
  have "1000 * unat y * unat r_in < 2 ^ 128"
    by (rule mult_bound [of _ "1000 * 2 ^ 58" _ "2 ^ 58"]) (use assms in simp_all)
  then obtain n where n: "mul_p x (ucast r_in) = (Ok n :: (u128, 'e) result)"
    using op_p_returns(3) [of x "ucast r_in", where 'e = 'e] x(2) by auto
  show ?thesis
  proof (cases "d = 0")
    case False
    then obtain r where r: "div_p n d = (Ok r :: (u128, 'e) result)"
      using op_p_returns(4) [of d n, where 'e = 'e] by (auto simp: word_eq_0)
    show ?thesis using False by (simp add: price_impact_per_mille_def d x(1) n r Let_def)
  qed (simp add: price_impact_per_mille_def d)
qed

lemma pool_summaries_no_panic:
  assumes "env_ok P amm"
  shows "pool_summaries P amm db ps \<noteq> Panic"
proof (induction ps)
  case (Cons row ps)
  obtain fee where "consensus_fee_for P amm db (fst row) = (Ok fee :: (u16, ApiError) result)"
    using consensus_fee_for_valid assms unfolding env_ok_def by blast
  with Cons show ?case by (cases row) (auto simp: and_then_eq_Panic)
qed simp

text \<open>
  The public endpoints never panic: with a validated configuration, listing the pools, quoting
  a swap and reporting the votes return a value or an error on every database, and a quoted price
  impact is at most a thousand per mille.
\<close>

theorem endpoints_never_panic:
  assumes "env_ok P amm"
  shows "pools_endpoint P amm db \<noteq> Panic \<and> fee_votes_endpoint P amm db pid \<noteq> Panic \<and>
    quote_endpoint P amm db ui uo a \<noteq> Panic \<and>
    (\<forall>r. quote_endpoint P amm db ui uo a = Ok r \<longrightarrow> unat (q_price_impact_per_mille r) \<le> 1000)"
proof -
  have impact: "\<exists>i. price_impact_per_mille (reserve_in q) (reserve_out q) a (dy q) =
      (Ok i :: (u64, ApiError) result) \<and> unat i \<le> 1000"
    if "quote_swap P amm db pool pid ui a None = Ok q" for pool pid q
  proof -
    from that obtain fee :: u16 where "amount_out (reserve_in q) (reserve_out q) a fee = Ok (dy q)"
      by (rule quote_swap_Ok)
    then have "unat (reserve_in q) \<le> 2 ^ 58" "unat (reserve_out q) \<le> 2 ^ 58"
      by (auto simp: amount_out_Ok)
    with swap_reserves(3) [OF that] show ?thesis by (intro price_impact_returns) simp_all
  qed
  obtain fee where fee: "consensus_fee_for P amm db pid = (Ok fee :: (u16, ApiError) result)"
    using consensus_fee_for_valid assms unfolding env_ok_def by blast
  have "quote_endpoint P amm db ui uo a \<noteq> Panic"
    using impact by (fastforce simp: quote_endpoint_def and_then_eq_Panic quote_swap_no_panic [OF assms])
  moreover have "\<forall>r. quote_endpoint P amm db ui uo a = Ok r \<longrightarrow> unat (q_price_impact_per_mille r) \<le> 1000"
    using impact by (fastforce simp: quote_endpoint_def and_then_eq_Ok)
  ultimately show ?thesis
    using pool_summaries_no_panic [OF assms] by (simp add: pools_endpoint_def fee_votes_endpoint_def fee)
qed

theorem endpoints_never_panic_witness: "pools_endpoint demo_platform demo_amm demo_db2 \<noteq> Panic"
  using endpoints_never_panic [OF demo_env] by blast

end
