(* ===== verification/Amm_Fees.thy ===== *)
theory Amm_Fees
  imports Amm_Safety
begin

text \<open>
  The fee vote: what the threshold-index aggregation of \<open>consensus_fee_for\<close> guarantees, how a
  guardian's intent reaches consensus, and the encodings and configuration the votes travel with.
\<close>

section \<open>Order statistics\<close>

lemma length_filter_mono:
  assumes "\<And>x. x \<in> set xs \<Longrightarrow> Q x \<Longrightarrow> R x"
  shows "length (filter Q xs) \<le> length (filter R xs)"
  using assms by (induction xs) auto

lemma sorted_count_le:
  assumes "sorted xs" and "i < length xs"
  shows "i < length (filter (\<lambda>x. x \<le> xs ! i) xs)"
proof -
  have "filter (\<lambda>x. x \<le> xs ! i) (take (Suc i) xs) = take (Suc i) xs"
    using assms by (auto simp: in_set_conv_nth sorted_nth_mono intro!: filter_True)
  then have "Suc i = length (filter (\<lambda>x. x \<le> xs ! i) (take (Suc i) xs))" using assms(2) by simp
  also have "\<dots> \<le> length (filter (\<lambda>x. x \<le> xs ! i) (take (Suc i) xs @ drop (Suc i) xs))"
    by (simp only: filter_append length_append)
  finally show ?thesis by simp
qed

lemma sorted_count_ge:
  assumes "sorted xs" and "i < length xs"
  shows "length xs - i \<le> length (filter (\<lambda>x. xs ! i \<le> x) xs)"
proof -
  have "filter (\<lambda>x. xs ! i \<le> x) (drop i xs) = drop i xs"
    using assms by (auto simp: in_set_conv_nth sorted_nth_mono intro!: filter_True)
  then have "length xs - i = length (filter (\<lambda>x. xs ! i \<le> x) (drop i xs))" by simp
  also have "\<dots> \<le> length (filter (\<lambda>x. xs ! i \<le> x) (take i xs @ drop i xs))"
    by (simp only: filter_append length_append)
  finally show ?thesis by simp
qed

lemma sort_count: "length (filter Q (sort (map snd vs))) = length (filter (\<lambda>(p, x). Q x) vs)"
  by (simp add: filter_sort filter_map comp_def case_prod_unfold)

text \<open>
  The value at index \<open>t - 1\<close> of the sorted votes: among the \<open>t\<close> votes up to it, and among those from
  it on, there is an honest one once fewer than \<open>t\<close> voters are faulty and \<open>t\<close> honest ones voted.
\<close>

lemma threshold_index_honest:
  fixes vs :: "('p \<times> 'v::linorder) list" and honest :: "'p \<Rightarrow> bool"
  assumes "0 < t" and few: "length (filter (\<lambda>(p, _). \<not> honest p) vs) < t"
    and "t \<le> length (filter (\<lambda>(p, _). honest p) vs)"
  shows "\<exists>(p, x)\<in>set vs. honest p \<and> x \<le> sort (map snd vs) ! (t - 1)"
    and "\<exists>(p, x)\<in>set vs. honest p \<and> sort (map snd vs) ! (t - 1) \<le> x"
proof -
  let ?L = "sort (map snd vs)"
  have split: "length vs = length (filter (\<lambda>(p, _). honest p) vs) + length (filter (\<lambda>(p, _). \<not> honest p) vs)"
    using sum_length_filter_compl [of "\<lambda>(p, _). honest p" vs] by (simp add: case_prod_unfold)
  have i: "t - 1 < length ?L" using assms split by simp
  have le: "t \<le> length (filter (\<lambda>(p, x). x \<le> ?L ! (t - 1)) vs)"
    using sorted_count_le [OF _ i] assms(1) sort_count [of "\<lambda>x. x \<le> ?L ! (t - 1)" vs] by simp
  have ge: "length vs - (t - 1) \<le> length (filter (\<lambda>(p, x). ?L ! (t - 1) \<le> x) vs)"
    using sorted_count_ge [OF _ i] sort_count [of "\<lambda>x. ?L ! (t - 1) \<le> x" vs] by simp
  show "\<exists>(p, x)\<in>set vs. honest p \<and> x \<le> ?L ! (t - 1)"
  proof (rule ccontr)
    assume "\<not> ?thesis"
    then have "length (filter (\<lambda>(p, x). x \<le> ?L ! (t - 1)) vs) \<le> length (filter (\<lambda>(p, _). \<not> honest p) vs)"
      by (intro length_filter_mono) auto
    with le few show False by simp
  qed
  show "\<exists>(p, x)\<in>set vs. honest p \<and> ?L ! (t - 1) \<le> x"
  proof (rule ccontr)
    assume "\<not> ?thesis"
    then have "length (filter (\<lambda>(p, x). ?L ! (t - 1) \<le> x) vs) \<le> length (filter (\<lambda>(p, _). \<not> honest p) vs)"
      by (intro length_filter_mono) auto
    with ge split assms(1,3) show False by simp
  qed
qed

section \<open>The effective fee\<close>

text \<open>
  The fee is always defined, inside the configured band and below a thousand per mille; with
  fewer votes than the threshold it is the configured fee clamped into the band, and otherwise the
  vote at index threshold minus one of the sorted votes, clamped.
\<close>

theorem fee_always_in_band:
  assumes "env_ok P amm"
  shows "\<exists>fee. consensus_fee_for P amm db pid = (Ok fee :: (u16, ApiError) result) \<and>
    fee_in_band (cfg amm) fee \<and> unat fee < 1000 \<and>
    clamp_fee_to_band (cfg amm)
      (if length (fee_votes_of db pid) < NumPeers_threshold P (num_peers amm) then config_fee_for (cfg amm) pid
       else sort (map snd (fee_votes_of db pid)) ! (NumPeers_threshold P (num_peers amm) - 1)) =
      (Ok fee :: (u16, ApiError) result)"
proof -
  have t: "0 < NumPeers_threshold P (num_peers amm)" and v: "validate (cfg amm) = Ok ()"
    using assms by (simp_all add: env_ok_def)
  obtain fee where fee: "consensus_fee_for P amm db pid = (Ok fee :: (u16, ApiError) result)"
    "fee_in_band (cfg amm) fee" "unat fee < 1000"
    using consensus_fee_for_valid [OF v t] by blast
  moreover have "(NumPeers_threshold P (num_peers amm) - 1 < length (fee_votes_of db pid)) =
      (\<not> length (fee_votes_of db pid) < NumPeers_threshold P (num_peers amm))"
    using t by linarith
  ultimately show ?thesis
    using fee(1) t by (auto simp: consensus_fee_for_def Let_def get_nth_def)
qed

theorem fee_always_in_band_witness:
  "\<exists>fee. consensus_fee_for demo_platform demo_amm demo_db1 demo_pool = (Ok fee :: (u16, ApiError) result) \<and>
     unat fee < 1000"
  using fee_always_in_band [OF demo_env] by blast

text \<open>
  C21. Faulty guardians cannot move the fee outside the honest votes: in every reachable state, when
  fewer than a threshold of the recorded voters are faulty and a threshold of honest guardians have
  voted, the effective fee lies between two honest votes.
\<close>

theorem fee_between_honest_votes:
  assumes "reachable (amm_start P amm) (amm_step P amm) s"
    and "length (filter (\<lambda>(p, _). \<not> honest p) (fee_votes_of (ledger s) pid)) < NumPeers_threshold P (num_peers amm)"
    and "NumPeers_threshold P (num_peers amm) \<le> length (filter (\<lambda>(p, _). honest p) (fee_votes_of (ledger s) pid))"
  shows "\<exists>fee low high p q. consensus_fee_for P amm (ledger s) pid = (Ok fee :: (u16, ApiError) result) \<and>
    honest p \<and> (p, low) \<in> set (fee_votes_of (ledger s) pid) \<and> low \<le> fee \<and>
    honest q \<and> (q, high) \<in> set (fee_votes_of (ledger s) pid) \<and> fee \<le> high"
proof -
  let ?vs = "fee_votes_of (ledger s) pid" and ?t = "NumPeers_threshold P (num_peers amm)"
  let ?x = "sort (map snd ?vs) ! (?t - 1)"
  have env: "env_ok P amm" and inv: "db_inv amm (ledger s)"
    using amm_sys.reachable_inv [OF assms(1)] by (simp_all add: amm_inv_def)
  then have t: "0 < ?t" by (simp add: env_ok_def)
  have i: "?t - 1 < length ?vs"
    using assms(3) t length_filter_le [of "\<lambda>(p, _). honest p" ?vs] by linarith
  have "\<forall>(p, fee)\<in>set ?vs. fee_in_band (cfg amm) fee"
    using inv by (auto simp: db_inv_def votes_inv_def fee_votes_of_def)
  moreover have "?x \<in> snd ` set ?vs"
    using i nth_mem [of "?t - 1" "sort (map snd ?vs)"] by simp
  ultimately have "fee_in_band (cfg amm) ?x" by auto
  then have "clamp_fee_to_band (cfg amm) ?x = (Ok ?x :: (u16, ApiError) result)"
    by (auto simp: clamp_fee_to_band_def clamp_def fee_in_band_def)
  then have "consensus_fee_for P amm (ledger s) pid = (Ok ?x :: (u16, ApiError) result)"
    using t i by (simp add: consensus_fee_for_def Let_def get_nth_def)
  then show ?thesis using threshold_index_honest [OF t assms(2,3)] by blast
qed

text \<open>A history in which guardians of the concrete federation vote on its pool one after the other.\<close>

definition demo_voted :: "(PeerId \<times> u16) list \<Rightarrow> amm_state" where
  "demo_voted vs = demo_state1\<lparr>ledger := demo_db1\<lparr>
     fee_votes := map (\<lambda>(p, fee). (\<lparr>fv_pool = demo_pool, fv_peer = p\<rparr>, fee)) vs\<rparr>\<rparr>"

lemma update_new: "k \<notin> fst ` set t \<Longrightarrow> AList.update k v t = t @ [(k, v)]"
  by (induction t) auto

lemma demo_vote_step:
  assumes "p \<notin> fst ` set vs" and "1 \<le> fee" and "fee \<le> 50"
  shows "amm_step demo_platform demo_amm (demo_voted vs) (ItemEvent (FeeVoteV0 demo_pool fee) p)
    (demo_voted (vs @ [(p, fee)]))"
proof -
  let ?db = "demo_db1\<lparr>fee_votes := map (\<lambda>(p, fee). (\<lparr>fv_pool = demo_pool, fv_peer = p\<rparr>, fee)) vs\<rparr>"
  have new: "\<lparr>fv_pool = demo_pool, fv_peer = p\<rparr> \<notin> fst ` set (fee_votes ?db)"
    using assms(1) by (auto simp: image_iff case_prod_unfold)
  then have none: "map_of (fee_votes ?db) \<lparr>fv_pool = demo_pool, fv_peer = p\<rparr> = None"
    by (simp add: map_of_eq_None_iff)
  have band: "fee_in_band (cfg demo_amm) fee" using assms(2,3) by (simp add: fee_in_band_def demo_defs)
  have pool: "map_of (pools ?db) demo_pool \<noteq> None" by (simp add: demo_defs)
  have "process_consensus_item demo_amm (ledger (demo_voted vs)) (FeeVoteV0 demo_pool fee) p =
      Ok (demo_db1\<lparr>fee_votes := map (\<lambda>(p, fee). (\<lparr>fv_pool = demo_pool, fv_peer = p\<rparr>, fee)) (vs @ [(p, fee)])\<rparr>)"
    using band pool none update_new [OF new] by (auto simp: demo_voted_def Let_def ensure_def)
  from on_item [OF this] show ?thesis by (simp add: demo_voted_def)
qed

lemma demo_voted_reachable:
  assumes "distinct (map fst vs)" and "\<forall>(p, fee)\<in>set vs. 1 \<le> fee \<and> fee \<le> 50"
  shows "reachable (amm_start demo_platform demo_amm) (amm_step demo_platform demo_amm) (demo_voted vs)"
  using assms
proof (induction vs rule: rev_induct)
  case Nil
  have "demo_voted [] = demo_state1" by (simp add: demo_voted_def demo_state1_def demo_db1_def empty_db_def)
  then show ?case using demo_reachable(1) by simp
next
  case (snoc v vs)
  obtain p fee where v: "v = (p, fee)" by fastforce
  have "amm_step demo_platform demo_amm (demo_voted vs) (ItemEvent (FeeVoteV0 demo_pool fee) p)
      (demo_voted (vs @ [v]))"
    unfolding v by (rule demo_vote_step) (use snoc.prems v in auto)
  moreover have "reachable (amm_start demo_platform demo_amm) (amm_step demo_platform demo_amm) (demo_voted vs)"
    by (rule snoc.IH) (use snoc.prems in auto)
  ultimately show ?case by (metis reachable.step)
qed

lemma demo_votes_of: "fee_votes_of (ledger (demo_voted vs)) demo_pool = vs"
  by (simp add: fee_votes_of_def demo_voted_def filter_map comp_def case_prod_unfold)

theorem fee_between_honest_votes_witness:
  "\<exists>fee low high (p :: PeerId) (q :: PeerId). consensus_fee_for demo_platform demo_amm
      (ledger (demo_voted [(0, 3), (1, 7), (2, 5), (3, 50)])) demo_pool = (Ok fee :: (u16, ApiError) result) \<and>
    p \<noteq> 3 \<and> (p, low) \<in> {(0, 3), (1, 7), (2, 5), (3, 50)} \<and> low \<le> fee \<and>
    q \<noteq> 3 \<and> (q, high) \<in> {(0, 3), (1, 7), (2, 5), (3, 50)} \<and> fee \<le> high"
proof -
  have "reachable (amm_start demo_platform demo_amm) (amm_step demo_platform demo_amm)
      (demo_voted [(0, 3), (1, 7), (2, 5), (3, 50)])"
    by (rule demo_voted_reachable) simp_all
  from fee_between_honest_votes [OF this, of "\<lambda>p. p \<noteq> 3" demo_pool]
  show ?thesis by (simp add: demo_votes_of demo_platform_def demo_amm_def)
qed

text \<open>
  C22. The bound needs a threshold of honest votes: of four guardians with threshold three, two honest
  ones vote 3 and one faulty one votes 50, which is a reachable state, and the fee is 50, above every
  honest vote. With exactly a threshold of votes the selected index is the largest of them.
\<close>

theorem faulty_vote_exceeds_honest_votes:
  "\<exists>s. reachable (amm_start demo_platform demo_amm) (amm_step demo_platform demo_amm) s \<and>
    NumPeers_threshold demo_platform (num_peers demo_amm) = 3 \<and> num_peers demo_amm = 4 \<and>
    fee_votes_of (ledger s) demo_pool = [(0, 3), (1, 3), (3, 50)] \<and>
    consensus_fee_for demo_platform demo_amm (ledger s) demo_pool = (Ok 50 :: (u16, ApiError) result)"
proof (intro exI conjI)
  show "reachable (amm_start demo_platform demo_amm) (amm_step demo_platform demo_amm)
      (demo_voted [(0, 3), (1, 3), (3, 50)])"
    by (rule demo_voted_reachable) simp_all
  show "fee_votes_of (ledger (demo_voted [(0, 3), (1, 3), (3, 50)])) demo_pool = [(0, 3), (1, 3), (3, 50)]"
    by (rule demo_votes_of)
  have "NumPeers_threshold demo_platform (num_peers demo_amm) = 3" "num_peers demo_amm = 4"
    by (simp_all add: demo_platform_def demo_amm_def)
  then show "NumPeers_threshold demo_platform (num_peers demo_amm) = 3" "num_peers demo_amm = 4"
    "consensus_fee_for demo_platform demo_amm (ledger (demo_voted [(0, 3), (1, 3), (3, 50)])) demo_pool =
      (Ok 50 :: (u16, ApiError) result)"
    by (simp_all add: consensus_fee_for_def demo_votes_of get_nth_def clamp_fee_to_band_def clamp_def
        demo_amm_def default_consensus_config_def)
qed

section \<open>From intent to vote\<close>

lemma proposed_iff:
  "FeeVoteV0 pool fee \<in> set (propose_desired amm db desired) \<longleftrightarrow>
    (pool, fee) \<in> set desired \<and> map_of (pools db) pool \<noteq> None \<and>
    map_of (fee_votes db) \<lparr>fv_pool = pool, fv_peer = our_peer_id amm\<rparr> \<noteq> Some fee"
  by (induction amm db desired rule: propose_desired.induct) auto

lemma proposed_is_vote: "item \<in> set (propose_desired amm db desired) \<Longrightarrow> \<exists>pool fee. item = FeeVoteV0 pool fee"
  by (induction amm db desired rule: propose_desired.induct) (auto split: if_splits)

text \<open>Transactions leave the votes and the intents alone and never remove a pool.\<close>

definition fee_frame :: "amm_db \<Rightarrow> amm_db \<Rightarrow> bool" where
  "fee_frame db db' \<longleftrightarrow> fee_votes db' = fee_votes db \<and> desired_fees db' = desired_fees db \<and>
     (\<forall>pool. map_of (pools db) pool \<noteq> None \<longrightarrow> map_of (pools db') pool \<noteq> None)"

lemma input_fee_frame: "process_input P db i = Ok (db', meta) \<Longrightarrow> fee_frame db db'"
  by (cases i) (auto simp: process_claim_def process_withdraw_def fee_frame_def Let_def and_then_eq_Ok update_conv' split: if_splits)

lemma output_fee_frame: "process_output P amm db out = Ok (db', t) \<Longrightarrow> fee_frame db db'"
  by (cases out)
    (auto simp: process_output_def process_swap_def process_deposit_def fee_frame_def Let_def and_then_eq_Ok update_conv' split: if_splits prod.splits)

lemma proposal_persists:
  assumes "amm_step P amm s e s'" and "FeeVoteV0 pool fee \<in> set (consensus_proposal amm (ledger s))"
    and "distinct (map fst (desired_fees (ledger s)))"
    and "FeeVoteV0 pool fee \<notin> set (consensus_proposal amm (ledger s'))"
  shows "e = ItemEvent (FeeVoteV0 pool fee) (our_peer_id amm) \<or> (\<exists>auth fee'. e = SubmitEvent auth pool fee' \<and> fee' \<noteq> fee)"
proof -
  have p: "(pool, fee) \<in> set (desired_fees (ledger s))" "map_of (pools (ledger s)) pool \<noteq> None"
    "map_of (fee_votes (ledger s)) \<lparr>fv_pool = pool, fv_peer = our_peer_id amm\<rparr> \<noteq> Some fee"
    using assms(2) by (auto simp: consensus_proposal_def proposed_iff)
  have framed: False if "fee_frame (ledger s) (ledger s')" using that p assms(4) by (auto simp: fee_frame_def consensus_proposal_def proposed_iff)
  from assms(1) show ?thesis
  proof (cases rule: amm_step.cases)
    case (on_item c peer db')
    then show ?thesis
      using p assms(4) by (cases c) (auto simp: consensus_proposal_def proposed_iff Let_def and_then_eq_Ok update_conv' split: if_splits)
  next
    case (on_submit auth pool' fee' db')
    have "map_of (desired_fees (ledger s)) pool = Some fee" using assms(3) p(1) by simp
    then have "(pool, fee) \<in> set (desired_fees db')" if "pool' \<noteq> pool \<or> fee' = fee"
      using on_submit(3) that
      by (auto simp: fee_vote_submit_endpoint_def update_conv' split: if_splits intro!: map_of_SomeD)
    then show ?thesis
      using on_submit p assms(4) by (auto simp: consensus_proposal_def proposed_iff fee_vote_submit_endpoint_def split: if_splits)
  qed (use framed input_fee_frame output_fee_frame in auto)
qed

text \<open>
  C23. A proposal lands and is not repeated: in every reachable state each item a guardian proposes
  is accepted when it is ordered under its own name, records its vote, and is no longer proposed
  afterwards; until then it stays proposed: the only other step that ends it is the guardian asking for
  another fee for that pool.
\<close>

theorem proposal_lands_once:
  assumes "reachable (amm_start P amm) (amm_step P amm) s"
    and "item \<in> set (consensus_proposal amm (ledger s))"
  shows "\<exists>db' pool fee. item = FeeVoteV0 pool fee \<and>
    process_consensus_item amm (ledger s) item (our_peer_id amm) = Ok db' \<and>
    map_of (fee_votes db') \<lparr>fv_pool = pool, fv_peer = our_peer_id amm\<rparr> = Some fee \<and>
    map_of (desired_fees (ledger s)) pool = Some fee \<and> item \<notin> set (consensus_proposal amm db') \<and>
    (\<forall>e s'. amm_step P amm s e s' \<longrightarrow> item \<notin> set (consensus_proposal amm (ledger s')) \<longrightarrow>
      e = ItemEvent item (our_peer_id amm) \<or> (\<exists>auth fee'. e = SubmitEvent auth pool fee' \<and> fee' \<noteq> fee))"
proof -
  have inv: "db_inv amm (ledger s)" using amm_sys.reachable_inv [OF assms(1)] by (simp add: amm_inv_def)
  obtain pool fee where item: "item = FeeVoteV0 pool fee"
    using proposed_is_vote assms(2) unfolding consensus_proposal_def by blast
  then have *: "(pool, fee) \<in> set (desired_fees (ledger s))" "map_of (pools (ledger s)) pool \<noteq> None"
    "map_of (fee_votes (ledger s)) \<lparr>fv_pool = pool, fv_peer = our_peer_id amm\<rparr> \<noteq> Some fee"
    using assms(2) by (auto simp: consensus_proposal_def proposed_iff)
  have "fee_in_band (cfg amm) fee" using *(1) inv by (auto simp: db_inv_def votes_inv_def)
  moreover have "map_of (desired_fees (ledger s)) pool = Some fee"
    using tbl.get_rows [OF db_inv_wf(5) [OF inv]] *(1) by simp
  moreover have "e = ItemEvent item (our_peer_id amm) \<or> (\<exists>auth fee'. e = SubmitEvent auth pool fee' \<and> fee' \<noteq> fee)"
    if "amm_step P amm s e s'" "item \<notin> set (consensus_proposal amm (ledger s'))" for e s'
    using proposal_persists [OF that(1) assms(2) [unfolded item] _ that(2) [unfolded item]] db_inv_wf(5) [OF inv] unfolding item by (simp add: wf_table_def)
  ultimately show ?thesis
    using *(2,3) by (intro exI conjI) (auto simp: item ensure_def Let_def tbl.get_insert consensus_proposal_def proposed_iff)
qed

definition demo_wish :: amm_state where
  "demo_wish = demo_state1\<lparr>ledger := demo_db1\<lparr>desired_fees := [(demo_pool, 4)]\<rparr>\<rparr>"

lemma demo_wish_reachable:
  "reachable (amm_start demo_platform demo_amm) (amm_step demo_platform demo_amm) demo_wish"
proof -
  have "fee_vote_submit_endpoint demo_amm (ledger demo_state1) True demo_pool 4 =
      Ok (demo_db1\<lparr>desired_fees := [(demo_pool, 4)]\<rparr>)"
    by (simp add: fee_vote_submit_endpoint_def demo_defs fee_in_band_def)
  from reachable.step [OF demo_reachable(1) on_submit [OF this]] show ?thesis
    by (simp add: demo_wish_def)
qed

theorem proposal_lands_once_witness:
  "consensus_proposal demo_amm (ledger demo_wish) = [FeeVoteV0 demo_pool 4] \<and>
   (\<exists>db'. process_consensus_item demo_amm (ledger demo_wish) (FeeVoteV0 demo_pool 4) 0 = Ok db')"
proof -
  have "consensus_proposal demo_amm (ledger demo_wish) = [FeeVoteV0 demo_pool 4]"
    by (simp add: consensus_proposal_def demo_wish_def demo_db1_def empty_db_def)
  moreover have "our_peer_id demo_amm = 0" by (simp add: demo_amm_def)
  ultimately show ?thesis
    using proposal_lands_once [OF demo_wish_reachable, of "FeeVoteV0 demo_pool 4"] by auto
qed

section \<open>Configuration and encodings\<close>

text \<open>
  The generated configuration is valid: distributed key generation never fails on it, every
  dealer-generated configuration passes the validation guardians apply, and the client sees the
  units and fees the consensus configuration has.
\<close>

theorem generated_config_valid:
  "distributed_gen = Ok default_consensus_config \<and>
   list_all (\<lambda>(peer, c). validate_config c = Ok ()) (trusted_dealer_gen peers) \<and>
   map fst (trusted_dealer_gen peers) = peers \<and>
   client_fee_for (get_client_config c) pool = config_fee_for c pool"
proof -
  have "validate default_consensus_config = Ok ()"
    by (simp add: validate_def default_consensus_config_def)
  then show ?thesis
    by (simp add: distributed_gen_def trusted_dealer_gen_def validate_config_def list_all_iff comp_def
        client_fee_for_def get_client_config_def config_fee_for_def)
qed

text \<open>
  The JSON form of a pool id round-trips: a canonical id serialises to a string that parses back
  to it, given that \<open>AmountUnit\<close> serialises to its number; and whatever string parses gives a
  canonical id.
\<close>

theorem pool_id_json_roundtrip:
  assumes "\<And>u. to_u64 u = Some u" and "canonical p"
  shows "(\<exists>s. PoolId_serialize to_u64 p = Ok s \<and> PoolId_deserialize s = Ok p) \<and>
    (\<forall>s q. PoolId_deserialize s = Ok q \<longrightarrow> canonical q)"
proof -
  have "PoolId_serialize to_u64 p = Ok (show_nat (unat (lo p)) @ '':'' @ show_nat (unat (hi p)))"
    by (simp add: PoolId_serialize_def assms(1))
  moreover have "PoolId_deserialize (show_nat (unat (lo p)) @ '':'' @ show_nat (unat (hi p))) = Ok p"
    using assms(2) unfolding deserialize_show by (simp add: canonical_def)
  ultimately show ?thesis using deserialize_canonical by blast
qed

theorem pool_id_json_roundtrip_witness:
  "\<exists>s. PoolId_serialize Some demo_pool = Ok s \<and> PoolId_deserialize s = Ok demo_pool"
proof -
  have "canonical demo_pool" by (simp add: demo_pool_def canonical_def)
  from pool_id_json_roundtrip [OF refl this] show ?thesis by blast
qed

text \<open>
  Pool ids are canonical from every source: the constructor is symmetric in its arguments, is
  defined exactly on distinct units and orders them, and the binary decoder undoes the encoder on
  canonical ids and accepts no other, given that the codec of a unit is a prefix code.
\<close>

theorem pool_id_canonical:
  assumes "\<And>u rest. dec (enc u @ rest) = Some (u, rest)"
  shows "PoolId_new x y = PoolId_new y x \<and> (PoolId_new x y = None \<longleftrightarrow> x = y) \<and>
    (\<forall>p. PoolId_new x y = Some p \<longrightarrow> canonical p \<and> other p x = Some y \<and> other p y = Some x) \<and>
    (\<forall>p rest. PoolId_consensus_decode dec (PoolId_consensus_encode enc p @ rest) =
      (if canonical p then Some (p, rest) else None)) \<and>
    (\<forall>bytes p rest. PoolId_consensus_decode dec bytes = Some (p, rest) \<longrightarrow> canonical p)"
proof -
  have "PoolId_new x y = PoolId_new y x"
    by (auto simp: PoolId_new_def)
  moreover have "PoolId_new x y = None \<longleftrightarrow> x = y" by (simp add: PoolId_new_def)
  moreover have "canonical p \<and> other p x = Some y \<and> other p y = Some x" if "PoolId_new x y = Some p" for p
    using PoolId_new_canonical [OF that] PoolId_new_sides [OF that]
    by (auto simp: other_def canonical_def)
  moreover have "PoolId_consensus_decode dec (PoolId_consensus_encode enc p @ rest) =
      (if canonical p then Some (p, rest) else None)" for p rest
    by (auto simp: PoolId_consensus_decode_def PoolId_consensus_encode_def assms canonical_def not_le)
  ultimately show ?thesis using decode_canonical by blast
qed

definition demo_unit_encode :: "AmountUnit \<Rightarrow> u8 list" where
  "demo_unit_encode u = replicate (unat u) 1 @ [0]"

definition demo_unit_decode :: "u8 list \<Rightarrow> (AmountUnit \<times> u8 list) option" where
  "demo_unit_decode bs = (case dropWhile (\<lambda>b. b = 1) bs of [] \<Rightarrow> None
     | _ # rest \<Rightarrow> Some (of_nat (length (takeWhile (\<lambda>b. b = 1) bs)), rest))"

lemma demo_unit_codec: "demo_unit_decode (demo_unit_encode u @ rest) = Some (u, rest)"
proof -
  have "dropWhile (\<lambda>b. b = 1) (replicate n 1 @ (0 :: u8) # rest) = 0 # rest"
    "takeWhile (\<lambda>b. b = 1) (replicate n 1 @ (0 :: u8) # rest) = replicate n 1" for n
    by (induction n) auto
  then show ?thesis by (simp add: demo_unit_decode_def demo_unit_encode_def)
qed

theorem pool_id_canonical_witness:
  "PoolId_new 1 0 = PoolId_new 0 1 \<and>
   PoolId_consensus_decode demo_unit_decode (PoolId_consensus_encode demo_unit_encode demo_pool @ [7]) =
     Some (demo_pool, [7])"
proof -
  have "canonical demo_pool" by (simp add: demo_pool_def canonical_def)
  then show ?thesis
    using pool_id_canonical [of demo_unit_decode demo_unit_encode 1 0, OF demo_unit_codec] by simp
qed

end
