(* ===== verification/Amm_Recovery.thy ===== *)
theory Amm_Recovery
  imports Amm_Server "HOL-Library.List_Lexorder"
begin

text \<open>
  Seed recovery of the AMM module: the keyset pagination of the server (\<open>recovery_range\<close> and
  \<open>recovery_page\<close> of \<open>fedimint-amm-server/src/lib.rs\<close>) and the client loops of
  \<open>fedimint-amm-client/src/api.rs\<close> that follow its cursors. The raw store is the list of its byte
  rows in key order; keys compare lexicographically, as Rust's byte strings do. The decoders of
  keys and values are those of fedimint-core and are given.
\<close>

section \<open>Pages\<close>

datatype DbKeyPrefix = PrefixPool | PrefixLpPosition | PrefixBalance | PrefixFeeVote | PrefixDesiredFee

fun DbKeyPrefix_byte :: "DbKeyPrefix \<Rightarrow> u8" where
  "DbKeyPrefix_byte PrefixPool = 1"
| "DbKeyPrefix_byte PrefixLpPosition = 2"
| "DbKeyPrefix_byte PrefixBalance = 3"
| "DbKeyPrefix_byte PrefixFeeVote = 4"
| "DbKeyPrefix_byte PrefixDesiredFee = 5"

definition MAX_RECOVERY_PAGE_SIZE :: u32 where
  "MAX_RECOVERY_PAGE_SIZE = 500"

definition MAX_RECOVERY_CURSOR_LEN :: nat where
  "MAX_RECOVERY_CURSOR_LEN = 256"

record RecoveryPageRequest =
  cursor :: "u8 list option"
  limit :: "u32 option"

definition recovery_page_limit :: "u32 option \<Rightarrow> (nat, 'e) result" where
  "recovery_page_limit requested =
     and_then (clamp (case requested of Some n \<Rightarrow> n | None \<Rightarrow> MAX_RECOVERY_PAGE_SIZE) 1 MAX_RECOVERY_PAGE_SIZE)
       (\<lambda>n. Ok (unat n))"

definition recovery_range :: "u8 \<Rightarrow> u8 list option \<Rightarrow> (u8 list \<times> u8 list, 'e) result" where
  "recovery_range db_prefix cur =
     and_then (add_p db_prefix 1) (\<lambda>next.
       let prefix_start = [db_prefix]; prefix_end = [next] in
       and_then (case cur of
           Some last_key_bytes \<Rightarrow> clamp (last_key_bytes @ [0]) prefix_start prefix_end
         | None \<Rightarrow> Ok prefix_start) (\<lambda>start.
       Ok (start, prefix_end)))"

type_synonym raw_store = "(u8 list \<times> u8 list) list"

text \<open>\<open>raw_find_by_range\<close>: the rows of the half-open key range, in key order.\<close>

definition raw_find_by_range :: "raw_store \<Rightarrow> u8 list \<Rightarrow> u8 list \<Rightarrow> raw_store" where
  "raw_find_by_range st start end_key = filter (\<lambda>(k, v). start \<le> k \<and> k < end_key) st"

record ('k, 'v) RecoveryPage =
  page_rows :: "('k \<times> 'v) list"
  next_cursor :: "u8 list option"

fun decode_rows ::
  "(u8 list \<Rightarrow> ('k, string) result) \<Rightarrow> (u8 list \<Rightarrow> ('v, string) result) \<Rightarrow> string \<Rightarrow> raw_store \<Rightarrow>
    ((u8 list \<times> 'k \<times> 'v) list, ApiError) result" where
  "decode_rows key_from_bytes value_from_bytes tab [] = Ok []"
| "decode_rows key_from_bytes value_from_bytes tab ((kb, vb) # raw) =
     and_then (map_err (\<lambda>e. server_error (''corrupt '' @ tab @ '' key in database: '' @ e))
       (key_from_bytes kb)) (\<lambda>k.
     and_then (map_err (\<lambda>e. server_error (''corrupt '' @ tab @ '' value in database: '' @ e))
       (value_from_bytes vb)) (\<lambda>v.
     and_then (decode_rows key_from_bytes value_from_bytes tab raw) (\<lambda>rows.
       Ok ((kb, k, v) # rows))))"

definition recovery_page ::
  "(u8 list \<Rightarrow> ('k, string) result) \<Rightarrow> (u8 list \<Rightarrow> ('v, string) result) \<Rightarrow> raw_store \<Rightarrow> u8 \<Rightarrow> string \<Rightarrow>
    RecoveryPageRequest \<Rightarrow> (('k, 'v) RecoveryPage, ApiError) result" where
  "recovery_page key_from_bytes value_from_bytes st db_prefix tab request =
     (if (case cursor request of Some c \<Rightarrow> length c > MAX_RECOVERY_CURSOR_LEN | None \<Rightarrow> False)
      then Err (bad_request ''cursor too large'')
      else
        and_then (recovery_page_limit (limit request)) (\<lambda>lim.
        and_then (case cursor request of
            Some c \<Rightarrow> map_err (\<lambda>e. bad_request (''malformed recovery cursor: '' @ e))
              (and_then (key_from_bytes c) (\<lambda>_. Ok ()))
          | None \<Rightarrow> Ok ()) (\<lambda>_.
        and_then (recovery_range db_prefix (cursor request)) (\<lambda>(start, end_key).
        and_then (decode_rows key_from_bytes value_from_bytes tab
          (take (lim + 1) (raw_find_by_range st start end_key))) (\<lambda>rows.
          let has_more = length rows > lim;
              rows' = (if has_more then take lim rows else rows);
              next = (if has_more then (if rows' = [] then None else Some (fst (last rows'))) else None)
          in Ok \<lparr>page_rows = map snd rows', next_cursor = next\<rparr>)))))"

section \<open>Endpoints\<close>

record BalanceRecoveryEntry =
  br_tweak :: Tweak
  br_pubkey :: PublicKey
  br_unit :: AmountUnit
  br_amount :: Amount

record LpRecoveryEntry =
  lr_tweak :: Tweak
  lr_pool :: PoolId
  lr_pubkey :: PublicKey
  lr_shares :: u64

record 'r RecoveryResponse =
  entries :: "'r list"
  r_next_cursor :: "u8 list option"

definition balance_recovery_endpoint ::
  "(u8 list \<Rightarrow> (BalanceKey, string) result) \<Rightarrow> (u8 list \<Rightarrow> (BalanceEntry, string) result) \<Rightarrow> raw_store \<Rightarrow>
    RecoveryPageRequest \<Rightarrow> (BalanceRecoveryEntry RecoveryResponse, ApiError) result" where
  "balance_recovery_endpoint key_from_bytes value_from_bytes st request =
     and_then (recovery_page key_from_bytes value_from_bytes st (DbKeyPrefix_byte PrefixBalance) ''Balance'' request)
       (\<lambda>page. Ok \<lparr>entries = map (\<lambda>(k, e). \<lparr>br_tweak = b_tweak e, br_pubkey = b_owner k, br_unit = b_unit k,
                                      br_amount = b_amount e\<rparr>) (page_rows page),
                    r_next_cursor = next_cursor page\<rparr>)"

definition lp_recovery_endpoint ::
  "(u8 list \<Rightarrow> (LpPositionKey, string) result) \<Rightarrow> (u8 list \<Rightarrow> (LpPosition, string) result) \<Rightarrow> raw_store \<Rightarrow>
    RecoveryPageRequest \<Rightarrow> (LpRecoveryEntry RecoveryResponse, ApiError) result" where
  "lp_recovery_endpoint key_from_bytes value_from_bytes st request =
     and_then (recovery_page key_from_bytes value_from_bytes st (DbKeyPrefix_byte PrefixLpPosition) ''LpPosition'' request)
       (\<lambda>page. Ok \<lparr>entries = map (\<lambda>(k, p). \<lparr>lr_tweak = lp_tweak p, lr_pool = lp_pool k, lr_pubkey = lp_owner k,
                                      lr_shares = shares p\<rparr>) (page_rows page),
                    r_next_cursor = next_cursor page\<rparr>)"

section \<open>The client's loop\<close>

text \<open>
  \<open>for_each_balance_recovery_entry\<close> and \<open>for_each_lp_recovery_entry\<close>: fetch a page, visit its
  entries, follow the cursor. The \<open>n\<close>-th fetch may see another store than the one before. The
  result collects the visited entries; a server that never stops handing out cursors is \<open>None\<close>.
\<close>

partial_function (option) for_each_recovery_entry ::
  "(nat \<Rightarrow> RecoveryPageRequest \<Rightarrow> ('r RecoveryResponse, 'e) result) \<Rightarrow> nat \<Rightarrow> u8 list option \<Rightarrow>
    ('r list, 'e) result option" where
  "for_each_recovery_entry fetch_page n cur =
     (case fetch_page n \<lparr>cursor = cur, limit = None\<rparr> of
        Err e \<Rightarrow> Some (Err e)
      | Panic \<Rightarrow> Some Panic
      | Ok page \<Rightarrow>
          (case r_next_cursor page of
             None \<Rightarrow> Some (Ok (entries page))
           | Some next \<Rightarrow>
               Option.bind (for_each_recovery_entry fetch_page (n + 1) (Some next)) (\<lambda>rest.
                 Some (and_then rest (\<lambda>es. Ok (entries page @ es))))))"

section \<open>Key ranges\<close>

text \<open>Appending a zero byte gives the next key: nothing lies strictly between.\<close>

lemma append_zero_next: "c @ [0] \<le> k \<longleftrightarrow> c < (k :: u8 list)"
proof (induction c arbitrary: k)
  case Nil
  have "0 < x \<or> 0 = x" for x :: u8 by (simp add: word_order word_eq_unat) linarith
  then show ?case by (cases k) simp_all
next
  case (Cons x c)
  show ?case by (cases k) (simp_all add: Cons)
qed

lemma in_prefix_range:
  assumes "unat p < 255"
  shows "[p] \<le> k \<and> k < [p + 1] \<longleftrightarrow> k \<noteq> [] \<and> hd k = (p :: u8)"
proof (cases k)
  case (Cons x xs)
  have "unat (p + 1) = unat p + 1" using assms by (simp add: unat_word_ariths)
  then have "x = p \<longleftrightarrow> p \<le> x \<and> x < p + 1" by (auto simp: word_order word_eq_unat)
  with Cons show ?thesis by auto
qed simp

text \<open>The rows a page draws from: those of the table, after the cursor if there is one.\<close>

definition later_rows :: "u8 \<Rightarrow> u8 list option \<Rightarrow> raw_store \<Rightarrow> raw_store" where
  "later_rows p cur st =
     filter (\<lambda>(k, v). k \<noteq> [] \<and> hd k = p \<and> (case cur of None \<Rightarrow> True | Some c \<Rightarrow> c < k)) st"

definition in_table :: "u8 \<Rightarrow> u8 list option \<Rightarrow> bool" where
  "in_table p cur \<longleftrightarrow> (case cur of None \<Rightarrow> True | Some c \<Rightarrow> c \<noteq> [] \<and> hd c = p)"

lemma recovery_range_rows:
  assumes "unat p < 255" and "in_table p cur"
  shows "\<exists>start. recovery_range p cur = (Ok (start, [p + 1]) :: (u8 list \<times> u8 list, 'e) result) \<and>
    raw_find_by_range st start [p + 1] = later_rows p cur st"
proof (cases cur)
  case None
  have "add_p p 1 = (Ok (p + 1) :: (u8, 'e) result)" using assms(1) by (simp add: eval_ops)
  then show ?thesis
    using in_prefix_range [OF assms(1)] None
    by (auto simp: recovery_range_def raw_find_by_range_def later_rows_def intro!: filter_cong)
next
  case (Some c)
  have add: "add_p p 1 = (Ok (p + 1) :: (u8, 'e) result)" using assms(1) by (simp add: eval_ops)
  obtain t where t: "c = p # t" using assms(2) Some by (cases c) (auto simp: in_table_def)
  have "p < p + 1" using assms(1) by (simp add: word_order unat_word_ariths)
  then have "clamp (c @ [0]) [p] [p + 1] = (Ok (c @ [0]) :: (u8 list, 'e) result)"
    by (simp add: clamp_def t)
  moreover have "c @ [0] \<le> k \<and> k < [p + 1] \<longleftrightarrow> k \<noteq> [] \<and> hd k = p \<and> c < k" for k
  proof -
    have "[p] \<le> k" if "c < k" using that by (cases k) (auto simp: t)
    then show ?thesis using in_prefix_range [OF assms(1), of k] by (auto simp: append_zero_next)
  qed
  ultimately show ?thesis
    using add Some by (auto simp: recovery_range_def raw_find_by_range_def later_rows_def intro!: filter_cong)
qed

lemma recovery_page_limit_default: "recovery_page_limit None = Ok 500"
  by (simp add: recovery_page_limit_def MAX_RECOVERY_PAGE_SIZE_def clamp_def)

section \<open>Following the cursors\<close>

text \<open>
  A store in key order in which every row of the table decodes, with the decoded row given by
  \<open>dec\<close>, and no key is longer than a cursor may be.
\<close>

definition store_ok ::
  "(u8 list \<Rightarrow> ('k, string) result) \<Rightarrow> (u8 list \<Rightarrow> ('v, string) result) \<Rightarrow> u8 \<Rightarrow> raw_store \<Rightarrow> bool" where
  "store_ok kd vd p st \<longleftrightarrow> sorted_wrt (<) (map fst st) \<and>
     (\<forall>(k, v)\<in>set st. k \<noteq> [] \<and> hd k = p \<longrightarrow> (\<exists>x. kd k = Ok x) \<and> (\<exists>y. vd v = Ok y) \<and> length k \<le> 256)"

fun the_ok :: "('a, 'e) result \<Rightarrow> 'a" where
  "the_ok (Ok x) = x"

definition decoded :: "(u8 list \<Rightarrow> ('k, string) result) \<Rightarrow> (u8 list \<Rightarrow> ('v, string) result) \<Rightarrow>
    u8 list \<times> u8 list \<Rightarrow> 'k \<times> 'v" where
  "decoded kd vd row = (the_ok (kd (fst row)), the_ok (vd (snd row)))"

lemma decode_rows_Ok:
  assumes "\<forall>(k, v)\<in>set raw. (\<exists>x. kd k = Ok x) \<and> (\<exists>y. vd v = Ok y)"
  shows "decode_rows kd vd tab raw = Ok (map (\<lambda>row. (fst row, decoded kd vd row)) raw)"
  using assms by (induction kd vd tab raw rule: decode_rows.induct) (auto simp: decoded_def)

lemma recovery_page_eq:
  fixes kd :: "u8 list \<Rightarrow> ('k, string) result" and vd :: "u8 list \<Rightarrow> ('v, string) result"
  assumes ok: "store_ok kd vd p st" and p: "unat p < 255" and cur: "in_table p cur"
    and dec: "\<And>c. cur = Some c \<Longrightarrow> (\<exists>x. kd c = Ok x) \<and> length c \<le> 256"
  defines "later \<equiv> later_rows p cur st"
  shows "recovery_page kd vd st p tab \<lparr>cursor = cur, limit = None\<rparr> =
    Ok \<lparr>page_rows = map (decoded kd vd) (take 500 later),
        next_cursor = (if 500 < length later then Some (fst (later ! 499)) else None)\<rparr>"
proof -
  obtain start where range: "recovery_range p cur = (Ok (start, [p + 1]) :: (u8 list \<times> u8 list, ApiError) result)"
    and rows: "raw_find_by_range st start [p + 1] = later"
    using recovery_range_rows [OF p cur] unfolding later_def by blast
  have "\<forall>(k, v)\<in>set (take 501 later). (\<exists>x. kd k = Ok x) \<and> (\<exists>y. vd v = Ok y)"
    using ok unfolding store_ok_def later_def later_rows_def by (fastforce dest!: in_set_takeD)
  note rows' = decode_rows_Ok [OF this]
  have last: "last (take 500 later) = later ! 499" if "500 < length later"
    using that by (subst last_conv_nth) (auto simp: min_def)
  have cur': "(case cur of Some c \<Rightarrow> map_err (\<lambda>e. bad_request (''malformed recovery cursor: '' @ e))
      (and_then (kd c) (\<lambda>_. Ok ())) | None \<Rightarrow> Ok ()) = Ok ()"
    "\<not> (case cur of Some c \<Rightarrow> length c > MAX_RECOVERY_CURSOR_LEN | None \<Rightarrow> False)"
    using dec by (auto simp: MAX_RECOVERY_CURSOR_LEN_def split: option.splits)
  show ?thesis
  proof (cases "500 < length later")
    case True
    then have "later \<noteq> []" "take 500 later \<noteq> []" by auto
    with True show ?thesis
      by (simp add: recovery_page_def cur' recovery_page_limit_default range rows rows' Let_def min_def
          take_map last_map last comp_def)
  next
    case False
    then have "take 501 later = later" by simp
    with False rows' show ?thesis
      by (simp add: recovery_page_def cur' recovery_page_limit_default range rows Let_def comp_def)
  qed
qed

lemma sorted_keys_take:
  fixes xs :: "('a::linorder \<times> 'b) list"
  assumes "sorted_wrt (<) (map fst xs)" and "i < length xs"
  shows "row \<in> set (take (Suc i) xs) \<longleftrightarrow> row \<in> set xs \<and> fst row \<le> fst (xs ! i)"
proof
  assume "row \<in> set (take (Suc i) xs)"
  then obtain j where j: "row = xs ! j" "j \<le> i" "j < length xs"
    by (auto simp: in_set_conv_nth less_Suc_eq_le)
  then have "fst (xs ! j) \<le> fst (xs ! i)"
    using sorted_wrt_nth_less [OF assms(1), of j i] assms(2) by (cases "j = i") auto
  with j show "row \<in> set xs \<and> fst row \<le> fst (xs ! i)" by simp
next
  assume r: "row \<in> set xs \<and> fst row \<le> fst (xs ! i)"
  then obtain j where j: "row = xs ! j" "j < length xs" by (auto simp: in_set_conv_nth)
  have "\<not> i < j" using sorted_wrt_nth_less [OF assms(1), of i j] r j by auto
  with j assms(2) show "row \<in> set (take (Suc i) xs)"
    by (auto simp: in_set_conv_nth less_Suc_eq_le intro!: exI [of _ j])
qed

lemma later_rows_sorted:
  assumes "sorted_wrt (<) (map fst st)"
  shows "sorted_wrt (<) (map fst (later_rows p cur st))"
  using assms unfolding later_rows_def sorted_wrt_map by (rule sorted_wrt_filter)

lemma later_rows_set:
  "row \<in> set (later_rows p cur st) \<longleftrightarrow> row \<in> set st \<and> fst row \<noteq> [] \<and> hd (fst row) = p \<and>
    (case cur of None \<Rightarrow> True | Some c \<Rightarrow> c < fst row)"
  by (cases row) (auto simp: later_rows_def split: option.splits)

text \<open>What a scan that starts at a cursor must deliver when the store changes under it.\<close>

definition scan_ok :: "u8 \<Rightarrow> (nat \<Rightarrow> raw_store) \<Rightarrow> nat \<Rightarrow> u8 list option \<Rightarrow> raw_store \<Rightarrow> bool" where
  "scan_ok p st n cur rows \<longleftrightarrow> sorted_wrt (<) (map fst rows) \<and>
     (\<forall>row\<in>set rows. \<exists>m\<ge>n. row \<in> set (later_rows p cur (st m))) \<and>
     (\<forall>row. (\<forall>m\<ge>n. row \<in> set (later_rows p cur (st m))) \<longrightarrow> row \<in> set rows)"

lemma scan_page:
  assumes later: "later = later_rows p cur (st n)" and "sorted_wrt (<) (map fst later)"
    and more: "500 < length later" and rest: "scan_ok p st (Suc n) (Some (fst (later ! 499))) rows"
  shows "scan_ok p st n cur (take 500 later @ rows)"
proof -
  let ?c = "fst (later ! 499)"
  have i: "499 < length later" using more by simp
  note page = sorted_keys_take [OF assms(2) i, simplified]
  have c: "case cur of None \<Rightarrow> True | Some c \<Rightarrow> c < ?c"
    using later_rows_set [of "later ! 499" p cur "st n"] i unfolding later [symmetric] by simp
  have up: "row \<in> set (later_rows p cur (st m))" if "row \<in> set (later_rows p (Some ?c) (st m))" for row m
    using that c by (auto simp: later_rows_set split: option.splits)
  have after: "?c < fst row" if "row \<in> set rows" for row
    using rest that unfolding scan_ok_def by (fastforce simp: later_rows_set)
  have "sorted_wrt (<) (map fst (take 500 later @ rows))"
  proof -
    have "sorted_wrt (<) (map fst (take 500 later))" using assms(2) by (simp add: take_map [symmetric] sorted_wrt_take)
    moreover have "sorted_wrt (<) (map fst rows)" using rest by (simp add: scan_ok_def)
    moreover have "fst x < fst y" if "x \<in> set (take 500 later)" "y \<in> set rows" for x y
      using page [of x] that(1) after [OF that(2)] by auto
    ultimately show ?thesis by (auto simp: sorted_wrt_append)
  qed
  moreover have "\<exists>m\<ge>n. row \<in> set (later_rows p cur (st m))" if "row \<in> set (take 500 later @ rows)" for row
  proof (cases "row \<in> set rows")
    case True
    then obtain m where "Suc n \<le> m" "row \<in> set (later_rows p (Some ?c) (st m))"
      using rest unfolding scan_ok_def by blast
    then show ?thesis using up by (meson Suc_leD)
  next
    case False
    then show ?thesis using that later by (auto dest: in_set_takeD)
  qed
  moreover have "row \<in> set (take 500 later @ rows)" if all: "\<forall>m\<ge>n. row \<in> set (later_rows p cur (st m))" for row
  proof (cases "fst row \<le> ?c")
    case True
    then show ?thesis using all page [of row] later by auto
  next
    case False
    then have "\<forall>m\<ge>Suc n. row \<in> set (later_rows p (Some ?c) (st m))"
      using all by (auto simp: later_rows_set)
    then have "row \<in> set rows" using rest unfolding scan_ok_def by blast
    then show ?thesis by simp
  qed
  ultimately show ?thesis unfolding scan_ok_def by blast
qed

definition page_fetcher ::
  "(u8 list \<Rightarrow> ('k, string) result) \<Rightarrow> (u8 list \<Rightarrow> ('v, string) result) \<Rightarrow> u8 \<Rightarrow> string \<Rightarrow> ('k \<times> 'v \<Rightarrow> 'r) \<Rightarrow>
    (nat \<Rightarrow> raw_store) \<Rightarrow> nat \<Rightarrow> RecoveryPageRequest \<Rightarrow> ('r RecoveryResponse, ApiError) result" where
  "page_fetcher kd vd p tab f st n request =
     and_then (recovery_page kd vd (st n) p tab request)
       (\<lambda>page. Ok \<lparr>entries = map f (page_rows page), r_next_cursor = next_cursor page\<rparr>)"

lemma scan_delivers:
  fixes kd :: "u8 list \<Rightarrow> ('k, string) result" and vd :: "u8 list \<Rightarrow> ('v, string) result"
  assumes ok: "\<And>n. store_ok kd vd p (st n)" and p: "unat p < 255" and fin: "finite U"
    and U: "\<And>n. fst ` set (st n) \<subseteq> U"
    and cur: "in_table p cur" "\<And>c. cur = Some c \<Longrightarrow> (\<exists>x. kd c = Ok x) \<and> length c \<le> 256"
  shows "\<exists>rows. for_each_recovery_entry (page_fetcher kd vd p tab f st) n cur =
      Some (Ok (map (f \<circ> decoded kd vd) rows)) \<and> scan_ok p st n cur rows"
  using cur
proof (induction "card {k \<in> U. case cur of None \<Rightarrow> True | Some c \<Rightarrow> c < k}" arbitrary: n cur rule: less_induct)
  case less
  define later where "later = later_rows p cur (st n)"
  have sorted: "sorted_wrt (<) (map fst later)"
    using ok [of n] later_rows_sorted unfolding later_def store_ok_def by blast
  note page = recovery_page_eq [OF ok p less.prems, of n tab, folded later_def]
  show ?case
  proof (cases "500 < length later")
    case False
    then have "scan_ok p st n cur later"
      using sorted unfolding scan_ok_def later_def by blast
    moreover have "for_each_recovery_entry (page_fetcher kd vd p tab f st) n cur =
        Some (Ok (map (f \<circ> decoded kd vd) later))"
      using False by (subst for_each_recovery_entry.simps) (simp add: page_fetcher_def page)
    ultimately show ?thesis by blast
  next
    case True
    let ?c = "fst (later ! 499)"
    have "later ! 499 \<in> set later" using True by simp
    then have c: "later ! 499 \<in> set (st n)" "?c \<noteq> []" "hd ?c = p" "case cur of None \<Rightarrow> True | Some c \<Rightarrow> c < ?c"
      using later_rows_set [of "later ! 499" p cur "st n"] unfolding later_def [symmetric] by blast+
    have "case later ! 499 of (k, v) \<Rightarrow> k \<noteq> [] \<and> hd k = p \<longrightarrow>
        (\<exists>x. kd k = Ok x) \<and> (\<exists>y. vd v = Ok y) \<and> length k \<le> 256"
      by (rule bspec [OF conjunct2 [OF ok [of n, unfolded store_ok_def]] c(1)])
    then have dec: "(\<exists>x. kd ?c = Ok x) \<and> length ?c \<le> 256"
      using c(2,3) by (simp add: case_prod_unfold)
    have "?c \<in> U" using imageI [OF c(1), of fst] U by blast
    then have "{k \<in> U. ?c < k} \<subset> {k \<in> U. case cur of None \<Rightarrow> True | Some c \<Rightarrow> c < k}"
      using c(4) by (auto split: option.splits)
    then have "card {k \<in> U. ?c < k} < card {k \<in> U. case cur of None \<Rightarrow> True | Some c \<Rightarrow> c < k}"
      using fin by (intro psubset_card_mono) auto
    then obtain rows where rest: "for_each_recovery_entry (page_fetcher kd vd p tab f st) (Suc n) (Some ?c) =
        Some (Ok (map (f \<circ> decoded kd vd) rows))" "scan_ok p st (Suc n) (Some ?c) rows"
      using less.hyps [of "Some ?c" "Suc n"] c(2,3) dec by (auto simp: in_table_def)
    have "scan_ok p st n cur (take 500 later @ rows)"
      by (rule scan_page [OF later_def sorted True rest(2)])
    moreover have "for_each_recovery_entry (page_fetcher kd vd p tab f st) n cur =
        Some (Ok (map (f \<circ> decoded kd vd) (take 500 later @ rows)))"
      using True rest(1) by (subst for_each_recovery_entry.simps) (simp add: page_fetcher_def page)
    ultimately show ?thesis by blast
  qed
qed

section \<open>Properties\<close>

lemma recovery_range_confined:
  assumes "unat p < 255"
  shows "\<exists>start. recovery_range p cur = (Ok (start, [p + 1]) :: (u8 list \<times> u8 list, 'e) result) \<and>
    [p] \<le> start \<and> start \<le> [p + 1]"
proof -
  have add: "add_p p 1 = (Ok (p + 1) :: (u8, 'e) result)" using assms by (simp add: eval_ops)
  have "p < p + 1" using assms by (simp add: word_order unat_word_ariths)
  then have le: "[p] \<le> [p + 1]" by simp
  show ?thesis
  proof (cases cur)
    case None
    then show ?thesis using add le by (simp add: recovery_range_def)
  next
    case (Some c)
    obtain y where "clamp (c @ [0]) [p] [p + 1] = (Ok y :: (u8 list, 'e) result)" "[p] \<le> y" "y \<le> [p + 1]"
      using clamp_Ok [OF le] by blast
    then show ?thesis using add Some by (simp add: recovery_range_def Let_def)
  qed
qed

lemma decode_rows_no_panic:
  assumes "\<And>b. kd b \<noteq> Panic" and "\<And>b. vd b \<noteq> Panic"
  shows "decode_rows kd vd tab raw \<noteq> Panic"
  using assms by (induction kd vd tab raw rule: decode_rows.induct) (auto simp: and_then_eq_Panic map_err_def split: result.splits)

lemma decode_rows_length:
  "decode_rows kd vd tab raw = Ok rows \<Longrightarrow> map fst rows = map fst raw"
  by (induction kd vd tab raw arbitrary: rows rule: decode_rows.induct) (auto simp: and_then_eq_Ok)

text \<open>
  C24. A recovery page never leaves its table and never panics: whatever cursor and limit an
  unauthenticated caller sends, the byte range scanned contains only keys with the table's prefix,
  the page has at most 500 rows, and a request is answered with a page or an error.
\<close>

theorem recovery_page_confined:
  assumes "\<And>b. kd b \<noteq> Panic" and "\<And>b. vd b \<noteq> Panic"
  shows "recovery_page kd vd st (DbKeyPrefix_byte d) tab request \<noteq> Panic \<and>
    (\<forall>page. recovery_page kd vd st (DbKeyPrefix_byte d) tab request = Ok page \<longrightarrow>
      length (page_rows page) \<le> 500) \<and>
    (\<exists>start. recovery_range (DbKeyPrefix_byte d) (cursor request) =
        (Ok (start, [DbKeyPrefix_byte d + 1]) :: (u8 list \<times> u8 list, ApiError) result) \<and>
      (\<forall>(k, v)\<in>set (raw_find_by_range st start [DbKeyPrefix_byte d + 1]).
        k \<noteq> [] \<and> hd k = DbKeyPrefix_byte d))"
proof -
  let ?p = "DbKeyPrefix_byte d"
  have p: "unat ?p < 255" by (cases d) simp_all
  obtain start where range: "recovery_range ?p (cursor request) =
      (Ok (start, [?p + 1]) :: (u8 list \<times> u8 list, ApiError) result)" "[?p] \<le> start"
    using recovery_range_confined [OF p] by blast
  obtain lim where "recovery_page_limit (limit request) = (Ok lim :: (nat, ApiError) result)" and lim: "lim \<le> 500"
    using clamp_Ok [of 1 MAX_RECOVERY_PAGE_SIZE "case limit request of Some n \<Rightarrow> n | None \<Rightarrow> MAX_RECOVERY_PAGE_SIZE",
        where 'e = ApiError]
    by (auto simp: recovery_page_limit_def MAX_RECOVERY_PAGE_SIZE_def word_order)
  then have "recovery_page kd vd st ?p tab request \<noteq> Panic"
    and "recovery_page kd vd st ?p tab request = Ok page \<Longrightarrow> length (page_rows page) \<le> 500" for page
    using assms decode_rows_no_panic [of kd vd, OF assms] lim
    by (auto simp: recovery_page_def range and_then_eq_Panic and_then_eq_Ok Let_def map_err_def
        split: option.splits result.splits if_splits)
  moreover have "\<forall>(k, v)\<in>set (raw_find_by_range st start [?p + 1]). k \<noteq> [] \<and> hd k = ?p"
    using in_prefix_range [OF p] range(2) unfolding raw_find_by_range_def by fastforce
  ultimately show ?thesis using range(1) by blast
qed

text \<open>
  C25. Recovery misses nothing: the client's loop over the balance pages ends, visits its rows in
  strictly increasing key order, so none twice, visits only rows that existed, and visits every
  balance that is present whenever a page is read, even when other balances are claimed or created
  between two pages. The store may change as long as its keys come from a finite set.
\<close>

theorem balance_recovery_complete:
  fixes st :: "nat \<Rightarrow> raw_store"
  assumes "\<And>n. store_ok kd vd 3 (st n)" and "finite U" and "\<And>n. fst ` set (st n) \<subseteq> U"
  shows "\<exists>rows. for_each_recovery_entry (\<lambda>n. balance_recovery_endpoint kd vd (st n)) 0 None =
      Some (Ok (map (\<lambda>row. let (k, e) = (the_ok (kd (fst row)), the_ok (vd (snd row))) in
        \<lparr>br_tweak = b_tweak e, br_pubkey = b_owner k, br_unit = b_unit k, br_amount = b_amount e\<rparr>) rows)) \<and>
    sorted_wrt (<) (map fst rows) \<and> (\<forall>row\<in>set rows. \<exists>m. row \<in> set (st m)) \<and>
    (\<forall>row. fst row \<noteq> [] \<and> hd (fst row) = 3 \<and> (\<forall>m. row \<in> set (st m)) \<longrightarrow> row \<in> set rows)"
proof -
  define f where "f = (\<lambda>(k :: BalanceKey, e :: BalanceEntry).
    \<lparr>br_tweak = b_tweak e, br_pubkey = b_owner k, br_unit = b_unit k, br_amount = b_amount e\<rparr>)"
  have fetch: "(\<lambda>n. balance_recovery_endpoint kd vd (st n)) = page_fetcher kd vd 3 ''Balance'' f st"
    by (intro ext) (simp add: balance_recovery_endpoint_def page_fetcher_def f_def)
  obtain rows where "for_each_recovery_entry (page_fetcher kd vd 3 ''Balance'' f st) 0 None =
      Some (Ok (map (f \<circ> decoded kd vd) rows))" and scan: "scan_ok 3 st 0 None rows"
    using scan_delivers [where st = st and cur = None and n = 0 and tab = "''Balance''" and f = f,
        OF assms(1) _ assms(2,3)] by (auto simp: in_table_def)
  then show ?thesis
    unfolding fetch
    by (intro exI [of _ rows]) (auto simp: scan_ok_def later_rows_set f_def decoded_def comp_def)
qed

theorem balance_recovery_complete_witness:
  "\<exists>rows. for_each_recovery_entry (\<lambda>n. balance_recovery_endpoint
      (\<lambda>b. Ok \<lparr>b_owner = tl b, b_unit = 1\<rparr>) (\<lambda>b. Ok \<lparr>b_amount = 5, b_tweak = b\<rparr>)
      (if n = 0 then [([2, 1], []), ([3, 4], [9]), ([3, 5], [8])] else [([3, 5], [8])])) 0 None = Some (Ok rows)"
proof -
  let ?kd = "\<lambda>b. Ok \<lparr>b_owner = tl b, b_unit = 1\<rparr> :: (BalanceKey, string) result"
  let ?vd = "\<lambda>b. Ok \<lparr>b_amount = 5, b_tweak = b\<rparr> :: (BalanceEntry, string) result"
  let ?st = "\<lambda>n :: nat. if n = 0 then [([2, 1], []), ([3, 4], [9]), ([3, 5], [8])] else [([3, 5], [8])] :: raw_store"
  have "store_ok ?kd ?vd 3 (?st n)" for n by (simp add: store_ok_def)
  moreover have "fst ` set (?st n) \<subseteq> {[2, 1], [3, 4], [3, 5]}" for n by simp
  ultimately show ?thesis
    using balance_recovery_complete [of ?kd ?vd ?st "{[2, 1], [3, 4], [3, 5]}"] by fast
qed

theorem recovery_page_confined_witness:
  "recovery_page (\<lambda>b. Ok b) (\<lambda>b. Ok b) [([2, 1], [])] (DbKeyPrefix_byte PrefixBalance) ''Balance''
     \<lparr>cursor = Some [], limit = Some 0\<rparr> \<noteq> (Panic :: (_, ApiError) result)"
  by (rule recovery_page_confined [THEN conjunct1]) simp_all

end
