(* ===== verification/Amm_Client.thy ===== *)
theory Amm_Client
  imports Amm_Fees Amm_Recovery
begin

text \<open>
  The client side of the AMM module, from \<open>modules/amm/fedimint-amm-client/src\<close>: key derivation
  and grinding (\<open>derivation.rs\<close>), the wire guards the client computes (\<open>lib.rs\<close>), its three state
  machines (\<open>swap.rs\<close>, \<open>single_tx.rs\<close>) and seed recovery. The executor that runs the state machines
  and the transaction builder are fedimint-client's; a state machine is modelled by what it does
  with the outcome of the future it waits for.
\<close>

section \<open>Derivation\<close>

text \<open>
  The derivable secret of fedimint, the consensus hash of a tweak with a filter, and the public key
  of a derived keypair.
\<close>

record 'root derivation =
  to_random_bytes :: "'root \<Rightarrow> u8 list"
  tweak_hash :: "Tweak \<Rightarrow> u8 list \<Rightarrow> u8 list"
  child_tweaked_key :: "'root \<Rightarrow> u64 \<Rightarrow> Tweak \<Rightarrow> Keypair"
  keypair_public :: "Keypair \<Rightarrow> PublicKey"

definition CHILD_SWAP :: u64 where
  "CHILD_SWAP = 0"

definition CHILD_LP :: u64 where
  "CHILD_LP = 1"

definition tweak_filter :: "'root derivation \<Rightarrow> 'root \<Rightarrow> u8 list" where
  "tweak_filter D root = to_random_bytes D root"

definition check_tweak :: "'root derivation \<Rightarrow> Tweak \<Rightarrow> u8 list \<Rightarrow> bool" where
  "check_tweak D tweak flt = list_all (\<lambda>b. b = 0) (take 2 (tweak_hash D tweak flt))"

text \<open>The sampling loop, over the sequence of tweaks the random number generator draws.\<close>

partial_function (option) grind_loop ::
  "'root derivation \<Rightarrow> u8 list \<Rightarrow> (nat \<Rightarrow> Tweak) \<Rightarrow> nat \<Rightarrow> Tweak option" where
  "grind_loop D flt rng n = (if check_tweak D (rng n) flt then Some (rng n) else grind_loop D flt rng (n + 1))"

definition grind_tweak :: "'root derivation \<Rightarrow> 'root \<Rightarrow> (nat \<Rightarrow> Tweak) \<Rightarrow> Tweak option" where
  "grind_tweak D root rng = grind_loop D (tweak_filter D root) rng 0"

definition derive_keypair :: "'root derivation \<Rightarrow> 'root \<Rightarrow> u64 \<Rightarrow> Tweak \<Rightarrow> Keypair" where
  "derive_keypair D root child tweak = child_tweaked_key D root child tweak"

definition matches_own_key ::
  "'root derivation \<Rightarrow> 'root \<Rightarrow> u8 list \<Rightarrow> u64 \<Rightarrow> Tweak \<Rightarrow> PublicKey \<Rightarrow> bool" where
  "matches_own_key D root flt child tweak pubkey \<longleftrightarrow>
     check_tweak D tweak flt \<and> keypair_public D (derive_keypair D root child tweak) = pubkey"

section \<open>Wire guards\<close>

datatype SlippageError = OutOfRange

definition min_after_slippage :: "u64 \<Rightarrow> u64 \<Rightarrow> (u64, SlippageError) result" where
  "min_after_slippage amt max_slippage_bps =
     (if max_slippage_bps > 10000 then Err OutOfRange
      else
        and_then (sub_p (10000 :: u128) (ucast max_slippage_bps)) (\<lambda>retained_bps.
        and_then (mul_p (ucast amt) retained_bps) (\<lambda>product.
        and_then (div_p product 10000) (\<lambda>m.
          Ok (case try_into m of Some r \<Rightarrow> r | None \<Rightarrow> amt)))))"

datatype ClientError =
    Api ApiError
  | Slippage SlippageError
  | CurveFailure CurveError
  | ClientMessage string

definition fetch_min_out ::
  "(AmountUnit \<Rightarrow> AmountUnit \<Rightarrow> Amount \<Rightarrow> (QuoteResponse, ApiError) result) \<Rightarrow> AmountUnit \<Rightarrow> AmountUnit \<Rightarrow>
    Amount \<Rightarrow> u64 \<Rightarrow> (Amount \<times> QuoteResponse, ClientError) result" where
  "fetch_min_out fetch_quote u_in u_out amt_in max_slippage_bps =
     and_then (map_err Api (fetch_quote u_in u_out amt_in)) (\<lambda>quote.
     and_then (map_err Slippage (min_after_slippage (q_amount_out quote) max_slippage_bps)) (\<lambda>m.
       Ok (m, quote)))"

definition deposit_min_shares ::
  "u64 \<Rightarrow> u64 \<Rightarrow> u64 \<Rightarrow> u64 \<Rightarrow> u64 \<Rightarrow> u64 \<Rightarrow> (u64 \<times> MintOutcome, ClientError) result" where
  "deposit_min_shares r_lo r_hi tot a_lo a_hi max_slippage_bps =
     and_then (map_err CurveFailure (mint_shares r_lo r_hi tot a_lo a_hi)) (\<lambda>preview.
     and_then (map_err Slippage (min_after_slippage (to_owner preview) max_slippage_bps)) (\<lambda>m.
       Ok (m, preview)))"

definition withdraw_guards :: "BurnOutcome \<Rightarrow> Amount \<times> Amount \<times> Amount \<times> Amount" where
  "withdraw_guards preview = (burn_da preview, burn_db preview, burn_da preview, burn_db preview)"

section \<open>Building the transactions\<close>

text \<open>
  What \<open>swap\<close>, \<open>deposit\<close> and \<open>withdraw\<close> hand to the transaction builder: the item, the amounts they
  declare for it, and the data of the state machine that follows it. The federation's answers are
  arguments; \<open>tweak\<close> is the ground tweak and \<open>kp\<close> the key derived from it.
\<close>

definition client_swap ::
  "platform \<Rightarrow> AmmClientConfig \<Rightarrow> (AmountUnit \<Rightarrow> AmountUnit \<Rightarrow> Amount \<Rightarrow> (QuoteResponse, ApiError) result) \<Rightarrow>
    AmountUnit \<Rightarrow> AmountUnit \<Rightarrow> Amount \<Rightarrow> u64 \<Rightarrow> Tweak \<Rightarrow> Keypair \<Rightarrow> (AmmOutput \<times> Amounts, ClientError) result" where
  "client_swap P c fetch_quote u_in u_out amt_in max_slippage_bps tweak kp =
     and_then (ensure (u_in \<noteq> u_out) (ClientMessage ''unit_in and unit_out must differ'')) (\<lambda>_.
     and_then (ensure (contains_key (client_units c) u_in \<and> contains_key (client_units c) u_out)
       (ClientMessage ''unit not in this federation's allowlist'')) (\<lambda>_.
     and_then (fetch_min_out fetch_quote u_in u_out amt_in max_slippage_bps) (\<lambda>(m, quote).
       Ok (new_swap_v0 P kp u_in u_out amt_in m tweak, Amounts_new_custom P u_in amt_in))))"

definition find_pool :: "PoolSummary list \<Rightarrow> PoolId \<Rightarrow> PoolSummary option" where
  "find_pool ps pool = List.find (\<lambda>p. ps_pool p = pool) ps"

definition client_deposit ::
  "platform \<Rightarrow> AmmClientConfig \<Rightarrow> (PoolSummary list, ApiError) result \<Rightarrow> PoolId \<Rightarrow> Amount \<Rightarrow> Amount \<Rightarrow> u64 \<Rightarrow>
    Tweak \<Rightarrow> Keypair \<Rightarrow> (AmmOutput \<times> Amounts \<times> u64, ClientError) result" where
  "client_deposit P c amm_pools pool a_lo a_hi max_slippage_bps tweak kp =
     and_then (ensure (contains_key (client_units c) (lo pool) \<and> contains_key (client_units c) (hi pool))
       (ClientMessage ''unit not in this federation's allowlist'')) (\<lambda>_.
     and_then (map_err Api amm_pools) (\<lambda>ps.
     let (r_lo, r_hi, tot) = (case find_pool ps pool of
           Some p \<Rightarrow> (ps_reserve_lo p, ps_reserve_hi p, ps_total_shares p) | None \<Rightarrow> (0, 0, 0)) in
     and_then (deposit_min_shares r_lo r_hi tot a_lo a_hi max_slippage_bps) (\<lambda>(m_shares, preview).
     and_then (ok_or
       (Option.bind (Amounts_checked_add_unit P (Amounts_ZERO P) a_lo (lo pool))
         (\<lambda>a. Amounts_checked_add_unit P a a_hi (hi pool)))
       (ClientMessage ''deposit amount overflow'')) (\<lambda>amts.
       Ok (new_deposit_v0 P kp pool a_lo a_hi m_shares tweak, amts, to_owner preview)))))"

definition client_withdraw ::
  "platform \<Rightarrow> 'root derivation \<Rightarrow> 'root \<Rightarrow> (LpPositionKey, LpPosition) table \<Rightarrow> (PoolSummary list, ApiError) result \<Rightarrow>
    PoolId \<Rightarrow> PublicKey \<Rightarrow> u64 \<Rightarrow> (AmmInput \<times> Amounts, ClientError) result" where
  "client_withdraw P D root positions amm_pools pool owner_pk s =
     and_then (ok_or (map_of positions \<lparr>lp_pool = pool, lp_owner = owner_pk\<rparr>)
       (ClientMessage ''no locally known LP position for this pool/owner_pk'')) (\<lambda>record.
     and_then (ensure (s > 0) (ClientMessage ''shares must be non-zero'')) (\<lambda>_.
     and_then (ensure (keypair_public D (derive_keypair D root CHILD_LP (lp_tweak record)) = owner_pk)
       (ClientMessage ''stored tweak does not derive to the requested owner_pk'')) (\<lambda>_.
     and_then (map_err Api amm_pools) (\<lambda>ps.
     and_then (ok_or (find_pool ps pool) (ClientMessage ''no such pool'')) (\<lambda>summary.
     and_then (map_err CurveFailure (burn_shares (ps_reserve_lo summary) (ps_reserve_hi summary)
       (ps_total_shares summary) s)) (\<lambda>preview.
     let (m_lo, m_hi, x_lo, x_hi) = withdraw_guards preview in
     and_then (ok_or
       (Option.bind (Amounts_checked_add_unit P (Amounts_ZERO P) (burn_da preview) (lo pool))
         (\<lambda>a. Amounts_checked_add_unit P a (burn_db preview) (hi pool)))
       (ClientMessage ''withdraw amount overflow'')) (\<lambda>amts.
       Ok (WithdrawV0 pool owner_pk s m_lo m_hi x_lo x_hi, amts))))))))"

text \<open>The fees a client accounts for: none for the items it knows, unknown for the others.\<close>

fun input_fee :: "platform \<Rightarrow> AmmInput \<Rightarrow> Amounts option" where
  "input_fee P (ClaimBalanceV0 pk u) = Some (Amounts_ZERO P)"
| "input_fee P (WithdrawV0 pool pk s a b c d) = Some (Amounts_ZERO P)"
| "input_fee P (InputDefault variant bytes) = None"

fun output_fee :: "platform \<Rightarrow> AmmOutput \<Rightarrow> Amounts option" where
  "output_fee P (SwapV0 ui uo a m pk tw pop) = Some (Amounts_ZERO P)"
| "output_fee P (DepositV0 pool a b m pk tw pop) = Some (Amounts_ZERO P)"
| "output_fee P (OutputDefault variant bytes) = None"

section \<open>The swap state machine\<close>

type_synonym OperationId = "u8 list"
type_synonym TransactionId = "u8 list"

datatype SwapOutcome = Tx1Rejected string | Settled Amount

datatype SwapState =
    Tx1Submitted TransactionId
  | Tx1Rejected string
  | Tx1Accepted u32
  | Tx2Failed u32 string
  | Tx2Submitted TransactionId u32
  | Done

record SwapCommon =
  sc_operation_id :: OperationId
  sc_unit_out :: AmountUnit
  sc_recipient_keypair :: Keypair

record SwapStateMachine =
  common :: SwapCommon
  state :: SwapState

definition next_after_tx2_failure :: "u32 \<Rightarrow> string \<Rightarrow> (SwapState, 'e) result" where
  "next_after_tx2_failure prior_attempts err =
     and_then (add_p prior_attempts 1) (\<lambda>n. Ok (Tx2Failed n err))"

definition record_outcome ::
  "(OperationId, SwapOutcome) table \<Rightarrow> OperationId \<Rightarrow> SwapOutcome \<Rightarrow> (OperationId, SwapOutcome) table" where
  "record_outcome outs op outcome = AList.update op outcome outs"

record ClientInput =
  ci_input :: AmmInput
  ci_keys :: "Keypair list"
  ci_amounts :: Amounts

definition build_claim_input :: "platform \<Rightarrow> Keypair \<Rightarrow> AmountUnit \<Rightarrow> Amount \<Rightarrow> ClientInput" where
  "build_claim_input P keypair u balance =
     \<lparr>ci_input = ClaimBalanceV0 (public_key P keypair) u, ci_keys = [keypair],
      ci_amounts = Amounts_new_custom P u balance\<rparr>"

text \<open>
  What the machine waits for: the fate of a transaction, the balance read before the claim together
  with what submitting the claim returned, or the end of the backoff. \<open>claim_inputs\<close> is the
  executor's; its result is given by the claim it is called with.
\<close>

datatype swap_event =
    TxDecided "string + unit"
  | BalanceRead "Amount option" "ClientInput \<Rightarrow> string + TransactionId"
  | Slept

type_synonym swap_config = "SwapStateMachine \<times> (OperationId, SwapOutcome) table"

definition transition_tx1_accepted ::
  "platform \<Rightarrow> swap_config \<Rightarrow> Amount option \<Rightarrow> (ClientInput \<Rightarrow> string + TransactionId) \<Rightarrow> u32 \<Rightarrow>
    (swap_config, 'e) result" where
  "transition_tx1_accepted P conf bal claim_inputs attempts =
     (case conf of (sm, outs) \<Rightarrow>
       (case bal of
          None \<Rightarrow> Ok (sm\<lparr>state := Done\<rparr>, outs)
        | Some balance \<Rightarrow>
            (case claim_inputs (build_claim_input P (sc_recipient_keypair (common sm)) (sc_unit_out (common sm)) balance) of
               Inr txid \<Rightarrow> Ok (sm\<lparr>state := Tx2Submitted txid attempts\<rparr>,
                             record_outcome outs (sc_operation_id (common sm)) (Settled balance))
             | Inl err \<Rightarrow> and_then (next_after_tx2_failure attempts err) (\<lambda>st. Ok (sm\<lparr>state := st\<rparr>, outs)))))"

definition swap_transition ::
  "platform \<Rightarrow> swap_config \<Rightarrow> swap_event \<Rightarrow> (swap_config, 'e) result option" where
  "swap_transition P conf ev =
     (case conf of (sm, outs) \<Rightarrow>
       (case (state sm, ev) of
          (Tx1Submitted txid, TxDecided (Inr _)) \<Rightarrow> Some (Ok (sm\<lparr>state := Tx1Accepted 0\<rparr>, outs))
        | (Tx1Submitted txid, TxDecided (Inl err)) \<Rightarrow>
            Some (Ok (sm\<lparr>state := SwapState.Tx1Rejected err\<rparr>,
                      record_outcome outs (sc_operation_id (common sm)) (SwapOutcome.Tx1Rejected err)))
        | (Tx1Accepted attempts, BalanceRead bal claim_inputs) \<Rightarrow>
            Some (transition_tx1_accepted P (sm, outs) bal claim_inputs attempts)
        | (Tx2Failed attempts err, Slept) \<Rightarrow> Some (Ok (sm\<lparr>state := Tx1Accepted attempts\<rparr>, outs))
        | (Tx2Submitted txid attempts, TxDecided (Inr _)) \<Rightarrow> Some (Ok (sm\<lparr>state := Done\<rparr>, outs))
        | (Tx2Submitted txid attempts, TxDecided (Inl err)) \<Rightarrow>
            Some (and_then (next_after_tx2_failure attempts err) (\<lambda>st. Ok (sm\<lparr>state := st\<rparr>, outs)))
        | _ \<Rightarrow> None))"

section \<open>The deposit and withdrawal machines\<close>

datatype DepositState = DepositSubmitted TransactionId | DepositAccepted | DepositRejected string

record DepositCommon =
  dc_operation_id :: OperationId
  dc_pool :: PoolId
  dc_owner_pk :: PublicKey
  dc_tweak :: Tweak
  dc_expected_shares :: u64

record DepositStateMachine =
  d_common :: DepositCommon
  d_state :: DepositState

definition transition_submitted ::
  "(LpPositionKey, LpPosition) table \<Rightarrow> string + unit \<Rightarrow> DepositStateMachine \<Rightarrow>
    DepositStateMachine \<times> (LpPositionKey, LpPosition) table" where
  "transition_submitted positions res sm =
     (case res of
        Inr _ \<Rightarrow> (sm\<lparr>d_state := DepositAccepted\<rparr>,
          AList.update \<lparr>lp_pool = dc_pool (d_common sm), lp_owner = dc_owner_pk (d_common sm)\<rparr>
            \<lparr>shares = dc_expected_shares (d_common sm), lp_tweak = dc_tweak (d_common sm)\<rparr> positions)
      | Inl err \<Rightarrow> (sm\<lparr>d_state := DepositRejected err\<rparr>, positions))"

datatype WithdrawState = WithdrawSubmitted TransactionId | WithdrawAccepted | WithdrawRejected string

record WithdrawCommon =
  wc_operation_id :: OperationId
  wc_pool :: PoolId
  wc_owner_pk :: PublicKey
  wc_shares :: u64

record WithdrawStateMachine =
  w_common :: WithdrawCommon
  w_state :: WithdrawState

definition transition_withdraw_submitted ::
  "(LpPositionKey, LpPosition) table \<Rightarrow> string + unit \<Rightarrow> WithdrawStateMachine \<Rightarrow>
    (WithdrawStateMachine \<times> (LpPositionKey, LpPosition) table, 'e) result" where
  "transition_withdraw_submitted positions res sm =
     (case res of
        Inr _ \<Rightarrow>
          (let key = \<lparr>lp_pool = wc_pool (w_common sm), lp_owner = wc_owner_pk (w_common sm)\<rparr> in
           and_then (case map_of positions key of
               None \<Rightarrow> Ok positions
             | Some record \<Rightarrow>
                 if shares record \<le> wc_shares (w_common sm) then Ok (AList.delete key positions)
                 else and_then (sub_p (shares record) (wc_shares (w_common sm))) (\<lambda>left.
                   Ok (AList.update key (record\<lparr>shares := left\<rparr>) positions))) (\<lambda>positions'.
           Ok (sm\<lparr>w_state := WithdrawAccepted\<rparr>, positions')))
      | Inl err \<Rightarrow> Ok (sm\<lparr>w_state := WithdrawRejected err\<rparr>, positions))"

section \<open>Seed recovery\<close>

record RecoveredBalanceKey =
  rk_pubkey :: PublicKey
  rk_unit :: AmountUnit

record client_db =
  c_positions :: "(LpPositionKey, LpPosition) table"
  c_recovered :: "(RecoveredBalanceKey, Tweak) table"

record AmmRecoverySummary =
  balances_found :: nat
  balances_claimed :: nat
  positions_restored :: nat
  claim_errors :: "(RecoveredBalanceKey \<times> string) list"

definition recover_with ::
  "'root derivation \<Rightarrow> 'root \<Rightarrow> client_db \<Rightarrow> (BalanceRecoveryEntry list, 'e) result \<Rightarrow> (LpRecoveryEntry list, 'e) result \<Rightarrow>
    (client_db \<times> AmmRecoverySummary, 'e) result" where
  "recover_with D root db balance_scan lp_scan =
     (let flt = tweak_filter D root in
      and_then balance_scan (\<lambda>bs.
      let own_balances = filter (\<lambda>e. matches_own_key D root flt CHILD_SWAP (br_tweak e) (br_pubkey e)) bs in
      and_then lp_scan (\<lambda>ls.
      let own_positions = filter (\<lambda>e. matches_own_key D root flt CHILD_LP (lr_tweak e) (lr_pubkey e)) ls;
          positions = foldl (\<lambda>t e. AList.update \<lparr>lp_pool = lr_pool e, lp_owner = lr_pubkey e\<rparr>
                        \<lparr>shares = lr_shares e, lp_tweak = lr_tweak e\<rparr> t) (c_positions db) own_positions;
          recovered = foldl (\<lambda>t e. AList.update \<lparr>rk_pubkey = br_pubkey e, rk_unit = br_unit e\<rparr> (br_tweak e) t)
                        (c_recovered db) own_balances
      in Ok (db\<lparr>c_positions := positions, c_recovered := recovered\<rparr>,
             \<lparr>balances_found = length own_balances, balances_claimed = 0,
              positions_restored = length own_positions, claim_errors = []\<rparr>))))"

text \<open>
  The federation as the claim loop sees it: the balance read before a claim, the fate of the claim,
  and the balance read after a claim that failed.
\<close>

record claim_env =
  read_before :: "RecoveredBalanceKey \<Rightarrow> string + Amount option"
  claim_result :: "RecoveredBalanceKey \<Rightarrow> Tweak \<Rightarrow> Amount \<Rightarrow> string + unit"
  read_after :: "RecoveredBalanceKey \<Rightarrow> string + Amount option"

fun claim_loop ::
  "claim_env \<Rightarrow> (RecoveredBalanceKey \<times> Tweak) list \<Rightarrow>
    (RecoveredBalanceKey, Tweak) table \<times> nat \<times> (RecoveredBalanceKey \<times> string) list \<Rightarrow>
    (RecoveredBalanceKey, Tweak) table \<times> nat \<times> (RecoveredBalanceKey \<times> string) list" where
  "claim_loop E [] acc = acc"
| "claim_loop E ((key, tweak) # pending) (rows, claimed, errors) =
     claim_loop E pending
       (case read_before E key of
          Inr None \<Rightarrow> (AList.delete key rows, claimed, errors)
        | Inr (Some amt) \<Rightarrow>
            (case claim_result E key tweak amt of
               Inr _ \<Rightarrow> (AList.delete key rows, claimed + 1, errors)
             | Inl err \<Rightarrow>
                 (case read_after E key of
                    Inr None \<Rightarrow> (AList.delete key rows, claimed, errors)
                  | _ \<Rightarrow> (rows, claimed, errors @ [(key, err)])))
        | Inl err \<Rightarrow> (rows, claimed, errors @ [(key, ''failed to re-read balance before claiming: '' @ err)]))"

definition claim_pending_balances :: "claim_env \<Rightarrow> client_db \<Rightarrow> client_db \<times> nat \<times> (RecoveredBalanceKey \<times> string) list" where
  "claim_pending_balances E db =
     (case claim_loop E (c_recovered db) (c_recovered db, 0, []) of
        (rows, claimed, errors) \<Rightarrow> (db\<lparr>c_recovered := rows\<rparr>, claimed, errors))"

definition recover ::
  "'root derivation \<Rightarrow> 'root \<Rightarrow> claim_env \<Rightarrow> client_db \<Rightarrow> (BalanceRecoveryEntry list, 'e) result \<Rightarrow>
    (LpRecoveryEntry list, 'e) result \<Rightarrow> (client_db \<times> AmmRecoverySummary, 'e) result" where
  "recover D root E db balance_scan lp_scan =
     and_then (recover_with D root db balance_scan lp_scan) (\<lambda>(db1, scanned).
       (case claim_pending_balances E db1 of
          (db2, claimed, errors) \<Rightarrow>
            Ok (db2, \<lparr>balances_found = balances_found scanned, balances_claimed = claimed,
                      positions_restored = positions_restored scanned, claim_errors = errors\<rparr>)))"

section \<open>Properties of the wire guards\<close>

lemma min_after_slippage_eq:
  "min_after_slippage a b = (if unat b > 10000 then Err OutOfRange
     else Ok (of_nat (unat a * (10000 - unat b) div 10000)))"
proof (cases "unat b > 10000")
  case False
  obtain r where r: "sub_p (10000 :: u128) (ucast b) = (Ok r :: (u128, SlippageError) result)"
    "unat r = 10000 - unat b"
    using op_p_returns(2) [of "ucast b" "10000 :: u128", where 'e = SlippageError] False by auto
  have "unat a * unat r < 2 ^ 128"
    by (rule mult_bound [of _ "2 ^ 64" _ 10000]) (use unat_u64 [of a] r(2) in simp_all)
  then obtain m where m: "mul_p (ucast a) r = (Ok m :: (u128, SlippageError) result)" "unat m = unat a * unat r"
    using op_p_returns(3) [of "ucast a" r, where 'e = SlippageError] by auto
  obtain d where d: "div_p m 10000 = (Ok d :: (u128, SlippageError) result)" "unat d = unat m div 10000"
    using op_p_returns(4) [of 10000 m, where 'e = SlippageError] by auto
  have "unat a * (10000 - unat b) div 10000 \<le> unat a"
    by (intro div_le_of_le_mult mult_le_mono2) simp
  then have fits: "unat a * (10000 - unat b) div 10000 < 18446744073709551616"
    using unat_u64 [of a] by linarith
  then have "try_into d = Some (of_nat (unat a * (10000 - unat b) div 10000) :: u64)"
    by (simp add: try_into_Some d(2) m(2) r(2) unat_of_nat)
  with False show ?thesis by (simp add: min_after_slippage_def r(1) m(1) d(1) word_order)
qed (simp add: min_after_slippage_def word_order)

text \<open>
  The slippage floor is exact: for a tolerance up to ten thousand basis points it is the amount
  times the retained share, rounded down, computed without overflow and without the fallback; any
  larger tolerance is refused.
\<close>

theorem min_after_slippage_exact:
  "min_after_slippage a b = (if unat b > 10000 then Err OutOfRange
     else Ok (of_nat (unat a * (10000 - unat b) div 10000)))"
  by (rule min_after_slippage_eq)

lemma min_after_slippage_le:
  assumes "min_after_slippage a b = Ok m"
  shows "m \<le> a"
proof -
  have "unat a * (10000 - unat b) div 10000 \<le> unat a"
    by (intro div_le_of_le_mult mult_le_mono2) simp
  moreover from this have "unat a * (10000 - unat b) div 10000 < 18446744073709551616"
    using unat_u64 [of a] by linarith
  ultimately show ?thesis
    using assms by (auto simp: min_after_slippage_eq word_order unat_of_nat split: if_splits)
qed

section \<open>Client and server together\<close>

text \<open>
  C26. A swap the client builds settles as quoted: an output built from a fresh quote, with any
  admissible tolerance, is accepted by the server in the state that was quoted, declares exactly the
  amounts the server charges, and credits the recipient with exactly the quoted amount, as long as the
  recipient's balance of that unit and the quoted amount together stay within the reserve cap of
  \<open>2 ^ 58\<close>.
\<close>

theorem client_swap_settles:
  assumes "client_swap P c (quote_endpoint P amm db) ui uo a bps tw kp = Ok (out, amts)"
    and "quote_endpoint P amm db ui uo a = Ok r" and "schnorr_correct P"
    and "balance_of db (public_key P kp) uo + unat (q_amount_out r) \<le> 2 ^ 58"
  shows "\<exists>db' t. process_output P amm db out = Ok (db', t) \<and> amounts t = amts \<and>
    balance_of db' (public_key P kp) uo = balance_of db (public_key P kp) uo + unat (q_amount_out r)"
proof -
  from assms(1,2) obtain m where m: "min_after_slippage (q_amount_out r) bps = Ok m"
    and out: "out = new_swap_v0 P kp ui uo a m tw" "amts = Amounts_new_custom P ui a"
    by (auto simp: client_swap_def fetch_min_out_def and_then_eq_Ok)
  have "process_output P amm db out = process_swap P amm db ui uo a m (public_key P kp) tw"
    using assms(3)
    by (simp add: out process_output_def new_swap_v0_def Let_def pop_verify_def sign_pop_def schnorr_correct_def)
  then show ?thesis
    using quote_settles [OF assms(2,4), of m tw] min_after_slippage_le [OF m] out(2) by auto
qed

theorem client_swap_settles_witness:
  "\<exists>out amts db' t. client_swap demo_platform (get_client_config default_consensus_config)
      (quote_endpoint demo_platform demo_amm demo_db1) 0 1 10000 100 [9] [2] = Ok (out, amts) \<and>
    process_output demo_platform demo_amm demo_db1 out = Ok (db', t)"
proof -
  have q: "quote_endpoint demo_platform demo_amm demo_db1 0 1 10000 =
      Ok \<lparr>q_amount_out = 39486, q_price_impact_per_mille = 13\<rparr>"
    using demo_quote [of None]
    by (simp add: quote_endpoint_def PoolId_new_def demo_pool_def demo_db1_def price_impact_per_mille_def
        eval_ops Let_def)
  have "schnorr_correct demo_platform" by (simp add: schnorr_correct_def demo_platform_def)
  moreover have "balance_of demo_db1 (public_key demo_platform [2]) 1 = 0"
    by (simp add: balance_of_def demo_defs)
  moreover obtain out amts where c: "client_swap demo_platform (get_client_config default_consensus_config)
      (quote_endpoint demo_platform demo_amm demo_db1) 0 1 10000 100 [9] [2] = Ok (out, amts)"
    by (simp add: client_swap_def fetch_min_out_def q min_after_slippage_eq get_client_config_def
        default_consensus_config_def contains_key_def BITCOIN_def ensure_def)
  ultimately show ?thesis using client_swap_settles [OF c q] by auto
qed

lemma find_pool_summaries:
  assumes "pool_summaries P amm db rows = Ok ps"
  shows "case find_pool ps pid of
      Some p \<Rightarrow> (\<exists>pool. map_of rows pid = Some pool \<and> ps_reserve_lo p = reserve_lo pool \<and>
        ps_reserve_hi p = reserve_hi pool \<and> ps_total_shares p = total_shares pool)
    | None \<Rightarrow> map_of rows pid = None"
  using assms
proof (induction rows arbitrary: ps)
  case (Cons row rows)
  obtain q pool where row: "row = (q, pool)" by fastforce
  from Cons.prems obtain fee ps' where ps: "pool_summaries P amm db rows = Ok ps'"
    "ps = \<lparr>ps_pool = q, ps_reserve_lo = reserve_lo pool, ps_reserve_hi = reserve_hi pool,
            ps_total_shares = total_shares pool, ps_fee_per_mille = fee\<rparr> # ps'"
    by (auto simp: row and_then_eq_Ok)
  show ?case using Cons.IH [OF ps(1)] by (auto simp: find_pool_def ps(2) row split: option.splits)
qed (simp add: find_pool_def)

text \<open>
  A withdrawal the client builds is exact or rejected: whatever the state when it settles, if the
  server accepts it then it pays exactly the amounts the client declared; and in the very state whose
  pools the client read, with the position it holds, it is accepted.
\<close>

theorem client_withdraw_exact_or_rejected:
  assumes "client_withdraw P D root positions (pools_endpoint P amm (ledger s)) pid pk n = Ok (inp, amts)"
    and "reachable (amm_start P amm) (amm_step P amm) s"
  shows "(\<forall>db db' meta. process_input P db inp = Ok (db', meta) \<longrightarrow> amounts (amount meta) = amts) \<and>
    (unat n \<le> position_of (ledger s) pid pk \<longrightarrow>
      (\<exists>db' meta. process_input P (ledger s) inp = Ok (db', meta)))"
proof -
  from assms(1) obtain ps summary b where ps: "pools_endpoint P amm (ledger s) = Ok ps" "find_pool ps pid = Some summary"
    and b: "burn_shares (ps_reserve_lo summary) (ps_reserve_hi summary) (ps_total_shares summary) n = Ok b"
    and amts: "Option.bind (Amounts_checked_add_unit P (Amounts_ZERO P) (burn_da b) (lo pid))
         (\<lambda>a. Amounts_checked_add_unit P a (burn_db b) (hi pid)) = Some amts"
    and inp: "inp = WithdrawV0 pid pk n (burn_da b) (burn_db b) (burn_da b) (burn_db b)"
    by (auto simp: client_withdraw_def withdraw_guards_def and_then_eq_Ok)
  have exact: "amounts (amount meta) = amts" if "process_input P db inp = Ok (db', meta)" for db db' meta
  proof -
    from that have "process_withdraw P db pid pk n (burn_da b) (burn_db b) (burn_da b) (burn_db b) = Ok (db', meta)"
      by (simp add: inp)
    then show ?thesis by (rule process_withdraw_Ok) (use amts in \<open>auto dest!: order.antisym\<close>)
  qed
  have inv: "db_inv amm (ledger s)" and law: "amounts_law P"
    using amm_sys.reachable_inv [OF assms(2)] by (simp_all add: amm_inv_def env_ok_def)
  obtain pool where pool: "map_of (pools (ledger s)) pid = Some pool" "ps_reserve_lo summary = reserve_lo pool"
    "ps_reserve_hi summary = reserve_hi pool" "ps_total_shares summary = total_shares pool"
    using find_pool_summaries [of P amm "ledger s" "pools (ledger s)" ps pid] ps by (auto simp: pools_endpoint_def)
  have "\<exists>db' meta. process_input P (ledger s) inp = Ok (db', meta)" if n: "unat n \<le> position_of (ledger s) pid pk"
  proof -
    have "0 < unat n" using burn_shares_Ok(1) [OF b] .
    then obtain pos where pos: "map_of (lp_positions (ledger s)) \<lparr>lp_pool = pid, lp_owner = pk\<rparr> = Some pos"
      "unat n \<le> unat (shares pos)"
      using n by (auto simp: position_of_def split: option.splits)
    show ?thesis
      using withdraw_returns [OF inv law pool(1) pos b [unfolded pool], of "burn_da b" "burn_db b" "burn_da b" "burn_db b"]
      by (auto simp: inp)
  qed
  with exact show ?thesis by blast
qed

definition demo_derivation :: "u8 list derivation" where
  "demo_derivation = \<lparr>to_random_bytes = (\<lambda>r. r), tweak_hash = (\<lambda>t f. t),
     child_tweaked_key = (\<lambda>r c t. [1]), keypair_public = (\<lambda>k. k)\<rparr>"

lemma demo_summaries: "pools_endpoint demo_platform demo_amm demo_db1 =
  Ok [\<lparr>ps_pool = demo_pool, ps_reserve_lo = 1000000, ps_reserve_hi = 4000000,
       ps_total_shares = 2000000, ps_fee_per_mille = 3\<rparr>]"
proof -
  have "consensus_fee_for demo_platform demo_amm demo_db1 demo_pool = (Ok 3 :: (u16, ApiError) result)"
    by (simp add: consensus_fee_for_def demo_defs fee_votes_of_def get_nth_def config_fee_for_def fee_for_def
        clamp_fee_to_band_def clamp_def)
  then show ?thesis by (simp add: pools_endpoint_def demo_db1_def)
qed

theorem client_withdraw_exact_or_rejected_witness:
  "\<exists>inp amts db' meta. client_withdraw demo_platform demo_derivation [] (lp_positions demo_db1)
      (pools_endpoint demo_platform demo_amm demo_db1) demo_pool [1] 1999000 = Ok (inp, amts) \<and>
    process_input demo_platform demo_db1 inp = Ok (db', meta) \<and> amounts (amount meta) = amts"
proof -
  have burn: "burn_shares 1000000 4000000 2000000 1999000 =
      Ok \<lparr>burn_da = 999500, burn_db = 3998000, burned_total = 1000\<rparr>"
    by (simp add: burn_shares_def eval_ops)
  have pos: "map_of (lp_positions demo_db1) \<lparr>lp_pool = demo_pool, lp_owner = [1]\<rparr> =
      Some \<lparr>shares = 1999000, lp_tweak = [7]\<rparr>"
    by (simp add: demo_db1_def)
  have legs: "Option.bind (Amounts_checked_add_unit demo_platform (Amounts_ZERO demo_platform) 999500 (lo demo_pool))
      (\<lambda>a. Amounts_checked_add_unit demo_platform a 3998000 (hi demo_pool)) = Some [0 \<mapsto> 999500, 1 \<mapsto> 3998000]"
    by (simp add: demo_platform_def demo_pool_def demo_add_unit_def eval_ops)
  obtain inp amts where c: "client_withdraw demo_platform demo_derivation [] (lp_positions (ledger demo_state1))
      (pools_endpoint demo_platform demo_amm (ledger demo_state1)) demo_pool [1] 1999000 = Ok (inp, amts)"
    by (simp add: client_withdraw_def demo_summaries pos legs demo_derivation_def derive_keypair_def
        find_pool_def burn withdraw_guards_def ensure_def)
  have "unat (1999000 :: u64) \<le> position_of (ledger demo_state1) demo_pool [1]"
    by (simp add: position_of_def demo_db1_def)
  with client_withdraw_exact_or_rejected [OF c demo_reachable(1)] c show ?thesis by auto
qed

section \<open>The swap machine does not give up\<close>

text \<open>
  A run of the machine with the events it consumed so far. The number of failed attempts it carries
  is the number of failures in the log.
\<close>

record swap_run =
  run_machine :: SwapStateMachine
  run_outcomes :: "(OperationId, SwapOutcome) table"
  run_log :: "swap_event list"

inductive swap_step :: "platform \<Rightarrow> swap_run \<Rightarrow> swap_event \<Rightarrow> swap_run \<Rightarrow> bool"
  for P where
  fire: "swap_transition P (run_machine r, run_outcomes r) ev = Some (Ok (sm, outs) :: (swap_config, unit) result) \<Longrightarrow>
    swap_step P r ev \<lparr>run_machine = sm, run_outcomes = outs, run_log = run_log r @ [ev]\<rparr>"

inductive_cases swap_stepE: "swap_step P r ev r'"

definition swap_start :: "SwapCommon \<Rightarrow> swap_run \<Rightarrow> bool" where
  "swap_start c r \<longleftrightarrow> common (run_machine r) = c \<and> (\<exists>txid. state (run_machine r) = Tx1Submitted txid) \<and> run_log r = []"

text \<open>
  What the log says in each state: where Tx1 was accepted, what the last balance read and the
  transaction made of it, and what is recorded as the outcome.
\<close>

definition settled :: "platform \<Rightarrow> swap_run \<Rightarrow> swap_event list \<Rightarrow> TransactionId \<Rightarrow> bool" where
  "settled P r log txid \<longleftrightarrow> (\<exists>a claim. log \<noteq> [] \<and> last log = BalanceRead (Some a) claim \<and>
     claim (build_claim_input P (sc_recipient_keypair (common (run_machine r)))
       (sc_unit_out (common (run_machine r))) a) = Inr txid \<and>
     map_of (run_outcomes r) (sc_operation_id (common (run_machine r))) = Some (Settled a))"

definition swap_inv :: "platform \<Rightarrow> SwapCommon \<Rightarrow> swap_run \<Rightarrow> bool" where
  "swap_inv P c r \<longleftrightarrow> common (run_machine r) = c \<and>
     (case state (run_machine r) of
        Tx1Submitted _ \<Rightarrow> run_log r = []
      | SwapState.Tx1Rejected e \<Rightarrow> run_log r = [TxDecided (Inl e)] \<and>
          map_of (run_outcomes r) (sc_operation_id c) = Some (SwapOutcome.Tx1Rejected e)
      | Tx1Accepted _ \<Rightarrow> run_log r \<noteq> [] \<and> hd (run_log r) = TxDecided (Inr ())
      | Tx2Failed _ _ \<Rightarrow> run_log r \<noteq> [] \<and> hd (run_log r) = TxDecided (Inr ())
      | Tx2Submitted txid _ \<Rightarrow> run_log r \<noteq> [] \<and> hd (run_log r) = TxDecided (Inr ()) \<and> settled P r (run_log r) txid
      | Done \<Rightarrow> run_log r \<noteq> [] \<and> hd (run_log r) = TxDecided (Inr ()) \<and>
          ((\<exists>claim. last (run_log r) = BalanceRead None claim) \<or>
           (\<exists>txid. last (run_log r) = TxDecided (Inr ()) \<and> settled P r (butlast (run_log r)) txid)))"

lemma swap_inv_step:
  assumes "swap_step P r ev r'" and "swap_inv P c r"
  shows "swap_inv P c r'"
  using assms(1)
proof (rule swap_stepE)
  fix sm outs
  assume r': "r' = \<lparr>run_machine = sm, run_outcomes = outs, run_log = run_log r @ [ev]\<rparr>"
    and t: "swap_transition P (run_machine r, run_outcomes r) ev = Some (Ok (sm, outs) :: (swap_config, unit) result)"
  show ?thesis
    using t assms(2)
    by (auto simp: r' swap_transition_def transition_tx1_accepted_def next_after_tx2_failure_def and_then_eq_Ok
        swap_inv_def settled_def record_outcome_def tbl.get_insert hd_append
        split: SwapState.splits swap_event.splits sum.splits option.splits)
qed

interpretation swap_sys: guarded_system "swap_start c" "swap_step P" "swap_inv P c" for P c
proof unfold_locales
  fix r assume "swap_start c r"
  then show "swap_inv P c r" by (auto simp: swap_start_def swap_inv_def)
next
  fix r ev r' assume "swap_step P r ev r'" "swap_inv P c r"
  then show "swap_inv P c r'" by (rule swap_inv_step)
qed

text \<open>
  C27. A swap never strands its proceeds: a run of the machine that has come to a state with no
  further transition either had its first transaction rejected and recorded that, or had it accepted
  and then found no balance left to claim or saw the claim of the whole balance it read accepted,
  with that amount on record. Every failed claim leads back to another attempt.
\<close>

theorem swap_machine_never_gives_up:
  assumes "reachable (swap_start c) (swap_step P) r"
    and "\<forall>ev. swap_transition P (run_machine r, run_outcomes r) ev = (None :: (swap_config, unit) result option)"
  shows "(\<exists>e. run_log r = [TxDecided (Inl e)] \<and>
      map_of (run_outcomes r) (sc_operation_id c) = Some (SwapOutcome.Tx1Rejected e)) \<or>
    hd (run_log r) = TxDecided (Inr ()) \<and>
    ((\<exists>claim. last (run_log r) = BalanceRead None claim) \<or>
     (\<exists>a claim txid. last (run_log r) = TxDecided (Inr ()) \<and> last (butlast (run_log r)) = BalanceRead (Some a) claim \<and>
        claim (build_claim_input P (sc_recipient_keypair c) (sc_unit_out c) a) = Inr txid \<and>
        map_of (run_outcomes r) (sc_operation_id c) = Some (Settled a)))"
proof -
  have inv: "swap_inv P c r" by (rule swap_sys.reachable_inv [OF assms(1)])
  have stop: "swap_transition P (run_machine r, run_outcomes r) (TxDecided (Inr ())) = (None :: (swap_config, unit) result option)"
    "swap_transition P (run_machine r, run_outcomes r) Slept = (None :: (swap_config, unit) result option)"
    "swap_transition P (run_machine r, run_outcomes r) (BalanceRead None (\<lambda>_. Inl [])) =
      (None :: (swap_config, unit) result option)"
    using assms(2) by blast+
  show ?thesis
    using inv stop by (cases "state (run_machine r)")
      (auto simp: swap_inv_def settled_def swap_transition_def)
qed

definition demo_swap_common :: SwapCommon where
  "demo_swap_common = \<lparr>sc_operation_id = [7], sc_unit_out = 1, sc_recipient_keypair = [2]\<rparr>"

definition demo_machine :: "SwapState \<Rightarrow> SwapStateMachine" where
  "demo_machine st = \<lparr>common = demo_swap_common, state = st\<rparr>"

theorem swap_machine_never_gives_up_witness:
  "map_of [([7], SwapOutcome.Tx1Rejected ''no'')] (sc_operation_id demo_swap_common) = Some (SwapOutcome.Tx1Rejected ''no'')"
proof -
  let ?r0 = "\<lparr>run_machine = demo_machine (Tx1Submitted [1]), run_outcomes = [], run_log = []\<rparr>"
  let ?r1 = "\<lparr>run_machine = demo_machine (SwapState.Tx1Rejected ''no''),
     run_outcomes = [([7], SwapOutcome.Tx1Rejected ''no'')], run_log = [TxDecided (Inl ''no'')]\<rparr>"
  have "reachable (swap_start demo_swap_common) (swap_step demo_platform) ?r0"
    by (rule reachable.start) (simp add: swap_start_def demo_machine_def)
  moreover have "swap_step demo_platform ?r0 (TxDecided (Inl ''no'')) ?r1"
    using swap_step.fire [of demo_platform ?r0 "TxDecided (Inl ''no'')"]
    by (simp add: swap_transition_def demo_machine_def demo_swap_common_def record_outcome_def)
  ultimately have "reachable (swap_start demo_swap_common) (swap_step demo_platform) ?r1"
    by (rule reachable.step)
  moreover have "\<forall>ev. swap_transition demo_platform (run_machine ?r1, run_outcomes ?r1) ev =
      (None :: (swap_config, unit) result option)"
    by (simp add: swap_transition_def demo_machine_def)
  ultimately show ?thesis
    using swap_machine_never_gives_up [of demo_swap_common demo_platform ?r1] by simp
qed

section \<open>Recovery from seed\<close>

lemma grind_loop_finds:
  assumes "check_tweak D (rng (n + k)) flt"
  shows "\<exists>t. grind_loop D flt rng n = Some t \<and> check_tweak D t flt"
  using assms
proof (induction k arbitrary: n)
  case 0
  then show ?case by (subst grind_loop.simps) simp
next
  case (Suc k)
  then show ?case using Suc.IH [of "Suc n"] by (subst grind_loop.simps) auto
qed

text \<open>
  C28. Grinding ends and its keys are recognised: if the random source ever yields a tweak that passes
  the filter, grinding returns one that does, and recovery recognises every key derived from it under
  the same child, so a record made with a ground key is found again from the seed.
\<close>

theorem ground_key_recognised:
  assumes "check_tweak D (rng n) (tweak_filter D root)"
  shows "\<exists>t. grind_tweak D root rng = Some t \<and>
    matches_own_key D root (tweak_filter D root) child t (keypair_public D (derive_keypair D root child t))"
  using grind_loop_finds [of D rng 0 n "tweak_filter D root"] assms
  by (auto simp: grind_tweak_def matches_own_key_def)

theorem ground_key_recognised_witness:
  "\<exists>t. grind_tweak demo_derivation [] (\<lambda>n. if n = 3 then [0, 0, 5] else [1]) = Some t"
  using ground_key_recognised [of demo_derivation "\<lambda>n. if n = 3 then [0, 0, 5] else [1]" 3 "[]" 0]
  by (auto simp: check_tweak_def demo_derivation_def)

lemma foldl_update_other:
  "(\<forall>e\<in>set es. key e \<noteq> k) \<Longrightarrow> map_of (foldl (\<lambda>t e. AList.update (key e) (val e) t) t es) k = map_of t k"
  by (induction es arbitrary: t) (auto simp: tbl.get_insert)

lemma foldl_update_own:
  assumes "distinct (map key es)" and "e \<in> set es"
  shows "map_of (foldl (\<lambda>t e. AList.update (key e) (val e) t) t es) (key e) = Some (val e)"
  using assms
proof (induction es arbitrary: t)
  case (Cons x es)
  show ?case
  proof (cases "e \<in> set es")
    case True
    with Cons show ?thesis by simp
  next
    case False
    with Cons.prems have "e = x" by simp
    moreover have "\<forall>e\<in>set es. key e \<noteq> key x" using Cons.prems(1) by (metis distinct.simps(2) image_eqI list.set_map list.simps(9))
    ultimately show ?thesis by (simp add: foldl_update_other tbl.get_insert)
  qed
qed simp

text \<open>
  C29. Recovery restores exactly what belongs to the seed: of the scanned rows, each balance and each
  position whose tweak and key the seed reproduces is stored with its tweak (and shares), and no
  other entry of the local tables changes.
\<close>

theorem recover_restores_exactly_own:
  fixes bs :: "BalanceRecoveryEntry list" and ls :: "LpRecoveryEntry list"
  assumes "recover_with D root db (Ok bs) (Ok ls) = Ok (db', summary)"
    and "distinct (map (\<lambda>e. \<lparr>rk_pubkey = br_pubkey e, rk_unit = br_unit e\<rparr>) bs)"
    and "distinct (map (\<lambda>e. \<lparr>lp_pool = lr_pool e, lp_owner = lr_pubkey e\<rparr>) ls)"
  defines "mine \<equiv> \<lambda>e. matches_own_key D root (tweak_filter D root) CHILD_SWAP (br_tweak e) (br_pubkey e)"
    and "ours \<equiv> \<lambda>e. matches_own_key D root (tweak_filter D root) CHILD_LP (lr_tweak e) (lr_pubkey e)"
  shows "(\<forall>e\<in>set bs. mine e \<longrightarrow>
      map_of (c_recovered db') \<lparr>rk_pubkey = br_pubkey e, rk_unit = br_unit e\<rparr> = Some (br_tweak e)) \<and>
    (\<forall>k. (\<forall>e\<in>set bs. mine e \<longrightarrow> \<lparr>rk_pubkey = br_pubkey e, rk_unit = br_unit e\<rparr> \<noteq> k) \<longrightarrow>
      map_of (c_recovered db') k = map_of (c_recovered db) k) \<and>
    (\<forall>e\<in>set ls. ours e \<longrightarrow> map_of (c_positions db') \<lparr>lp_pool = lr_pool e, lp_owner = lr_pubkey e\<rparr> =
      Some \<lparr>shares = lr_shares e, lp_tweak = lr_tweak e\<rparr>) \<and>
    (\<forall>k. (\<forall>e\<in>set ls. ours e \<longrightarrow> \<lparr>lp_pool = lr_pool e, lp_owner = lr_pubkey e\<rparr> \<noteq> k) \<longrightarrow>
      map_of (c_positions db') k = map_of (c_positions db) k)"
proof -
  have db': "c_recovered db' = foldl (\<lambda>t e. AList.update \<lparr>rk_pubkey = br_pubkey e, rk_unit = br_unit e\<rparr> (br_tweak e) t)
      (c_recovered db) (filter mine bs)"
    "c_positions db' = foldl (\<lambda>t e. AList.update \<lparr>lp_pool = lr_pool e, lp_owner = lr_pubkey e\<rparr>
      \<lparr>shares = lr_shares e, lp_tweak = lr_tweak e\<rparr> t) (c_positions db) (filter ours ls)"
    using assms(1) by (auto simp: recover_with_def Let_def mine_def ours_def)
  have d: "distinct (map (\<lambda>e. \<lparr>rk_pubkey = br_pubkey e, rk_unit = br_unit e\<rparr>) (filter mine bs))"
    "distinct (map (\<lambda>e. \<lparr>lp_pool = lr_pool e, lp_owner = lr_pubkey e\<rparr>) (filter ours ls))"
    using assms(2,3) by (simp_all add: distinct_map_filter)
  show ?thesis
    unfolding db' using foldl_update_own [OF d(1), where val = br_tweak]
      foldl_update_own [OF d(2), where val = "\<lambda>e. \<lparr>shares = lr_shares e, lp_tweak = lr_tweak e\<rparr>"]
    by (auto intro!: foldl_update_other)
qed

theorem recover_restores_exactly_own_witness:
  "\<exists>db' summary. recover_with demo_derivation [] \<lparr>c_positions = [], c_recovered = []\<rparr>
      (Ok [\<lparr>br_tweak = [0, 0, 5], br_pubkey = [1], br_unit = 0, br_amount = 5\<rparr>] :: (BalanceRecoveryEntry list, unit) result)
      (Ok []) = Ok (db', summary) \<and>
    map_of (c_recovered db') \<lparr>rk_pubkey = [1], rk_unit = 0\<rparr> = Some [0, 0, 5] \<and>
    map_of (c_recovered db') \<lparr>rk_pubkey = [9], rk_unit = 0\<rparr> = None"
proof -
  let ?e = "\<lparr>br_tweak = [0, 0, 5], br_pubkey = [1], br_unit = 0, br_amount = 5\<rparr>"
  let ?db = "\<lparr>c_positions = [], c_recovered = []\<rparr>"
  obtain db' s where r: "recover_with demo_derivation [] ?db
      (Ok [?e] :: (BalanceRecoveryEntry list, unit) result) (Ok []) = Ok (db', s)"
    by (simp add: recover_with_def Let_def)
  then show ?thesis
    using recover_restores_exactly_own [OF r]
    by (simp add: matches_own_key_def check_tweak_def derive_keypair_def demo_derivation_def)
qed

definition balance_gone :: "claim_env \<Rightarrow> RecoveredBalanceKey \<Rightarrow> Tweak \<Rightarrow> bool" where
  "balance_gone E k t = (case read_before E k of
     Inr None \<Rightarrow> True
   | Inr (Some amt) \<Rightarrow> (case claim_result E k t amt of Inr _ \<Rightarrow> True | Inl _ \<Rightarrow> read_after E k = Inr None)
   | Inl _ \<Rightarrow> False)"

definition claim_accepted :: "claim_env \<Rightarrow> RecoveredBalanceKey \<Rightarrow> Tweak \<Rightarrow> bool" where
  "claim_accepted E k t = (case read_before E k of
     Inr (Some amt) \<Rightarrow> (case claim_result E k t amt of Inr _ \<Rightarrow> True | Inl _ \<Rightarrow> False)
   | _ \<Rightarrow> False)"

lemma claim_loop_spec:
  "claim_loop E ps (rows, c, es) = (rows', c', es') \<Longrightarrow>
   rows' = filter (\<lambda>(k, _). \<not> (\<exists>t. (k, t) \<in> set ps \<and> balance_gone E k t)) rows \<and>
   c' = c + length (filter (\<lambda>(k, t). claim_accepted E k t) ps) \<and>
   map fst es' = map fst es @ map fst (filter (\<lambda>(k, t). \<not> balance_gone E k t) ps)"
proof (induction ps arbitrary: rows c es)
  case (Cons p ps)
  obtain k t where p: "p = (k, t)" by (cases p)
  let ?rows = "if balance_gone E k t then AList.delete k rows else rows"
  let ?c = "if claim_accepted E k t then c + 1 else c"
  obtain es1 where "claim_loop E ps (?rows, ?c, es1) = (rows', c', es')"
    "map fst es1 = (if balance_gone E k t then map fst es else map fst es @ [k])"
    using Cons.prems unfolding p
    by (auto simp: balance_gone_def claim_accepted_def split: sum.splits option.splits)
  from Cons.IH [OF this(1)] this(2) show ?case
    unfolding p by (auto simp: AList.delete_eq filter_filter intro!: filter_cong)
qed auto

text \<open>
  Claiming recovered balances loses track of none: exactly the rows whose balance is gone (read
  as absent, claimed, or absent on the read after a failed claim) leave the table, every row that
  stays is reported with an error, in order, and the count is the number of accepted claims.
\<close>

theorem claim_pending_keeps_unclaimed:
  assumes "wf_table (c_recovered db)" and "claim_pending_balances E db = (db', claimed, errors)"
  shows "c_recovered db' = filter (\<lambda>(k, t). \<not> balance_gone E k t) (c_recovered db) \<and>
    map fst errors = map fst (c_recovered db') \<and>
    claimed = length (filter (\<lambda>(k, t). claim_accepted E k t) (c_recovered db))"
proof -
  obtain rows where l: "claim_loop E (c_recovered db) (c_recovered db, 0, []) = (rows, claimed, errors)"
    and db': "c_recovered db' = rows"
    using assms(2) by (auto simp: claim_pending_balances_def split: prod.splits)
  have "filter (\<lambda>(k, _). \<not> (\<exists>t. (k, t) \<in> set (c_recovered db) \<and> balance_gone E k t)) (c_recovered db) =
      filter (\<lambda>(k, t). \<not> balance_gone E k t) (c_recovered db)"
    using assms(1) by (intro filter_cong) (auto simp: wf_table_def dest: eq_key_imp_eq_value)
  then show ?thesis using claim_loop_spec [OF l] db' by simp
qed

theorem claim_pending_keeps_unclaimed_witness:
  "\<exists>db' claimed errors.
     claim_pending_balances \<lparr>read_before = (\<lambda>k. Inr (Some 5)), claim_result = (\<lambda>k t a. if rk_unit k = 0 then Inr () else Inl ''x''),
         read_after = (\<lambda>k. Inr (Some 5))\<rparr>
       \<lparr>c_positions = [],
        c_recovered = [(\<lparr>rk_pubkey = [1], rk_unit = 0\<rparr>, [1]), (\<lparr>rk_pubkey = [1], rk_unit = 1\<rparr>, [2])]\<rparr> = (db', claimed, errors) \<and>
     map fst errors = [\<lparr>rk_pubkey = [1], rk_unit = 1\<rparr>] \<and> claimed = 1"
proof -
  let ?E = "\<lparr>read_before = (\<lambda>k. Inr (Some 5)), claim_result = (\<lambda>k t a. if rk_unit k = 0 then Inr () else Inl ''x''),
         read_after = (\<lambda>k. Inr (Some 5))\<rparr>"
  let ?db = "\<lparr>c_positions = [],
        c_recovered = [(\<lparr>rk_pubkey = [1], rk_unit = 0\<rparr>, [1]), (\<lparr>rk_pubkey = [1], rk_unit = 1\<rparr>, [2])]\<rparr>"
  obtain db' c errs where r: "claim_pending_balances ?E ?db = (db', c, errs)" by (cases "claim_pending_balances ?E ?db")
  have "wf_table (c_recovered ?db)" by (simp add: wf_table_def)
  from claim_pending_keeps_unclaimed [OF this r] r show ?thesis
    by (simp add: balance_gone_def claim_accepted_def)
qed

end
