(* ===== verification/Keeper_Policy.thy ===== *)
theory Keeper_Policy
  imports Amm_Types "HOL-Library.Signed_Division"
begin

text \<open>
  The price keeper's decision, \<open>bin/amm-price-keeper/src/policy.rs\<close>: the deviation of the pool's
  price from the oracle in basis points, the deadband, the binary search for the largest trade that
  does not carry the price past the oracle, the clamps and the decision. Machine words are kept at
  their widths; a signed 128-bit value is an integer whose operations check its range. The lemmas
  show that the decision never panics, that the search finds the largest admissible trade, and what
  every trade respects.
\<close>

section \<open>Definitions\<close>

definition DECIMAL_GAP :: u128 where
  "DECIMAL_GAP = 100000000000"

record PoolState =
  unit_lo :: AmountUnit
  unit_hi :: AmountUnit
  res_lo :: u64
  res_hi :: u64
  pool_fee :: u16

record MinSwapIn =
  min_lo :: u64
  min_hi :: u64

record Balances =
  bal_lo :: u64
  bal_hi :: u64

record KeeperConfig =
  band_bps :: u64
  max_trade_micro_usd :: u128
  btc_floor_msat :: u64
  usdt_floor_micros :: u64

datatype Side = SellBtc | BuyBtc

datatype HoldReason =
    EmptyPool
  | HoldZeroReserve u64 u64
  | Unpriceable
  | BandBelowFee u64 u16
  | InBand int
  | NoSizeAvailable int
  | HoldBelowMinSwapIn AmountUnit u64 u64
  | HoldOutputRoundsToZero AmountUnit u64

datatype Decision =
    Hold HoldReason
  | Trade AmountUnit AmountUnit u64

fun is_warning :: "HoldReason \<Rightarrow> bool" where
  "is_warning (InBand _) = False"
| "is_warning (NoSizeAvailable _) = False"
| "is_warning _ = True"

record BandTooNarrow =
  narrow_band_bps :: u64
  narrow_fee_per_mille :: u16

definition check_band_exceeds_fee :: "u64 \<Rightarrow> u16 \<Rightarrow> (unit, BandTooNarrow) result" where
  "check_band_exceeds_fee band fee =
     and_then (mul_p (ucast fee) 10) (\<lambda>fee_bps.
       if band < fee_bps then Err \<lparr>narrow_band_bps = band, narrow_fee_per_mille = fee\<rparr> else Ok ())"

definition pool_price_micro_usd :: "u64 \<Rightarrow> u64 \<Rightarrow> (u128 option, 'e) result" where
  "pool_price_micro_usd reserve_lo reserve_hi =
     (if reserve_lo = 0 then Ok None
      else and_then (mul_p (ucast reserve_hi) DECIMAL_GAP) (\<lambda>scaled.
           and_then (div_p scaled (ucast reserve_lo)) (\<lambda>price. Ok (Some price))))"

text \<open>Signed 128-bit arithmetic, on integers.\<close>

definition try_i128 :: "u128 \<Rightarrow> int option" where
  "try_i128 w = (if uint w < 2 ^ 127 then Some (uint w) else None)"

definition i128_sub :: "int \<Rightarrow> int \<Rightarrow> (int, 'e) result" where
  "i128_sub a b = (if - (2 ^ 127) \<le> a - b \<and> a - b < 2 ^ 127 then Ok (a - b) else Panic)"

definition i128_saturating_mul :: "int \<Rightarrow> int \<Rightarrow> int" where
  "i128_saturating_mul a b = max (- (2 ^ 127)) (min (2 ^ 127 - 1) (a * b))"

definition i128_div :: "int \<Rightarrow> int \<Rightarrow> (int, 'e) result" where
  "i128_div a b = (if b = 0 \<or> (a = - (2 ^ 127) \<and> b = - 1) then Panic else Ok (a sdiv b))"

definition dev_bps :: "u64 \<Rightarrow> u64 \<Rightarrow> u128 \<Rightarrow> (int option, 'e) result" where
  "dev_bps reserve_lo reserve_hi oracle_micro =
     (case checked_mul (ucast reserve_lo) oracle_micro of
        None \<Rightarrow> Ok None
      | Some oracle_side \<Rightarrow>
          if oracle_side = 0 then Ok None
          else (case checked_mul (ucast reserve_hi) DECIMAL_GAP of
                  None \<Rightarrow> Ok None
                | Some pool_side \<Rightarrow>
                    (case try_i128 pool_side of
                       None \<Rightarrow> Ok None
                     | Some pool_i \<Rightarrow>
                         (case try_i128 oracle_side of
                            None \<Rightarrow> Ok None
                          | Some denominator \<Rightarrow>
                              and_then (i128_sub pool_i denominator) (\<lambda>numerator.
                              and_then (i128_div (i128_saturating_mul numerator 10000) denominator) (\<lambda>d.
                                Ok (Some d)))))))"

fun reserves_for :: "Side \<Rightarrow> PoolState \<Rightarrow> u64 \<times> u64" where
  "reserves_for SellBtc pool = (res_lo pool, res_hi pool)"
| "reserves_for BuyBtc pool = (res_hi pool, res_lo pool)"

definition max_trade_cap :: "Side \<Rightarrow> u128 \<Rightarrow> u128 \<Rightarrow> (u64, 'e) result" where
  "max_trade_cap side max_usd oracle_micro =
     (case side of
        BuyBtc \<Rightarrow> Ok (case try_into max_usd of Some c \<Rightarrow> c | None \<Rightarrow> - 1)
      | SellBtc \<Rightarrow>
          if oracle_micro = 0 then Ok 0
          else and_then (div_p (saturating_mul max_usd DECIMAL_GAP) oracle_micro) (\<lambda>cap.
            Ok (case try_into cap of Some c \<Rightarrow> c | None \<Rightarrow> - 1)))"

definition crosses_target :: "Side \<Rightarrow> PoolState \<Rightarrow> u64 \<Rightarrow> u128 \<Rightarrow> (bool, 'e) result" where
  "crosses_target side pool dx oracle_micro =
     (case reserves_for side pool of (reserve_in, reserve_out) \<Rightarrow>
        (case amount_out reserve_in reserve_out dx (pool_fee pool) of
           Panic \<Rightarrow> Panic
         | Err ZeroAmount \<Rightarrow> Ok False
         | Err OutputRoundsToZero \<Rightarrow> Ok False
         | Err _ \<Rightarrow> Ok True
         | Ok out \<Rightarrow>
             (case (checked_add reserve_in dx, checked_sub reserve_out out) of
                (Some reserve_in_new, Some reserve_out_new) \<Rightarrow>
                  (case (case side of SellBtc \<Rightarrow> (reserve_in_new, reserve_out_new)
                                    | BuyBtc \<Rightarrow> (reserve_out_new, reserve_in_new)) of
                     (reserve_lo, reserve_hi) \<Rightarrow>
                       (case (checked_mul (ucast reserve_hi) DECIMAL_GAP, checked_mul (ucast reserve_lo) oracle_micro) of
                          (Some pool_side, Some oracle_side) \<Rightarrow>
                            (case side of
                               SellBtc \<Rightarrow> Ok (pool_side < oracle_side)
                             | BuyBtc \<Rightarrow> Ok (pool_side > oracle_side))
                        | _ \<Rightarrow> Ok True))
              | _ \<Rightarrow> Ok True)))"

lemma and_then_cong [fundef_cong]:
  "m = m' \<Longrightarrow> (\<And>x. m' = Ok x \<Longrightarrow> f x = f' x) \<Longrightarrow> and_then m f = and_then m' f'"
  by (cases m') (auto simp: and_then_def)

text \<open>The binary search of \<open>largest_non_crossing\<close>, from a range and the best size so far.\<close>

function search :: "Side \<Rightarrow> PoolState \<Rightarrow> u128 \<Rightarrow> u64 \<Rightarrow> u64 \<Rightarrow> u64 \<Rightarrow> (u64, 'e) result" where
  "search side pool oracle_micro low high best =
     (if low \<le> high then
        and_then (sub_p high low) (\<lambda>width.
        and_then (add_p low (width div 2)) (\<lambda>mid.
        and_then (crosses_target side pool mid oracle_micro) (\<lambda>crosses.
          if crosses then and_then (sub_p mid 1) (\<lambda>high'. search side pool oracle_micro low high' best)
          else and_then (add_p mid 1) (\<lambda>low'. search side pool oracle_micro low' high mid))))
      else Ok best)"
  by pat_completeness auto

lemma search_mid:
  fixes low high width mid :: u64
  assumes "low \<le> high" and "sub_p high low = (Ok width :: (u64, 'e) result)"
    and "add_p low (width div 2) = (Ok mid :: (u64, 'e) result)"
  shows "unat low \<le> unat mid" and "unat mid \<le> unat high"
  using assms by (auto simp: op_p_Ok unat_div word_order)

termination search
proof (relation "measure (\<lambda>(_, _, _, low, high, _). unat high + 1 - unat low)", goal_cases)
  case (2 side pool p low high best width mid c h)
  note m = search_mid [OF 2(1,2,3)]
  have "unat h + 1 = unat mid" using 2(6) by (auto simp: op_p_Ok)
  then show ?case using m 2(1) by (simp add: word_order)
next
  case (3 side pool p low high best width mid c l)
  note m = search_mid [OF 3(1,2,3)]
  have "unat l = unat mid + 1" using 3(6) by (auto simp: op_p_Ok)
  then show ?case using m 3(1) by (simp add: word_order)
qed simp

declare search.simps [simp del]

definition largest_non_crossing :: "Side \<Rightarrow> PoolState \<Rightarrow> u128 \<Rightarrow> (u64, 'e) result" where
  "largest_non_crossing side pool oracle_micro =
     (case reserves_for side pool of (reserve_in, _) \<Rightarrow>
        search side pool oracle_micro 1 (saturating_sub MAX_RESERVE reserve_in) 0)"

text \<open>\<open>decide\<close> once the direction is known: the clamps, the dust rule and the check against the curve.\<close>

definition size_trade ::
  "Side \<Rightarrow> PoolState \<Rightarrow> MinSwapIn \<Rightarrow> u128 \<Rightarrow> Balances \<Rightarrow> KeeperConfig \<Rightarrow> int \<Rightarrow> (Decision, 'e) result" where
  "size_trade side pool mins oracle_micro balances cfg deviation =
     (case (case side of SellBtc \<Rightarrow> (unit_lo pool, unit_hi pool) | BuyBtc \<Rightarrow> (unit_hi pool, unit_lo pool)) of
        (u_in, u_out) \<Rightarrow>
      (case reserves_for side pool of (reserve_in, reserve_out) \<Rightarrow>
      (case (case side of SellBtc \<Rightarrow> (btc_floor_msat cfg, bal_lo balances, min_lo mins)
                        | BuyBtc \<Rightarrow> (usdt_floor_micros cfg, bal_hi balances, min_hi mins)) of
        (floor_in, balance, min_in) \<Rightarrow>
      and_then (largest_non_crossing side pool oracle_micro) (\<lambda>largest.
      if largest = 0 then Ok (Hold (NoSizeAvailable deviation))
      else and_then (max_trade_cap side (max_trade_micro_usd cfg) oracle_micro) (\<lambda>cap.
      (let amt_in = min (min largest cap) (saturating_sub balance floor_in) in
       if amt_in < min_in then Ok (Hold (HoldBelowMinSwapIn u_in amt_in min_in))
       else (case amount_out reserve_in reserve_out amt_in (pool_fee pool) of
               Panic \<Rightarrow> Panic
             | Err _ \<Rightarrow> Ok (Hold (HoldOutputRoundsToZero u_in amt_in))
             | Ok _ \<Rightarrow> Ok (Trade u_in u_out amt_in))))))))"

definition decide :: "PoolState \<Rightarrow> MinSwapIn \<Rightarrow> u128 \<Rightarrow> Balances \<Rightarrow> KeeperConfig \<Rightarrow> (Decision, 'e) result" where
  "decide pool mins oracle_micro balances cfg =
     (if res_lo pool = 0 \<and> res_hi pool = 0 then Ok (Hold EmptyPool)
      else if res_lo pool = 0 \<or> res_hi pool = 0 then Ok (Hold (HoldZeroReserve (res_lo pool) (res_hi pool)))
      else (case check_band_exceeds_fee (band_bps cfg) (pool_fee pool) of
        Panic \<Rightarrow> Panic
      | Err error \<Rightarrow> Ok (Hold (BandBelowFee (narrow_band_bps error) (narrow_fee_per_mille error)))
      | Ok _ \<Rightarrow>
      and_then (dev_bps (res_lo pool) (res_hi pool) oracle_micro) (\<lambda>dev.
      (case dev of
        None \<Rightarrow> Ok (Hold Unpriceable)
      | Some deviation \<Rightarrow>
      (let band = uint (band_bps cfg) in
       if deviation > band then size_trade SellBtc pool mins oracle_micro balances cfg deviation
       else if deviation < - band then size_trade BuyBtc pool mins oracle_micro balances cfg deviation
       else Ok (Hold (InBand deviation)))))))"

definition apply_trade :: "PoolState \<Rightarrow> AmountUnit \<Rightarrow> u64 \<Rightarrow> (u64 \<times> u64) option" where
  "apply_trade pool u_in amt_in =
     (if u_in \<noteq> unit_lo pool \<and> u_in \<noteq> unit_hi pool then None
      else let side = (if u_in = unit_lo pool then SellBtc else BuyBtc) in
      (case reserves_for side pool of (reserve_in, reserve_out) \<Rightarrow>
        (case amount_out reserve_in reserve_out amt_in (pool_fee pool) of
           Ok out \<Rightarrow>
             (case (checked_add reserve_in amt_in, checked_sub reserve_out out) of
                (Some reserve_in_new, Some reserve_out_new) \<Rightarrow>
                  Some (case side of SellBtc \<Rightarrow> (reserve_in_new, reserve_out_new)
                                   | BuyBtc \<Rightarrow> (reserve_out_new, reserve_in_new))
              | _ \<Rightarrow> None)
         | _ \<Rightarrow> None)))"

section \<open>The search\<close>

text \<open>
  Crossing as a condition on natural numbers: trading \<open>dx\<close> into reserves \<open>ri\<close>, \<open>ro\<close> takes the price
  past the oracle.
\<close>

definition passes_oracle :: "Side \<Rightarrow> nat \<Rightarrow> nat \<Rightarrow> nat \<Rightarrow> nat \<Rightarrow> nat \<Rightarrow> bool" where
  "passes_oracle side ri ro f p dx =
     (let y = curve_out ri ro dx f in
      0 < y \<and> (case side of
        SellBtc \<Rightarrow> (ro - y) * 100000000000 < (ri + dx) * p
      | BuyBtc \<Rightarrow> (ri + dx) * 100000000000 > (ro - y) * p))"

lemma unat_DECIMAL_GAP [simp]: "unat DECIMAL_GAP = 100000000000"
  by (simp add: DECIMAL_GAP_def)

lemma crosses_target_total: "\<exists>c. crosses_target side pool dx p = Ok c"
  by (cases "amount_out (fst (reserves_for side pool)) (snd (reserves_for side pool)) dx (pool_fee pool)")
    (auto simp: crosses_target_def split: prod.splits CurveError.splits option.splits Side.splits)

lemma fits_u128:
  assumes "unat (r :: u64) \<le> 2 ^ 58" and "unat (p :: u128) \<le> 10 ^ 18"
  obtains w where "checked_mul (ucast r) p = Some w" and "unat w = unat r * unat p"
proof -
  have "unat r * unat p < 2 ^ 128"
    by (rule mult_bound [of _ "2 ^ 58" _ "10 ^ 18"]) (use assms in simp_all)
  then have "checked_mul (ucast r) p \<noteq> None" by (simp add: checked_mul_None)
  then show ?thesis using that by (auto simp: checked_mul_Some)
qed

lemma crosses_target_eq:
  assumes r: "reserves_for side pool = (ri, ro)"
    and "0 < unat ri" and "0 < unat ro" and "unat ro \<le> 2 ^ 58" and "unat (pool_fee pool) < 1000"
    and "0 < unat dx" and "unat ri + unat dx \<le> 2 ^ 58" and p: "unat p \<le> 10 ^ 18"
  shows "crosses_target side pool dx p = Ok (passes_oracle side (unat ri) (unat ro) (unat (pool_fee pool)) (unat p) (unat dx))"
proof -
  let ?y = "curve_out (unat ri) (unat ro) (unat dx) (unat (pool_fee pool))"
  have less: "?y < unat ro" using curve.out_less assms(2,3) by blast
  show ?thesis
  proof (cases "?y = 0")
    case True
    then have "amount_out ri ro dx (pool_fee pool) = Err OutputRoundsToZero"
      using assms by (simp add: amount_out_eq word_eq_unat)
    then show ?thesis using True r by (simp add: crosses_target_def passes_oracle_def)
  next
    case False
    have y: "unat (of_nat ?y :: u64) = ?y" using less unat_u64 [of ro] by (simp add: unat_of_nat)
    have out: "amount_out ri ro dx (pool_fee pool) = Ok (of_nat ?y)"
      using assms False by (simp add: amount_out_eq word_eq_unat)
    obtain rin where rin: "checked_add ri dx = Some rin" "unat rin = unat ri + unat dx"
      using assms(7) by (cases "checked_add ri dx") (auto simp: checked_add_None checked_add_Some)
    obtain rout where rout: "checked_sub ro (of_nat ?y) = Some rout" "unat rout = unat ro - ?y"
      using less y by (cases "checked_sub ro (of_nat ?y)") (auto simp: checked_sub_None checked_sub_Some)
    have caps: "unat rin \<le> 2 ^ 58" "unat rout \<le> 2 ^ 58" using rin(2) rout(2) assms by simp_all
    have gap: "unat DECIMAL_GAP \<le> 10 ^ 18" by simp
    obtain a b c d where
      "checked_mul (ucast rin) DECIMAL_GAP = Some a" "unat a = unat rin * unat DECIMAL_GAP"
      "checked_mul (ucast rout) DECIMAL_GAP = Some b" "unat b = unat rout * unat DECIMAL_GAP"
      "checked_mul (ucast rin) p = Some c" "unat c = unat rin * unat p"
      "checked_mul (ucast rout) p = Some d" "unat d = unat rout * unat p"
      using fits_u128 [OF caps(1) gap] fits_u128 [OF caps(2) gap] fits_u128 [OF caps(1) p] fits_u128 [OF caps(2) p]
      by metis
    with r out rin rout False show ?thesis
      by (cases side) (auto simp: crosses_target_def passes_oracle_def Let_def word_less_nat_alt)
  qed
qed

lemma passes_oracle_mono:
  assumes "a \<le> b" and "passes_oracle side ri ro f p a"
  shows "passes_oracle side ri ro f p b"
proof -
  have y: "curve_out ri ro a f \<le> curve_out ri ro b f" using curve.out_mono [OF assms(1)] .
  have "(ro - curve_out ri ro b f) * k \<le> (ro - curve_out ri ro a f) * k"
    and "(ri + a) * k \<le> (ri + b) * k" for k
    using y assms(1) by (auto intro!: mult_le_mono1)
  note this [of p] this [of 100000000000]
  with assms(2) y show ?thesis
    unfolding passes_oracle_def Let_def by (cases side; simp only: Side.case; linarith)
qed

lemma search_step:
  fixes low high :: u64
  assumes "low \<le> high" and "1 \<le> unat low" and "unat high < 2 ^ 63"
  obtains width mid where "sub_p high low = (Ok width :: (u64, 'e) result)"
    and "add_p low (width div 2) = (Ok mid :: (u64, 'e) result)"
    and "sub_p mid 1 = (Ok (mid - 1) :: (u64, 'e) result)" and "unat (mid - 1) + 1 = unat mid"
    and "add_p mid 1 = (Ok (mid + 1) :: (u64, 'e) result)" and "unat (mid + 1) = unat mid + 1"
    and "unat low \<le> unat mid" and "unat mid \<le> unat high"
proof -
  have le: "unat low \<le> unat high" using assms(1) by (simp add: word_order)
  obtain width where w: "sub_p high low = (Ok width :: (u64, 'e) result)" "unat width = unat high - unat low"
    using op_p_returns(2) [of low high, where 'e = 'e] le by auto
  have "unat low + (unat high - unat low) div 2 < 2 ^ 64" using le assms(3) by simp
  then obtain mid where m: "add_p low (width div 2) = (Ok mid :: (u64, 'e) result)"
      "unat mid = unat low + (unat high - unat low) div 2"
    using op_p_returns(1) [of low "width div 2", where 'e = 'e] w(2) by (auto simp: unat_div)
  have mid: "unat low \<le> unat mid" "unat mid \<le> unat high" using m(2) le by auto
  obtain h where h: "sub_p mid 1 = (Ok h :: (u64, 'e) result)" "unat h + 1 = unat mid"
    using op_p_returns(2) [of 1 mid, where 'e = 'e] mid assms(2) by auto
  obtain l where l: "add_p mid 1 = (Ok l :: (u64, 'e) result)" "unat l = unat mid + 1"
    using op_p_returns(1) [of mid 1, where 'e = 'e] mid assms(3) by auto
  have "h = mid - 1" using h(1) by (simp add: sub_p_def checked_sub_def split: if_splits)
  moreover have "l = mid + 1" using l(1) by (simp add: add_p_def checked_add_def split: if_splits)
  ultimately show ?thesis using that [OF w(1) m(1)] h l mid by simp
qed

text \<open>
  The search returns the previous best or a size of its range that does not cross; when crossing is
  monotone, no size of the range above the answer is admissible.
\<close>

lemma search_spec:
  assumes "\<And>d. unat low \<le> unat d \<Longrightarrow> unat d \<le> unat high \<Longrightarrow>
      crosses_target side pool d p = (Ok (X (unat d)) :: (bool, 'e) result)"
    and "1 \<le> unat low" and "unat high < 2 ^ 63"
  shows "\<exists>b. search side pool p low high best = (Ok b :: (u64, 'e) result) \<and>
    (b = best \<or> unat low \<le> unat b \<and> unat b \<le> unat high \<and> \<not> X (unat b)) \<and>
    ((\<forall>m n. m \<le> n \<longrightarrow> X m \<longrightarrow> X n) \<longrightarrow> (\<forall>d. unat low \<le> d \<and> d \<le> unat high \<and> \<not> X d \<longrightarrow> d \<le> unat b))"
  using assms
proof (induction "unat high + 1 - unat low" arbitrary: low high best rule: less_induct)
  case (less low high best)
  show ?case
  proof (cases "low \<le> high")
    case False
    then show ?thesis by (simp add: search.simps [of _ _ _ low] word_order)
  next
    case True
    obtain width mid where s: "sub_p high low = (Ok width :: (u64, 'e) result)"
      "add_p low (width div 2) = (Ok mid :: (u64, 'e) result)"
      "sub_p mid 1 = (Ok (mid - 1) :: (u64, 'e) result)" "unat (mid - 1) + 1 = unat mid"
      "add_p mid 1 = (Ok (mid + 1) :: (u64, 'e) result)" "unat (mid + 1) = unat mid + 1"
      "unat low \<le> unat mid" "unat mid \<le> unat high"
      using search_step [OF True less.prems(2,3)] by blast
    have c: "crosses_target side pool mid p = (Ok (X (unat mid)) :: (bool, 'e) result)"
      using less.prems(1) s(7,8) .
    show ?thesis
    proof (cases "X (unat mid)")
      case X: True
      then have eq: "search side pool p low high best = (search side pool p low (mid - 1) best :: (u64, 'e) result)"
        using True s(1-3) c by (simp add: search.simps [of _ _ _ low high])
      have m1: "unat (mid - 1) + 1 - unat low < unat high + 1 - unat low" and b1: "unat (mid - 1) < 2 ^ 63"
        using s(4,7,8) less.prems(3) by linarith+
      have c1: "crosses_target side pool d p = (Ok (X (unat d)) :: (bool, 'e) result)"
        if "unat low \<le> unat d" "unat d \<le> unat (mid - 1)" for d
        by (rule less.prems(1)) (use that s(4,8) in linarith)+
      obtain b where b: "search side pool p low (mid - 1) best = (Ok b :: (u64, 'e) result)"
        "b = best \<or> unat low \<le> unat b \<and> unat b \<le> unat (mid - 1) \<and> \<not> X (unat b)"
        "(\<forall>m n. m \<le> n \<longrightarrow> X m \<longrightarrow> X n) \<longrightarrow>
          (\<forall>d. unat low \<le> d \<and> d \<le> unat (mid - 1) \<and> \<not> X d \<longrightarrow> d \<le> unat b)"
        using less.hyps [OF m1 c1 less.prems(2) b1] by blast
      have "d \<le> unat (mid - 1)" if "\<forall>m n. m \<le> n \<longrightarrow> X m \<longrightarrow> X n" "\<not> X d" for d
      proof (rule ccontr)
        assume "\<not> d \<le> unat (mid - 1)"
        then have "unat mid \<le> d" using s(4) by linarith
        then show False using that X by blast
      qed
      then show ?thesis using b s(4,8) unfolding eq by (intro exI [of _ b]) auto
    next
      case X: False
      then have eq: "search side pool p low high best = (search side pool p (mid + 1) high mid :: (u64, 'e) result)"
        using True s(1,2,5) c by (simp add: search.simps [of _ _ _ low high])
      have m1: "unat high + 1 - unat (mid + 1) < unat high + 1 - unat low" and l1: "1 \<le> unat (mid + 1)"
        using s(6,7,8) by linarith+
      have c1: "crosses_target side pool d p = (Ok (X (unat d)) :: (bool, 'e) result)"
        if "unat (mid + 1) \<le> unat d" "unat d \<le> unat high" for d
        by (rule less.prems(1)) (use that s(6,7) in linarith)+
      obtain b where b: "search side pool p (mid + 1) high mid = (Ok b :: (u64, 'e) result)"
        "b = mid \<or> unat (mid + 1) \<le> unat b \<and> unat b \<le> unat high \<and> \<not> X (unat b)"
        "(\<forall>m n. m \<le> n \<longrightarrow> X m \<longrightarrow> X n) \<longrightarrow>
          (\<forall>d. unat (mid + 1) \<le> d \<and> d \<le> unat high \<and> \<not> X d \<longrightarrow> d \<le> unat b)"
        using less.hyps [OF m1 c1 l1 less.prems(3)] by blast
      have mb: "unat mid \<le> unat b" and "b = best \<or> unat low \<le> unat b \<and> unat b \<le> unat high \<and> \<not> X (unat b)"
        using b(2) s(6-8) X by auto
      moreover have "d \<le> unat b" if "\<forall>m n. m \<le> n \<longrightarrow> X m \<longrightarrow> X n" "d \<le> unat high" "\<not> X d" for d
        using b(3) that mb s(6) by (cases "d \<le> unat mid") auto
      ultimately show ?thesis using b(1) unfolding eq by (intro exI [of _ b]) auto
    qed
  qed
qed

lemma search_total:
  assumes "1 \<le> unat low" and "unat high < 2 ^ 63"
  shows "\<exists>b. search side pool p low high best = (Ok b :: (u64, 'e) result)"
proof -
  let ?X = "\<lambda>n. crosses_target side pool (of_nat n) p = (Ok True :: (bool, 'e) result)"
  have "crosses_target side pool d p = (Ok (?X (unat d)) :: (bool, 'e) result)" for d
    using crosses_target_total [of side pool d p, where 'a = 'e] by auto
  from search_spec [of low high side pool p ?X best, OF this assms] show ?thesis by blast
qed

lemma largest_total: "\<exists>b. largest_non_crossing side pool p = (Ok b :: (u64, 'e) result)"
  unfolding largest_non_crossing_def
  by (cases "reserves_for side pool") (auto intro!: search_total simp: unat_saturating_sub)

text \<open>
  On a pool the curve accepts and a price the oracle accepts, the search finds the largest executable
  size whose trade does not pass the oracle.
\<close>

lemma largest_spec:
  assumes r: "reserves_for side pool = (ri, ro)"
    and "0 < unat ri" and "0 < unat ro" and "unat ri \<le> 2 ^ 58" and "unat ro \<le> 2 ^ 58"
    and "unat (pool_fee pool) < 1000" and "unat p \<le> 10 ^ 18"
    and l: "largest_non_crossing side pool p = (Ok b :: (u64, 'e) result)"
  shows "unat ri + unat b \<le> 2 ^ 58"
    and "\<not> passes_oracle side (unat ri) (unat ro) (unat (pool_fee pool)) (unat p) (unat b)"
    and "0 < d \<Longrightarrow> unat ri + d \<le> 2 ^ 58 \<Longrightarrow>
      \<not> passes_oracle side (unat ri) (unat ro) (unat (pool_fee pool)) (unat p) d \<Longrightarrow> d \<le> unat b"
proof -
  let ?X = "passes_oracle side (unat ri) (unat ro) (unat (pool_fee pool)) (unat p)"
  let ?h = "saturating_sub MAX_RESERVE ri"
  have h: "unat ?h = 2 ^ 58 - unat ri" by simp
  have c: "crosses_target side pool d p = (Ok (?X (unat d)) :: (bool, 'e) result)"
    if "unat (1 :: u64) \<le> unat d" "unat d \<le> unat ?h" for d
    by (rule crosses_target_eq [OF r]) (use assms(2-7) that h in auto)
  have mono: "\<forall>m n. m \<le> n \<longrightarrow> ?X m \<longrightarrow> ?X n" by (blast intro: passes_oracle_mono)
  have lim: "unat ?h < 2 ^ 63" using h by simp
  have eq: "search side pool p 1 ?h 0 = (Ok b :: (u64, 'e) result)"
    using l r by (simp add: largest_non_crossing_def)
  have spec: "b = 0 \<or> unat b \<le> unat ?h \<and> \<not> ?X (unat b)" "\<forall>d. 1 \<le> d \<and> d \<le> unat ?h \<and> \<not> ?X d \<longrightarrow> d \<le> unat b"
    using search_spec [of 1 ?h side pool p ?X 0, OF c _ lim] mono unfolding eq by auto
  show "unat ri + unat b \<le> 2 ^ 58" using spec(1) h assms(4) by auto
  show "\<not> ?X (unat b)" using spec(1) by (auto simp: passes_oracle_def curve_out_def Let_def)
  show "d \<le> unat b" if "0 < d" "unat ri + d \<le> 2 ^ 58" "\<not> ?X d" using spec(2) that h by auto
qed

section \<open>The deviation\<close>

lemma sdiv_eq: "0 < b \<Longrightarrow> a sdiv b = (if 0 \<le> a then a div b else - ((- a) div b))" for a b :: int
  by (auto simp: signed_divide_int_def sgn_if)

lemma sdiv_above:
  fixes a b k :: int
  assumes "0 < b" and "0 \<le> k" and "k < a sdiv b"
  shows "(k + 1) * b \<le> a"
proof -
  have "0 \<le> (- a) div b" if "\<not> 0 \<le> a" using that assms(1) by (simp add: pos_imp_zdiv_nonneg_iff)
  then have pos: "0 \<le> a" "k + 1 \<le> a div b"
    using assms by (auto simp: sdiv_eq split: if_splits)
  have "(k + 1) * b \<le> (a div b) * b" using pos(2) assms(1) by simp
  also have "\<dots> \<le> a" using assms(1) by (simp add: minus_mod_eq_div_mult [symmetric])
  finally show ?thesis .
qed

lemma sdiv_below:
  fixes a b k :: int
  assumes "0 < b" and "0 \<le> k" and "a sdiv b < - k"
  shows "(k + 1) * b \<le> - a"
proof -
  have "0 \<le> a div b" if "0 \<le> a" using that assms(1) by (simp add: pos_imp_zdiv_nonneg_iff)
  then have "\<not> 0 \<le> a" using assms by (auto simp: sdiv_eq split: if_splits)
  then have "k < (- a) sdiv b" using assms(1,3) by (simp add: sdiv_eq split: if_splits)
  from sdiv_above [OF assms(1,2) this] show ?thesis .
qed

lemma sdiv_within:
  fixes a b k :: int
  assumes "0 < b" and "- k \<le> a sdiv b" and "a sdiv b \<le> k"
  shows "\<bar>a\<bar> < (k + 1) * b"
proof -
  have "\<bar>a\<bar> div b \<le> k" using assms by (auto simp: sdiv_eq split: if_splits)
  then have "(\<bar>a\<bar> div b) * b \<le> k * b" using assms(1) by simp
  moreover have "\<bar>a\<bar> = (\<bar>a\<bar> div b) * b + \<bar>a\<bar> mod b" by simp
  moreover have "\<bar>a\<bar> mod b < b" using assms(1) by simp
  ultimately have "\<bar>a\<bar> < k * b + b" by linarith
  then show ?thesis by (simp add: distrib_right)
qed

lemma try_i128_Some: "try_i128 w = Some i \<Longrightarrow> i = int (unat w) \<and> 0 \<le> i \<and> i < 2 ^ 127"
  by (auto simp: try_i128_def split: if_splits)

lemma i128_ops:
  "0 \<le> a \<Longrightarrow> a < 2 ^ 127 \<Longrightarrow> 0 \<le> b \<Longrightarrow> b < 2 ^ 127 \<Longrightarrow> i128_sub a b = Ok (a - b)"
  "0 < b \<Longrightarrow> i128_div a b = Ok (a sdiv b)"
  by (auto simp: i128_sub_def i128_div_def)

lemma dev_bps_total: "\<exists>d. dev_bps rl rh p = (Ok d :: (int option, 'e) result)"
proof (cases "\<exists>w v a b. checked_mul (ucast rl) p = Some w \<and> w \<noteq> 0 \<and>
    checked_mul (ucast rh) DECIMAL_GAP = Some v \<and> try_i128 v = Some a \<and> try_i128 w = Some b")
  case True
  then obtain w v a b where m: "checked_mul (ucast rl) p = Some w" "w \<noteq> 0"
    "checked_mul (ucast rh) DECIMAL_GAP = Some v" "try_i128 v = Some a" "try_i128 w = Some b" by blast
  have "b \<noteq> 0" using try_i128_Some [OF m(5)] m(2) by (auto simp: uint_0_iff)
  then have "0 < b" using try_i128_Some [OF m(5)] by linarith
  with m try_i128_Some [OF m(4)] try_i128_Some [OF m(5)] show ?thesis
    by (simp add: dev_bps_def i128_ops)
qed (force simp: dev_bps_def split: option.splits)

text \<open>
  A deviation beyond \<open>k\<close> basis points is a real one: saturation can only understate it. Without
  saturation the answer is the truncated quotient.
\<close>

lemma dev_bps_Some:
  assumes "dev_bps rl rh p = (Ok (Some d) :: (int option, 'e) result)"
  defines "n \<equiv> int (unat rh * 100000000000) - int (unat rl * unat p)" and "os \<equiv> int (unat rl * unat p)"
  shows "0 < os" and "0 \<le> k \<Longrightarrow> k < d \<Longrightarrow> (k + 1) * os \<le> n * 10000"
    and "0 \<le> k \<Longrightarrow> d < - k \<Longrightarrow> (k + 1) * os \<le> - (n * 10000)"
    and "\<bar>n * 10000\<bar> < 2 ^ 127 \<Longrightarrow> d = (n * 10000) sdiv os"
proof -
  obtain w v a b where m: "checked_mul (ucast rl) p = Some w" "w \<noteq> 0" "checked_mul (ucast rh) DECIMAL_GAP = Some v"
      "try_i128 v = Some a" "try_i128 w = Some b" "d = i128_saturating_mul (a - b) 10000 sdiv b"
    using assms(1) by (auto simp: dev_bps_def i128_sub_def i128_div_def result_eqs split: option.splits if_splits)
  have "unat w = unat rl * unat p" "unat v = unat rh * 100000000000"
    using m(1,3) by (auto simp: checked_mul_Some)
  then have b: "b = os" and a: "a - b = n"
    using try_i128_Some [OF m(4)] try_i128_Some [OF m(5)] by (metis n_def os_def)+
  show os: "0 < os"
    using m(2,5) b try_i128_Some [OF m(5)] by (auto simp: uint_0_iff less_le)
  have d: "d = i128_saturating_mul n 10000 sdiv os" using m(6) a b by simp
  note above = sdiv_above [OF os, of k "i128_saturating_mul n 10000"] and below = sdiv_below [OF os, of k "i128_saturating_mul n 10000"]
  show "(k + 1) * os \<le> n * 10000" if "0 \<le> k" "k < d"
  proof -
    have "(k + 1) * os \<le> i128_saturating_mul n 10000" using above that d by simp
    moreover have "0 < (k + 1) * os" using that(1) os by simp
    ultimately show ?thesis by (auto simp: i128_saturating_mul_def max_def min_def split: if_splits)
  qed
  show "(k + 1) * os \<le> - (n * 10000)" if "0 \<le> k" "d < - k"
  proof -
    have "(k + 1) * os \<le> - i128_saturating_mul n 10000" using below that d by simp
    moreover have "0 < (k + 1) * os" using that(1) os by simp
    ultimately show ?thesis by (auto simp: i128_saturating_mul_def max_def min_def split: if_splits)
  qed
  show "d = (n * 10000) sdiv os" if "\<bar>n * 10000\<bar> < 2 ^ 127"
    using d that by (simp add: i128_saturating_mul_def)
qed

section \<open>The decision\<close>

lemma check_band_no_panic: "check_band_exceeds_fee band fee \<noteq> Panic"
  using unat_u16 [of fee] by (auto simp: check_band_exceeds_fee_def result_eqs word_arith split: if_splits)

lemma max_trade_cap_total: "\<exists>c. max_trade_cap side m p = (Ok c :: (u64, 'e) result)"
proof (cases "side = SellBtc \<and> p \<noteq> 0")
  case True
  then obtain c where "div_p (saturating_mul m DECIMAL_GAP) p = (Ok c :: (u128, 'e) result)"
    using op_p_returns(4) [of p "saturating_mul m DECIMAL_GAP", where 'e = 'e] by (auto simp: word_eq_unat)
  with True show ?thesis by (simp add: max_trade_cap_def)
next
  case False
  then show ?thesis by (cases side) (auto simp: max_trade_cap_def)
qed

text \<open>What a side of the market trades: its units, the balance and floor it spends from, its dust limit.\<close>

fun side_units :: "Side \<Rightarrow> PoolState \<Rightarrow> AmountUnit \<times> AmountUnit" where
  "side_units SellBtc pool = (unit_lo pool, unit_hi pool)"
| "side_units BuyBtc pool = (unit_hi pool, unit_lo pool)"

fun side_limits :: "Side \<Rightarrow> MinSwapIn \<Rightarrow> Balances \<Rightarrow> KeeperConfig \<Rightarrow> u64 \<times> u64 \<times> u64" where
  "side_limits SellBtc mins bals cfg = (btc_floor_msat cfg, bal_lo bals, min_lo mins)"
| "side_limits BuyBtc mins bals cfg = (usdt_floor_micros cfg, bal_hi bals, min_hi mins)"

lemma size_trade_eq:
  "size_trade side pool mins p bals cfg dev =
     (case (side_units side pool, reserves_for side pool, side_limits side mins bals cfg) of
        ((ui, uo), (ri, ro), (fl, bal, mn)) \<Rightarrow>
      and_then (largest_non_crossing side pool p) (\<lambda>l.
      if l = 0 then Ok (Hold (NoSizeAvailable dev))
      else and_then (max_trade_cap side (max_trade_micro_usd cfg) p) (\<lambda>c.
      let a = min (min l c) (saturating_sub bal fl) in
      if a < mn then Ok (Hold (HoldBelowMinSwapIn ui a mn))
      else (case amount_out ri ro a (pool_fee pool) of
              Panic \<Rightarrow> Panic | Err _ \<Rightarrow> Ok (Hold (HoldOutputRoundsToZero ui a)) | Ok _ \<Rightarrow> Ok (Trade ui uo a)))))"
  by (induction side) (simp_all add: size_trade_def)

lemma size_trade_Trade:
  assumes "size_trade side pool mins p bals cfg dev = (Ok (Trade ui uo a) :: (Decision, 'e) result)"
  obtains l c ri ro fl bal mn y where
    "side_units side pool = (ui, uo)" "reserves_for side pool = (ri, ro)"
    "side_limits side mins bals cfg = (fl, bal, mn)"
    "largest_non_crossing side pool p = (Ok l :: (u64, 'e) result)" "l \<noteq> 0"
    "max_trade_cap side (max_trade_micro_usd cfg) p = (Ok c :: (u64, 'e) result)"
    "a = min (min l c) (saturating_sub bal fl)" "\<not> a < mn"
    "amount_out ri ro a (pool_fee pool) = Ok y"
proof -
  obtain u v ri ro fl bal mn where e: "side_units side pool = (u, v)" "reserves_for side pool = (ri, ro)"
    "side_limits side mins bals cfg = (fl, bal, mn)" by (metis prod_cases3 surj_pair)
  obtain l c where lc: "largest_non_crossing side pool p = (Ok l :: (u64, 'e) result)"
    "max_trade_cap side (max_trade_micro_usd cfg) p = (Ok c :: (u64, 'e) result)"
    using largest_total max_trade_cap_total by meson
  let ?a = "min (min l c) (saturating_sub bal fl)"
  have eq: "(if l = 0 then Ok (Hold (NoSizeAvailable dev)) else if ?a < mn then Ok (Hold (HoldBelowMinSwapIn u ?a mn))
      else (case amount_out ri ro ?a (pool_fee pool) of
        Panic \<Rightarrow> Panic | Err _ \<Rightarrow> Ok (Hold (HoldOutputRoundsToZero u ?a)) | Ok _ \<Rightarrow> Ok (Trade u v ?a))) =
      (Ok (Trade ui uo a) :: (Decision, 'e) result)"
    using assms unfolding size_trade_eq e lc by (simp add: Let_def cong: if_cong)
  then obtain y where "amount_out ri ro ?a (pool_fee pool) = Ok y"
    by (cases "amount_out ri ro ?a (pool_fee pool)") (auto split: if_splits)
  with eq that [OF _ e(2,3) lc(1) _ lc(2)] e(1) show ?thesis by (auto split: if_splits)
qed

lemma size_trade_returns:
  "\<exists>d. size_trade side pool mins p bals cfg dev = (Ok d :: (Decision, 'e) result)"
proof -
  obtain l c where "largest_non_crossing side pool p = (Ok l :: (u64, 'e) result)"
    "max_trade_cap side (max_trade_micro_usd cfg) p = (Ok c :: (u64, 'e) result)"
    using largest_total max_trade_cap_total by meson
  then show ?thesis
    unfolding size_trade_eq by (auto simp: Let_def split: result.splits prod.splits)
qed

lemma decide_returns: "\<exists>d. decide pool mins p bals cfg = (Ok d :: (Decision, 'e) result)"
proof -
  obtain d where "dev_bps (res_lo pool) (res_hi pool) p = (Ok d :: (int option, 'e) result)"
    using dev_bps_total by blast
  then show ?thesis
    using size_trade_returns
    by (auto simp: decide_def Let_def check_band_no_panic split: result.splits option.splits)
qed

lemma decide_Trade:
  assumes "decide pool mins p bals cfg = (Ok (Trade ui uo a) :: (Decision, 'e) result)"
  obtains side d where
    "dev_bps (res_lo pool) (res_hi pool) p = (Ok (Some d) :: (int option, 'e) result)"
    "side = SellBtc \<and> uint (band_bps cfg) < d \<or> side = BuyBtc \<and> d < - uint (band_bps cfg)"
    "size_trade side pool mins p bals cfg d = (Ok (Trade ui uo a) :: (Decision, 'e) result)"
proof -
  obtain dev where dev: "dev_bps (res_lo pool) (res_hi pool) p = (Ok dev :: (int option, 'e) result)"
    using dev_bps_total by blast
  show ?thesis
    using assms that unfolding decide_def dev
    by (auto simp: Let_def split: if_splits result.splits option.splits)
qed

lemma max_trade_cap_le:
  assumes "max_trade_cap side m p = (Ok c :: (u64, 'e) result)"
  shows "case side of SellBtc \<Rightarrow> unat c * unat p \<le> unat m * 100000000000 | BuyBtc \<Rightarrow> unat c \<le> unat m"
proof -
  have narrow: "unat (case try_into w of Some c \<Rightarrow> c | None \<Rightarrow> (- 1 :: u64)) \<le> unat w" for w :: u128
    using try_into_Some [of w, where 'b = 64] try_into_None [of w, where 'b = 64]
    by (auto simp: unat_minus_1 split: option.split)
  show ?thesis
  proof (cases side)
    case BuyBtc
    then show ?thesis using assms narrow [of m] by (auto simp: max_trade_cap_def)
  next
    case SellBtc
    show ?thesis
    proof (cases "p = 0")
      case False
      then obtain q :: u128 where q: "unat q = unat (saturating_mul m DECIMAL_GAP) div unat p"
          "c = (case try_into q of Some c \<Rightarrow> c | None \<Rightarrow> - 1)"
        using assms SellBtc by (auto simp: max_trade_cap_def result_eqs op_p_Ok)
      have "unat (saturating_mul m DECIMAL_GAP) \<le> unat m * 100000000000"
        by (simp add: unat_saturating_mul)
      moreover have "unat c * unat p \<le> unat q * unat p" using narrow [of q] q(2) by simp
      moreover have "unat q * unat p \<le> unat (saturating_mul m DECIMAL_GAP)" unfolding q(1) by simp
      ultimately have "unat c * unat p \<le> unat m * 100000000000" by linarith
      then show ?thesis using SellBtc by simp
    qed (use assms SellBtc in \<open>simp add: max_trade_cap_def\<close>)
  qed
qed

text \<open>What a sized trade respects, on either side.\<close>

lemma size_trade_respects:
  assumes "size_trade side pool mins p bals cfg dev = (Ok (Trade ui uo a) :: (Decision, 'e) result)"
    and "unat p \<le> 10 ^ 18"
  obtains ri ro fl bal mn y where "side_units side pool = (ui, uo)" "reserves_for side pool = (ri, ro)"
    "side_limits side mins bals cfg = (fl, bal, mn)" "amount_out ri ro a (pool_fee pool) = Ok y"
    "unat ri + unat a \<le> 2 ^ 58" "unat a + unat fl \<le> unat bal" "unat mn \<le> unat a"
    "case side of SellBtc \<Rightarrow> unat a * unat p \<le> unat (max_trade_micro_usd cfg) * 100000000000
       | BuyBtc \<Rightarrow> unat a \<le> unat (max_trade_micro_usd cfg)"
    "\<not> passes_oracle side (unat ri) (unat ro) (unat (pool_fee pool)) (unat p) (unat a)"
    "\<And>d. unat a < d \<Longrightarrow> unat ri + d \<le> 2 ^ 58 \<Longrightarrow>
      \<not> passes_oracle side (unat ri) (unat ro) (unat (pool_fee pool)) (unat p) d \<Longrightarrow>
      unat a + unat fl = unat bal \<or> max_trade_cap side (max_trade_micro_usd cfg) p = (Ok a :: (u64, 'e) result)"
proof -
  obtain l c ri ro fl bal mn y where t: "side_units side pool = (ui, uo)" "reserves_for side pool = (ri, ro)"
    "side_limits side mins bals cfg = (fl, bal, mn)"
    "largest_non_crossing side pool p = (Ok l :: (u64, 'e) result)" "l \<noteq> 0"
    "max_trade_cap side (max_trade_micro_usd cfg) p = (Ok c :: (u64, 'e) result)"
    "a = min (min l c) (saturating_sub bal fl)" "\<not> a < mn" "amount_out ri ro a (pool_fee pool) = Ok y"
    using size_trade_Trade [OF assms(1)] .
  note ok = t(9) [unfolded amount_out_Ok]
  have a: "unat a = min (min (unat l) (unat c)) (unat bal - unat fl)" using t(7) by simp
  note big = largest_spec [OF t(2) _ _ _ _ _ assms(2) t(4)]
  have l: "unat ri + unat l \<le> 2 ^ 58" "\<not> passes_oracle side (unat ri) (unat ro) (unat (pool_fee pool)) (unat p) (unat l)"
    using big(1,2) ok by simp_all
  have up: "d \<le> unat l" if "0 < d" "unat ri + d \<le> 2 ^ 58"
      "\<not> passes_oracle side (unat ri) (unat ro) (unat (pool_fee pool)) (unat p) d" for d
    by (rule big(3)) (use ok that in simp_all)
  have np: "\<not> passes_oracle side (unat ri) (unat ro) (unat (pool_fee pool)) (unat p) (unat a)"
    using l(2) passes_oracle_mono [of "unat a" "unat l"] a by auto
  have ac: "unat a \<le> unat c" using a by simp
  have cap: "case side of SellBtc \<Rightarrow> unat a * unat p \<le> unat (max_trade_micro_usd cfg) * 100000000000
       | BuyBtc \<Rightarrow> unat a \<le> unat (max_trade_micro_usd cfg)"
    using max_trade_cap_le [OF t(6)] ac mult_le_mono1 [OF ac, of "unat p"]
    by (induction side) (unfold Side.case, linarith+)
  have rest: "unat a + unat fl = unat bal \<or> max_trade_cap side (max_trade_micro_usd cfg) p = (Ok a :: (u64, 'e) result)"
    if "unat a < d" "unat ri + d \<le> 2 ^ 58"
      "\<not> passes_oracle side (unat ri) (unat ro) (unat (pool_fee pool)) (unat p) d" for d
  proof -
    have "unat a < unat l" using up [of d] that by linarith
    then have "unat a = unat c \<or> unat a = unat bal - unat fl" using a by linarith
    then have "a = c \<or> unat a + unat fl = unat bal" using ok by (auto simp: word_eq_unat)
    then show ?thesis using t(6) by blast
  qed
  have "unat ri + unat a \<le> 2 ^ 58" "unat a + unat fl \<le> unat bal"
    using a ok l(1) by linarith+
  moreover have "unat mn \<le> unat a" using t(8) by (simp add: word_order)
  ultimately show ?thesis by (rule that [OF t(1-3,9) _ _ _ cap np rest])
qed

lemma apply_trade_returns:
  assumes "amount_out ri ro a (pool_fee pool) = Ok y" and "reserves_for side pool = (ri, ro)"
    and "side_units side pool = (ui, uo)" and "unit_lo pool \<noteq> unit_hi pool" and "unat ri + unat a \<le> 2 ^ 58"
  obtains ri' ro' where "unat ri' = unat ri + unat a" "unat ro' = unat ro - unat y"
    "apply_trade pool ui a = Some (case side of SellBtc \<Rightarrow> (ri', ro') | BuyBtc \<Rightarrow> (ro', ri'))"
proof -
  have "unat y < unat ro" using assms(1) curve.out_less by (auto simp: amount_out_Ok)
  then obtain ri' ro' where "checked_add ri a = Some ri'" "unat ri' = unat ri + unat a"
    "checked_sub ro y = Some ro'" "unat ro' = unat ro - unat y"
    using assms(5) by (cases "checked_add ri a"; cases "checked_sub ro y")
      (auto simp: checked_add_Some checked_add_None checked_sub_Some checked_sub_None)
  with assms that [of ri' ro'] show ?thesis by (cases side) (auto simp: apply_trade_def)
qed

section \<open>Properties\<close>

text \<open>
  C31. Every trade the keeper decides is a bounded correction in the right direction: the pool was off
  by more than the band, the trade settles on the curve, moves the price towards the oracle without
  passing it, stays within the size cap at the oracle price, leaves the inventory floor untouched and
  meets the module's dust limit.
\<close>

theorem keeper_trade_is_bounded_correction:
  assumes "decide pool mins p bals cfg = (Ok (Trade ui uo a) :: (Decision, 'e) result)"
    and "unat p \<le> 10 ^ 18" and "unit_lo pool \<noteq> unit_hi pool"
  shows "\<exists>lo' hi'. apply_trade pool ui a = Some (lo', hi') \<and>
    (ui = unit_lo pool \<and> uo = unit_hi pool \<and>
     (uint (band_bps cfg) + 1) * int (unat (res_lo pool) * unat p) \<le>
       (int (unat (res_hi pool) * 10 ^ 11) - int (unat (res_lo pool) * unat p)) * 10000 \<and>
     unat lo' = unat (res_lo pool) + unat a \<and> unat hi' < unat (res_hi pool) \<and>
     unat lo' * unat p \<le> unat hi' * 10 ^ 11 \<and>
     unat a * unat p \<le> unat (max_trade_micro_usd cfg) * 10 ^ 11 \<and>
     unat a + unat (btc_floor_msat cfg) \<le> unat (bal_lo bals) \<and> unat (min_lo mins) \<le> unat a
    \<or> ui = unit_hi pool \<and> uo = unit_lo pool \<and>
     (uint (band_bps cfg) + 1) * int (unat (res_lo pool) * unat p) \<le>
       (int (unat (res_lo pool) * unat p) - int (unat (res_hi pool) * 10 ^ 11)) * 10000 \<and>
     unat hi' = unat (res_hi pool) + unat a \<and> unat lo' < unat (res_lo pool) \<and>
     unat hi' * 10 ^ 11 \<le> unat lo' * unat p \<and>
     unat a \<le> unat (max_trade_micro_usd cfg) \<and>
     unat a + unat (usdt_floor_micros cfg) \<le> unat (bal_hi bals) \<and> unat (min_hi mins) \<le> unat a)"
proof -
  obtain side d where d: "dev_bps (res_lo pool) (res_hi pool) p = (Ok (Some d) :: (int option, 'e) result)"
    "side = SellBtc \<and> uint (band_bps cfg) < d \<or> side = BuyBtc \<and> d < - uint (band_bps cfg)"
    "size_trade side pool mins p bals cfg d = (Ok (Trade ui uo a) :: (Decision, 'e) result)"
    using decide_Trade [OF assms(1)] .
  obtain ri ro fl bal mn y where t: "side_units side pool = (ui, uo)" "reserves_for side pool = (ri, ro)"
    "side_limits side mins bals cfg = (fl, bal, mn)" "amount_out ri ro a (pool_fee pool) = Ok y"
    "unat ri + unat a \<le> 2 ^ 58" "unat a + unat fl \<le> unat bal" "unat mn \<le> unat a"
    "case side of SellBtc \<Rightarrow> unat a * unat p \<le> unat (max_trade_micro_usd cfg) * 100000000000
       | BuyBtc \<Rightarrow> unat a \<le> unat (max_trade_micro_usd cfg)"
    "\<not> passes_oracle side (unat ri) (unat ro) (unat (pool_fee pool)) (unat p) (unat a)"
    using size_trade_respects [OF d(3) assms(2)] .
  obtain ri' ro' where r: "unat ri' = unat ri + unat a" "unat ro' = unat ro - unat y"
    "apply_trade pool ui a = Some (case side of SellBtc \<Rightarrow> (ri', ro') | BuyBtc \<Rightarrow> (ro', ri'))"
    using apply_trade_returns [OF t(4,2,1) assms(3) t(5)] .
  have y: "0 < unat y" "unat y = curve_out (unat ri) (unat ro) (unat a) (unat (pool_fee pool))" "0 < unat ro"
    using t(4) by (simp_all add: amount_out_Ok)
  note dev = dev_bps_Some(2,3) [OF d(1), of "uint (band_bps cfg)"]
  from d(2) show ?thesis
  proof
    assume "side = SellBtc \<and> uint (band_bps cfg) < d"
    then show ?thesis using t r y dev(1)
      by (auto simp: passes_oracle_def Let_def not_less simp del: of_nat_mult uint_nat)
  next
    assume "side = BuyBtc \<and> d < - uint (band_bps cfg)"
    then show ?thesis using t r y dev(2)
      by (auto simp: passes_oracle_def Let_def not_less algebra_simps simp del: of_nat_mult uint_nat)
  qed
qed

definition demo_state :: PoolState where
  "demo_state = \<lparr>unit_lo = 0, unit_hi = 1, res_lo = 288230376151711741, res_hi = 288230376151711744, pool_fee = 3\<rparr>"

definition demo_mins :: MinSwapIn where
  "demo_mins = \<lparr>min_lo = 2, min_hi = 2\<rparr>"

definition demo_balances :: Balances where
  "demo_balances = \<lparr>bal_lo = 100, bal_hi = 100\<rparr>"

definition demo_keeper :: KeeperConfig where
  "demo_keeper = \<lparr>band_bps = 50, max_trade_micro_usd = 1000, btc_floor_msat = 10, usdt_floor_micros = 10\<rparr>"

lemmas demo_keeper_defs = demo_state_def demo_mins_def demo_balances_def demo_keeper_def

lemma demo_largest: "largest_non_crossing SellBtc demo_state 90000000000 = (Ok 3 :: (u64, 'e) result)"
proof -
  have c: "crosses_target SellBtc demo_state d 90000000000 = (Ok False :: (bool, 'e) result)"
    if "unat d = 2 \<or> unat d = 3" for d
    by (subst crosses_target_eq [where ri = "res_lo demo_state" and ro = "res_hi demo_state"])
      (use that in \<open>auto simp: demo_state_def passes_oracle_def curve_out_def\<close>)
  have "search SellBtc demo_state 90000000000 1 3 0 = (Ok 3 :: (u64, 'e) result)"
    by (simp add: search.simps c eval_ops)
  moreover have "saturating_sub MAX_RESERVE 288230376151711741 = (3 :: u64)"
    by (simp add: saturating_sub_def MAX_RESERVE_def)
  ultimately show ?thesis by (simp add: largest_non_crossing_def demo_state_def)
qed

lemma demo_dev: "dev_bps 288230376151711741 288230376151711744 90000000000 = (Ok (Some 1111) :: (int option, 'e) result)"
  by (simp add: dev_bps_def eval_ops DECIMAL_GAP_def try_i128_def i128_sub_def i128_div_def i128_saturating_mul_def sdiv_eq)

lemma demo_decide:
  "decide demo_state demo_mins 90000000000 demo_balances demo_keeper = (Ok (Trade 0 1 3) :: (Decision, 'e) result)"
proof -
  have "amount_out 288230376151711741 288230376151711744 3 3 = Ok 2"
    by (simp add: amount_out_eq curve_out_def)
  moreover have "max_trade_cap SellBtc 1000 90000000000 = (Ok 1111 :: (u64, 'e) result)"
    by (simp add: max_trade_cap_def DECIMAL_GAP_def saturating_mul_def div_p_def eval_ops)
  moreover have "check_band_exceeds_fee 50 3 = Ok ()"
    by (simp add: check_band_exceeds_fee_def eval_ops)
  ultimately show ?thesis
    using demo_largest [where 'e = 'e] demo_dev [where 'e = 'e]
    by (simp add: decide_def size_trade_def demo_keeper_defs saturating_sub_def)
qed

theorem keeper_trade_is_bounded_correction_witness:
  "\<exists>lo' hi'. apply_trade demo_state 0 3 = Some (lo', hi') \<and> unat lo' * 90000000000 \<le> unat hi' * 10 ^ 11"
  using keeper_trade_is_bounded_correction [OF demo_decide]
  by (auto simp: demo_keeper_defs)

text \<open>
  C32. The keeper corrects as far as it may: if a larger executable trade would still not pass the
  oracle, then the trade it decided spends the inventory down to the floor or equals the size cap.
\<close>

theorem keeper_trade_is_largest:
  assumes "decide pool mins p bals cfg = (Ok (Trade ui uo a) :: (Decision, 'e) result)"
    and "unat p \<le> 10 ^ 18" and "unit_lo pool \<noteq> unit_hi pool" and "side_units side pool = (ui, uo)"
    and "reserves_for side pool = (ri, ro)" and "side_limits side mins bals cfg = (fl, bal, mn)"
    and "unat a < d" and "unat ri + d \<le> 2 ^ 58"
    and "\<not> passes_oracle side (unat ri) (unat ro) (unat (pool_fee pool)) (unat p) d"
  shows "unat a + unat fl = unat bal \<or> max_trade_cap side (max_trade_micro_usd cfg) p = (Ok a :: (u64, 'e) result)"
proof -
  obtain s dev where s: "size_trade s pool mins p bals cfg dev = (Ok (Trade ui uo a) :: (Decision, 'e) result)"
    using decide_Trade [OF assms(1)] by blast
  then have "side_units s pool = (ui, uo)" by (rule size_trade_Trade)
  then have "s = side" using assms(3,4) by (cases s; cases side) auto
  show ?thesis
    using size_trade_respects [OF s assms(2)] assms(5-9) unfolding \<open>s = side\<close> by (metis prod.inject)
qed

lemma demo_decide_capped:
  "decide demo_state demo_mins 90000000000 demo_balances (demo_keeper\<lparr>max_trade_micro_usd := 2\<rparr>) =
    (Ok (Trade 0 1 2) :: (Decision, 'e) result)"
proof -
  have "amount_out 288230376151711741 288230376151711744 2 3 = Ok 1"
    by (simp add: amount_out_eq curve_out_def)
  moreover have "max_trade_cap SellBtc 2 90000000000 = (Ok 2 :: (u64, 'e) result)"
    by (simp add: max_trade_cap_def DECIMAL_GAP_def saturating_mul_def div_p_def eval_ops)
  moreover have "check_band_exceeds_fee 50 3 = Ok ()"
    by (simp add: check_band_exceeds_fee_def eval_ops)
  ultimately show ?thesis
    using demo_largest [where 'e = 'e] demo_dev [where 'e = 'e]
    by (simp add: decide_def size_trade_def demo_keeper_defs saturating_sub_def)
qed

theorem keeper_trade_is_largest_witness:
  "max_trade_cap SellBtc 2 90000000000 = (Ok 2 :: (u64, unit) result)"
proof -
  have "\<not> passes_oracle SellBtc 288230376151711741 288230376151711744 3 90000000000 3"
    by (simp add: passes_oracle_def curve_out_def)
  then show ?thesis
    using keeper_trade_is_largest [OF demo_decide_capped [where 'e = unit], of SellBtc 288230376151711741 288230376151711744 10 100 2 3]
    by (simp add: demo_keeper_defs)
qed

text \<open>
  C33. The decision always returns: whatever the pool, price, balances and settings, no operation of
  the keeper's decision overflows, divides by zero or fails an assertion, and the search for a size
  terminates; the price shown in the log is likewise always computed.
\<close>

theorem keeper_decides_without_panic:
  "(\<exists>d. decide pool mins p bals cfg = (Ok d :: (Decision, 'e) result)) \<and>
   (\<exists>price. pool_price_micro_usd rl rh = (Ok price :: (u128 option, 'e) result))"
proof (intro conjI)
  show "\<exists>d. decide pool mins p bals cfg = (Ok d :: (Decision, 'e) result)" by (rule decide_returns)
  have "unat rh * unat DECIMAL_GAP < 2 ^ 128"
    by (rule mult_bound [of _ "2 ^ 64" _ "10 ^ 11"]) (use unat_u64 [of rh] in simp_all)
  then obtain w where "mul_p (ucast rh) DECIMAL_GAP = (Ok w :: (u128, 'e) result)"
    using op_p_returns(3) [of "ucast rh" DECIMAL_GAP, where 'e = 'e] by auto
  moreover have "\<exists>v. div_p w (ucast rl) = (Ok v :: (u128, 'e) result)" if "rl \<noteq> 0"
    using op_p_returns(4) [of "ucast rl" w, where 'e = 'e] that by (auto simp: word_eq_unat)
  ultimately show "\<exists>price. pool_price_micro_usd rl rh = (Ok price :: (u128 option, 'e) result)"
    by (auto simp: pool_price_micro_usd_def)
qed

lemma deviation_fits:
  "b \<le> 2 ^ 58 * 10 ^ 15 \<Longrightarrow> a \<le> 2 ^ 58 * 100000000000 \<Longrightarrow> \<bar>(int a - int b) * 10000\<bar> < 2 ^ 127"
  by simp

text \<open>
  C35. A quiet keeper means an accurate price: at any price up to a billion dollars per bitcoin, when
  the decision is to hold inside the band, the pool's price is off by less than one basis point more
  than the band.
\<close>

theorem keeper_hold_in_band_is_accurate:
  assumes "decide pool mins p bals cfg = (Ok (Hold (InBand d)) :: (Decision, 'e) result)"
    and "unat (res_lo pool) \<le> 2 ^ 58" and "unat (res_hi pool) \<le> 2 ^ 58" and "unat p \<le> 10 ^ 15"
  shows "\<bar>int (unat (res_hi pool) * 10 ^ 11) - int (unat (res_lo pool) * unat p)\<bar> * 10000 <
    (uint (band_bps cfg) + 1) * int (unat (res_lo pool) * unat p)"
proof -
  let ?os = "int (unat (res_lo pool) * unat p)"
  let ?n = "int (unat (res_hi pool) * 100000000000) - ?os"
  obtain x where x: "dev_bps (res_lo pool) (res_hi pool) p = (Ok x :: (int option, 'e) result)"
    using dev_bps_total by blast
  have "size_trade s pool mins p bals cfg e \<noteq> (Ok (Hold (InBand d)) :: (Decision, 'e) result)" for s e
    unfolding size_trade_eq
    by (auto simp: result_eqs Let_def split: prod.splits if_splits result.splits)
  then have dev: "dev_bps (res_lo pool) (res_hi pool) p = (Ok (Some d) :: (int option, 'e) result)"
    and band: "- uint (band_bps cfg) \<le> d" "d \<le> uint (band_bps cfg)"
    using assms(1) unfolding decide_def x by (auto simp: Let_def split: if_splits result.splits option.splits)
  note f = dev_bps_Some [OF dev]
  have "unat (res_lo pool) * unat p \<le> 2 ^ 58 * 10 ^ 15" "unat (res_hi pool) * 100000000000 \<le> 2 ^ 58 * 100000000000"
    by (rule mult_le_mono [OF assms(2,4)], rule mult_le_mono [OF assms(3) order_refl])
  then have "\<bar>?n * 10000\<bar> < 2 ^ 127" by (intro deviation_fits)
  then have d: "d = (?n * 10000) sdiv ?os" by (rule f(4))
  have pos: "0 < ?os" by (rule f(1))
  have "\<bar>?n * 10000\<bar> < (uint (band_bps cfg) + 1) * ?os"
    by (rule sdiv_within [OF pos]) (use band d in simp_all)
  then have "\<bar>?n\<bar> * 10000 < (uint (band_bps cfg) + 1) * ?os" by (simp only: abs_mult)
  then show ?thesis by simp
qed

theorem keeper_hold_in_band_is_accurate_witness:
  "\<bar>int (1000000 * 10 ^ 11) - int (1000000 * 100000000000)\<bar> * 10000 < (50 + 1) * int (1000000 * 100000000000)"
proof -
  let ?pool = "\<lparr>unit_lo = 0, unit_hi = 1, res_lo = 1000000, res_hi = 1000000, pool_fee = 3\<rparr>"
  have "check_band_exceeds_fee 50 3 = Ok ()" by (simp add: check_band_exceeds_fee_def eval_ops)
  moreover have "dev_bps 1000000 1000000 100000000000 = (Ok (Some 0) :: (int option, unit) result)"
    by (simp add: dev_bps_def eval_ops DECIMAL_GAP_def try_i128_def i128_sub_def i128_div_def i128_saturating_mul_def sdiv_eq)
  ultimately have "decide ?pool demo_mins 100000000000 demo_balances demo_keeper =
      (Ok (Hold (InBand 0)) :: (Decision, unit) result)"
    by (simp add: decide_def demo_keeper_defs)
  from keeper_hold_in_band_is_accurate [OF this] show ?thesis by (simp add: demo_keeper_defs)
qed

text \<open>
  Near the oracle's own ceiling the deviation is understated: for a pool of one micro-dollar
  against \<open>2 ^ 58\<close> millisatoshi and a price of \<open>10 ^ 18\<close>, the pool is 9999 basis points, in whole ones, too cheap but
  the saturating product reports 590, and a keeper with a band of 600 holds.
\<close>

lemma keeper_saturation_hides_deviation:
  "((1 * 100000000000 - 288230376151711744 * 1000000000000000000) * 10000) sdiv (288230376151711744 * 1000000000000000000) = (- 9999 :: int) \<and>
   dev_bps 288230376151711744 1 1000000000000000000 = (Ok (Some (- 590)) :: (int option, 'e) result) \<and>
   decide \<lparr>unit_lo = 0, unit_hi = 1, res_lo = 288230376151711744, res_hi = 1, pool_fee = 3\<rparr> demo_mins 1000000000000000000
     demo_balances (demo_keeper\<lparr>band_bps := 600\<rparr>) = (Ok (Hold (InBand (- 590))) :: (Decision, 'e) result)"
proof -
  have "dev_bps 288230376151711744 1 1000000000000000000 = (Ok (Some (- 590)) :: (int option, 'e) result)"
    by (simp add: dev_bps_def eval_ops DECIMAL_GAP_def try_i128_def i128_sub_def i128_div_def i128_saturating_mul_def sdiv_eq)
  moreover have "check_band_exceeds_fee 600 3 = Ok ()" by (simp add: check_band_exceeds_fee_def eval_ops)
  ultimately show ?thesis by (simp add: decide_def demo_keeper_defs sdiv_eq)
qed

end
