(* ===== verification/Keeper_Oracle.thy ===== *)
theory Keeper_Oracle
  imports Complex_Main Keeper_Policy
begin

text \<open>
  The price keeper's reference price, \<open>bin/amm-price-keeper/src/oracle.rs\<close>: the conversion of the
  feed's floating-point rate to micro-dollars, the hand-written timestamp parser and its calendar, the
  staleness check and the limit on the movement between ticks. A finite \<open>f64\<close> is a mantissa below
  \<open>2 ^ 53\<close> with a binary exponent, so the one product and the one rounding the code performs are exact
  functions. A string is the list of its bytes. \<open>serde_json\<close> is the parameter \<open>from_str\<close>.
\<close>

section \<open>The rate\<close>

datatype f64 = NaN | Infinite bool | Finite bool nat int

fun is_finite :: "f64 \<Rightarrow> bool" where
  "is_finite (Finite neg m e) = True"
| "is_finite _ = False"

fun le_zero :: "f64 \<Rightarrow> bool" where
  "le_zero (Finite neg m e) = (neg \<or> m = 0)"
| "le_zero (Infinite neg) = neg"
| "le_zero NaN = False"

text \<open>
  The product of a positive finite value with \<open>1e6\<close>, rounded to 53 bits, ties to even. The excess is
  the number of bits to drop. A product beyond the largest finite value is an infinity in the source;
  here it stays a huge number, and both are refused by the ceiling.
\<close>

fun excess_bits :: "nat \<Rightarrow> nat" where
  "excess_bits n = (if n < 2 ^ 53 then 0 else Suc (excess_bits (n div 2)))"

declare excess_bits.simps [simp del]

definition round_53 :: "nat \<Rightarrow> nat \<times> nat" where
  "round_53 n =
     (let k = excess_bits n; q = n div 2 ^ k; r = n mod 2 ^ k
      in (if 2 * r > 2 ^ k \<or> (2 * r = 2 ^ k \<and> odd q) then q + 1 else q, k))"

text \<open>\<open>f64::round\<close> of a non-negative value: the nearest integer, halves away from zero.\<close>

definition round_half_away :: "nat \<Rightarrow> int \<Rightarrow> nat" where
  "round_half_away m e =
     (if 0 \<le> e then m * 2 ^ nat e else (2 * m + 2 ^ nat (- e)) div (2 * 2 ^ nat (- e)))"

fun times_million_rounded :: "f64 \<Rightarrow> nat" where
  "times_million_rounded (Finite neg m e) = (case round_53 (m * 1000000) of (q, k) \<Rightarrow> round_half_away q (e + int k))"
| "times_million_rounded _ = 0"

definition MAX_MICRO_USD_PER_BTC :: u128 where
  "MAX_MICRO_USD_PER_BTC = 1000000000000000000"

datatype OracleError =
    Malformed string
  | MissingPair
  | BadRate f64
  | RateOutOfRange f64
  | BadTimestamp string
  | Stale int u64
  | Jump u128 u64

definition micro_usd_from_rate :: "f64 \<Rightarrow> (u128, OracleError) result" where
  "micro_usd_from_rate rate =
     (if \<not> is_finite rate \<or> le_zero rate then Err (BadRate rate)
      else let micro = times_million_rounded rate in
        if micro < 1 then Err (BadRate rate)
        else if micro > 1000000000000000000 then Err (RateOutOfRange rate)
        else Ok (of_nat micro))"

section \<open>The timestamp\<close>

definition is_leap_year :: "int \<Rightarrow> bool" where
  "is_leap_year year \<longleftrightarrow> (year mod 4 = 0 \<and> year mod 100 \<noteq> 0) \<or> year mod 400 = 0"

definition days_in_month :: "int \<Rightarrow> int \<Rightarrow> int" where
  "days_in_month year month =
     (if month \<in> {1, 3, 5, 7, 8, 10, 12} then 31
      else if month \<in> {4, 6, 9, 11} then 30
      else if month = 2 \<and> is_leap_year year then 29
      else if month = 2 then 28
      else 0)"

definition days_from_civil :: "int \<Rightarrow> int \<Rightarrow> int \<Rightarrow> int" where
  "days_from_civil year0 month day =
     (let year = (if month \<le> 2 then year0 - 1 else year0);
          era = (if year \<ge> 0 then year else year - 399) sdiv 400;
          year_of_era = year - era * 400;
          day_of_year = (153 * (month + (if month > 2 then - 3 else 9)) + 2) sdiv 5 + day - 1;
          day_of_era = year_of_era * 365 + year_of_era sdiv 4 - year_of_era sdiv 100 + day_of_year
      in era * 146097 + day_of_era - 719468)"

definition is_ascii_digit :: "char \<Rightarrow> bool" where
  "is_ascii_digit c \<longleftrightarrow> char_digit c \<noteq> None"

text \<open>A field of plain digits; the fixed fields have been checked to hold nothing else.\<close>

definition num_field :: "string \<Rightarrow> nat \<Rightarrow> nat \<Rightarrow> int option" where
  "num_field s i j = map_option int (parse_digits 0 (take (j - i) (drop i s)))"

definition field_ok :: "nat \<Rightarrow> char \<Rightarrow> bool" where
  "field_ok i b =
     (if i = 4 \<or> i = 7 then b = CHR ''-''
      else if i = 10 then b = CHR ''T'' \<or> b = CHR ''t''
      else if i = 13 \<or> i = 16 then b = CHR '':''
      else is_ascii_digit b)"

text \<open>The zone after the seconds, with an optional fraction that is dropped.\<close>

definition zone_ok :: "string \<Rightarrow> bool" where
  "zone_ok rest =
     (case rest of
        c # fraction \<Rightarrow>
          if c = CHR ''.'' then
            let digits = length (takeWhile is_ascii_digit fraction) in
            digits \<noteq> 0 \<and> (drop digits fraction = ''Z'' \<or> drop digits fraction = ''z'')
          else rest = ''Z'' \<or> rest = ''z''
      | [] \<Rightarrow> False)"

definition parse_rfc3339_utc :: "string \<Rightarrow> int option" where
  "parse_rfc3339_utc s =
     (if length s < 19 then None
      else if \<not> list_all (\<lambda>(i, b). field_ok i b) (zip [0..<19] (take 19 s)) then None
      else
        Option.bind (num_field s 0 4) (\<lambda>year.
        Option.bind (num_field s 5 7) (\<lambda>month.
        Option.bind (num_field s 8 10) (\<lambda>day.
        Option.bind (num_field s 11 13) (\<lambda>hour.
        Option.bind (num_field s 14 16) (\<lambda>minute.
        Option.bind (num_field s 17 19) (\<lambda>second.
          if \<not> (1 \<le> month \<and> month \<le> 12) \<or> day < 1 \<or> day > days_in_month year month then None
          else if hour > 23 \<or> minute > 59 \<or> second > 60 then None
          else if \<not> zone_ok (drop 19 s) then None
          else Some (days_from_civil year month day * 86400 + hour * 3600 + minute * 60 + second))))))))"

section \<open>The feed\<close>

record FeedQuote =
  rate :: f64
  timestamp :: string

type_synonym Feed = "(string, FeedQuote) table"

record OraclePrice =
  micro_usd_per_btc :: u128
  timestamp_unix :: int

definition BTC_USD :: string where
  "BTC_USD = ''BTC/USD''"

text \<open>Subtraction of signed 64-bit values, which panics outside the type.\<close>

definition i64_sub :: "int \<Rightarrow> int \<Rightarrow> (int, 'e) result" where
  "i64_sub a b = (if - (2 ^ 63) \<le> a - b \<and> a - b < 2 ^ 63 then Ok (a - b) else Panic)"

definition parse_feed :: "(string \<Rightarrow> string + Feed) \<Rightarrow> string \<Rightarrow> int \<Rightarrow> u64 \<Rightarrow> (OraclePrice, OracleError) result" where
  "parse_feed from_str body now_unix max_age_secs =
     (case from_str body of
        Inl error \<Rightarrow> Err (Malformed error)
      | Inr feed \<Rightarrow>
          and_then (ok_or (map_of feed BTC_USD) MissingPair) (\<lambda>quote.
          and_then (micro_usd_from_rate (rate quote)) (\<lambda>micro.
          and_then (ok_or (parse_rfc3339_utc (timestamp quote)) (BadTimestamp (timestamp quote))) (\<lambda>ts.
          and_then (i64_sub now_unix ts) (\<lambda>age_secs.
          let max_age = (if uint max_age_secs < 2 ^ 63 then uint max_age_secs else 2 ^ 63 - 1) in
          if age_secs > max_age \<or> age_secs < - max_age then Err (Stale age_secs max_age_secs)
          else Ok \<lparr>micro_usd_per_btc = micro, timestamp_unix = ts\<rparr>)))))"

definition abs_diff :: "u128 \<Rightarrow> u128 \<Rightarrow> u128" where
  "abs_diff a b = (if a < b then b - a else a - b)"

definition check_jump :: "u128 \<Rightarrow> u128 \<Rightarrow> u64 \<Rightarrow> (unit, OracleError) result" where
  "check_jump prev_micro new_micro max_pct =
     (let delta = abs_diff prev_micro new_micro;
          moved_bound = saturating_mul prev_micro (ucast max_pct)
      in if saturating_mul delta 100 > moved_bound
         then Err (Jump (case checked_div (saturating_mul delta 100) prev_micro of Some q \<Rightarrow> q | None \<Rightarrow> - 1) max_pct)
         else Ok ())"

section \<open>The calendar\<close>

lemma year_days:
  "(y :: int) div 400 * 146097 + (y - y div 400 * 400) * 365 + (y - y div 400 * 400) div 4 - (y - y div 400 * 400) div 100 =
   365 * y + y div 4 - y div 100 + y div 400"
proof -
  define q r where "q = y div 400" and "r = y - y div 400 * 400"
  have y: "y = r + q * 400" by (simp add: q_def r_def)
  have "(r + (q * 100) * 4) div 4 = q * 100 + r div 4" "(r + (q * 4) * 100) div 100 = q * 4 + r div 100"
    by (simp_all only: div_mult_self1_is_m div_mult_self1 not_False_eq_True)
  then have "y div 4 = q * 100 + r div 4" "y div 100 = q * 4 + r div 100" unfolding y by (simp_all add: mult.assoc)
  then show ?thesis unfolding q_def [symmetric] r_def [symmetric] using y by simp
qed

lemma era_floor: "(if 0 \<le> y then y else y - 399) sdiv 400 = y div 400" for y :: int
proof (cases "0 \<le> y")
  case False
  have "0 \<le> 399 - y mod 400" "399 - y mod 400 < 400" by simp_all
  then have "(399 - y mod 400 + (- (y div 400)) * 400) div 400 = - (y div 400)"
    by simp
  moreover have "399 - y mod 400 + (- (y div 400)) * 400 = 399 - y" by (simp add: minus_div_mult_eq_mod [symmetric])
  ultimately have "- ((399 - y) div 400) = y div 400" by simp
  then show ?thesis using False by (simp add: sdiv_eq)
qed (simp add: sdiv_eq)

text \<open>The days before the first of March of a year, up to a constant.\<close>

definition year_start :: "int \<Rightarrow> int" where
  "year_start y = 365 * y + y div 4 - y div 100 + y div 400"

lemma days_from_civil_eq:
  "days_from_civil y m d =
     (let y' = (if m \<le> 2 then y - 1 else y)
      in year_start y' + (153 * (m + (if m > 2 then - 3 else 9)) + 2) sdiv 5 + d - 719469)"
proof -
  define y' where "y' = (if m \<le> 2 then y - 1 else y)"
  define r where "r = y' - y' div 400 * 400"
  have "0 \<le> r" by (simp add: r_def minus_div_mult_eq_mod)
  then have "r sdiv 4 = r div 4" "r sdiv 100 = r div 100" by (simp_all add: sdiv_eq)
  then show ?thesis
    using year_days [of y'] unfolding days_from_civil_def Let_def era_floor y'_def [symmetric] r_def [symmetric] year_start_def
    by linarith
qed

text \<open>The calendar the code is meant to implement: the day after a date.\<close>

definition valid_date :: "int \<Rightarrow> int \<Rightarrow> int \<Rightarrow> bool" where
  "valid_date y m d \<longleftrightarrow> 1 \<le> m \<and> m \<le> 12 \<and> 1 \<le> d \<and> d \<le> days_in_month y m"

definition next_day :: "int \<Rightarrow> int \<Rightarrow> int \<Rightarrow> int \<times> int \<times> int" where
  "next_day y m d =
     (if d < days_in_month y m then (y, m, d + 1) else if m < 12 then (y, m + 1, 1) else (y + 1, 1, 1))"

lemma leap_arith:
  fixes a b c y :: int
  assumes "a = a' + (if p then 1 else 0)" and "b = b' + (if q then 1 else 0)" and "c = c' + (if r then 1 else 0)"
    and "q \<longrightarrow> p" and "r \<longrightarrow> q"
  shows "365 * y + a - b + c = 365 * (y - 1) + a' - b' + c' + (if p \<and> \<not> q \<or> r then 366 else 365)"
  using assms by auto

lemma leap_step:
  "year_start y = year_start (y - 1) + (if is_leap_year y then 366 else 365)"
proof -
  have step: "y div k = (y - 1) div k + (if y mod k = 0 then 1 else 0)" if "1 < k" for k :: int
  proof (cases "y mod k = 0")
    case True
    then obtain q where "y = k * q" by auto
    moreover have "(k * q - 1) div k = q - 1"
      using that by (simp add: div_eq_minus1 zdiv_eq_0_iff algebra_simps int_div_pos_eq [of _ _ "q - 1" "k - 1"])
    ultimately show ?thesis using that True by simp
  next
    case False
    have "y - 1 = y div k * k + (y mod k - 1)" by simp
    moreover have "0 \<le> y mod k - 1" "y mod k - 1 < k"
      using False that pos_mod_sign [of k y] pos_mod_bound [of k y] by linarith+
    ultimately have "(y - 1) div k = y div k" by (intro int_div_pos_eq [of _ _ _ "y mod k - 1"]) (auto simp: mult.commute)
    then show ?thesis using False by simp
  qed
  have "(4 :: int) dvd 100" "(100 :: int) dvd 400" by simp_all
  then have "y mod 100 = 0 \<longrightarrow> y mod 4 = 0" "y mod 400 = 0 \<longrightarrow> y mod 100 = 0"
    by (meson dvd_trans mod_eq_0_iff_dvd)+
  moreover have "y div 4 = (y - 1) div 4 + (if y mod 4 = 0 then 1 else 0)"
    "y div 100 = (y - 1) div 100 + (if y mod 100 = 0 then 1 else 0)"
    "y div 400 = (y - 1) div 400 + (if y mod 400 = 0 then 1 else 0)"
    by (rule step; simp)+
  ultimately show ?thesis unfolding is_leap_year_def year_start_def by (intro leap_arith)
qed

lemma month_cases:
  "1 \<le> m \<Longrightarrow> m \<le> 12 \<Longrightarrow> m = 1 \<or> m = 2 \<or> m = 3 \<or> m = 4 \<or> m = 5 \<or> m = 6 \<or> m = 7 \<or> m = 8 \<or> m = 9 \<or> m = 10 \<or> m = 11 \<or> m = 12" for m :: int
  by presburger

lemma days_from_civil_next:
  assumes "valid_date y m d" and "next_day y m d = (y', m', d')"
  shows "days_from_civil y' m' d' = days_from_civil y m d + 1"
proof -
  have "1 \<le> m" "m \<le> 12" "d \<le> days_in_month y m" using assms(1) by (auto simp: valid_date_def)
  from month_cases [OF this(1,2)] this(3) assms(2) show ?thesis
    using leap_step [of y]
    by (elim disjE) (auto simp: next_day_def days_in_month_def days_from_civil_eq Let_def sdiv_eq split: if_splits)
qed

section \<open>The grammar of timestamps\<close>

definition pad2 :: "nat \<Rightarrow> string" where
  "pad2 n = [digit_char (n div 10), digit_char (n mod 10)]"

definition pad4 :: "nat \<Rightarrow> string" where
  "pad4 n = pad2 (n div 100) @ pad2 (n mod 100)"

definition rendered :: "nat \<Rightarrow> nat \<Rightarrow> nat \<Rightarrow> nat \<Rightarrow> nat \<Rightarrow> nat \<Rightarrow> char \<Rightarrow> string \<Rightarrow> string" where
  "rendered y mo d h mi sec tc zone =
     pad4 y @ ''-'' @ pad2 mo @ ''-'' @ pad2 d @ [tc] @ pad2 h @ '':'' @ pad2 mi @ '':'' @ pad2 sec @ zone"

lemma is_ascii_digit_char [simp]: "n < 10 \<Longrightarrow> is_ascii_digit (digit_char n)"
  by (simp add: is_ascii_digit_def char_digit_digit_char)

lemma ascii_digitE:
  assumes "is_ascii_digit c"
  obtains n where "n < 10" "c = digit_char n"
proof -
  obtain n where n: "char_digit c = Some n" using assms by (auto simp: is_ascii_digit_def)
  then have "n < 10" "48 + n = of_char c" by (auto simp: char_digit_def split: if_splits)
  moreover from this(2) have "c = digit_char n" by (simp add: digit_char_def)
  ultimately show ?thesis using that by blast
qed

lemma pad2_digits: "n < 100 \<Longrightarrow> acc < 100 \<Longrightarrow> parse_digits acc (pad2 n) = Some (acc * 100 + n)"
proof -
  assume "n < 100" "acc < 100"
  moreover have "(acc * 10 + n div 10) * 10 + n mod 10 = acc * 100 + n"
    by (simp add: distrib_right)
  ultimately show ?thesis by (simp add: pad2_def char_digit_digit_char)
qed

lemma pad4_digits: "n < 10000 \<Longrightarrow> parse_digits 0 (pad4 n) = Some n"
  by (simp add: pad4_def parse_digits_append pad2_digits)

lemma two_digitsE:
  assumes "is_ascii_digit a" and "is_ascii_digit b"
  obtains n where "n < 100" "[a, b] = pad2 n"
proof -
  obtain i j where "i < 10" "a = digit_char i" "j < 10" "b = digit_char j"
    using assms by (metis ascii_digitE)
  then show ?thesis using that [of "i * 10 + j"] by (simp add: pad2_def)
qed

lemma four_digitsE:
  assumes "is_ascii_digit a" "is_ascii_digit b" "is_ascii_digit c" "is_ascii_digit d"
  obtains n where "n < 10000" "[a, b, c, d] = pad4 n"
proof -
  obtain m n where "m < 100" "[a, b] = pad2 m" "n < 100" "[c, d] = pad2 n"
    using assms by (metis two_digitsE)
  then show ?thesis using that [of "m * 100 + n"] by (simp add: pad4_def)
qed

lemma length_pads [simp]: "length (pad2 n) = 2" "length (pad4 n) = 4"
  by (simp_all add: pad2_def pad4_def)

text \<open>The nineteen fixed bytes pass the field check exactly when they are a rendered date and time.\<close>

lemma fields_rendered:
  assumes "19 \<le> length s" and "list_all (\<lambda>(i, b). field_ok i b) (zip [0..<19] (take 19 s))"
  obtains y mo d h mi sec tc where "y < 10000" "mo < 100" "d < 100" "h < 100" "mi < 100" "sec < 100"
    "tc = CHR ''T'' \<or> tc = CHR ''t''" "s = rendered y mo d h mi sec tc (drop 19 s)"
proof -
  define t where "t = take 19 s"
  have "length t = 19" using assms(1) by (simp add: t_def)
  then obtain c0 c1 c2 c3 c4 c5 c6 c7 c8 c9 c10 c11 c12 c13 c14 c15 c16 c17 c18 where
    t: "t = [c0, c1, c2, c3, c4, c5, c6, c7, c8, c9, c10, c11, c12, c13, c14, c15, c16, c17, c18]"
    by (auto simp: numeral_eq_Suc length_Suc_conv)
  have f: "is_ascii_digit c0" "is_ascii_digit c1" "is_ascii_digit c2" "is_ascii_digit c3" "c4 = CHR ''-''"
    "is_ascii_digit c5" "is_ascii_digit c6" "c7 = CHR ''-''" "is_ascii_digit c8" "is_ascii_digit c9"
    "c10 = CHR ''T'' \<or> c10 = CHR ''t''" "is_ascii_digit c11" "is_ascii_digit c12" "c13 = CHR '':''"
    "is_ascii_digit c14" "is_ascii_digit c15" "c16 = CHR '':''" "is_ascii_digit c17" "is_ascii_digit c18"
    using assms(2) unfolding t_def [symmetric] t by (simp_all add: upt_rec field_ok_def)
  obtain y where y: "y < 10000" "[c0, c1, c2, c3] = pad4 y" using four_digitsE [OF f(1-4)] .
  obtain mo where mo: "mo < 100" "[c5, c6] = pad2 mo" using two_digitsE [OF f(6,7)] .
  obtain d where d: "d < 100" "[c8, c9] = pad2 d" using two_digitsE [OF f(9,10)] .
  obtain h where h: "h < 100" "[c11, c12] = pad2 h" using two_digitsE [OF f(12,13)] .
  obtain mi where mi: "mi < 100" "[c14, c15] = pad2 mi" using two_digitsE [OF f(15,16)] .
  obtain sec where sec: "sec < 100" "[c17, c18] = pad2 sec" using two_digitsE [OF f(18,19)] .
  have "s = t @ drop 19 s" by (simp add: t_def)
  also have "\<dots> = rendered y mo d h mi sec c10 (drop 19 s)"
    unfolding t rendered_def y(2) [symmetric] mo(2) [symmetric] d(2) [symmetric] h(2) [symmetric]
      mi(2) [symmetric] sec(2) [symmetric] f(5,8,14,17) by simp
  finally show ?thesis using that [OF y(1) mo(1) d(1) h(1) mi(1) sec(1) f(11)] by blast
qed

lemma rendered_fields:
  assumes "y < 10000" "mo < 100" "d < 100" "h < 100" "mi < 100" "sec < 100" "tc = CHR ''T'' \<or> tc = CHR ''t''"
  shows "list_all (\<lambda>(i, b). field_ok i b) (zip [0..<19] (take 19 (rendered y mo d h mi sec tc zone)))"
    and "num_field (rendered y mo d h mi sec tc zone) 0 4 = Some (int y)"
    and "num_field (rendered y mo d h mi sec tc zone) 5 7 = Some (int mo)"
    and "num_field (rendered y mo d h mi sec tc zone) 8 10 = Some (int d)"
    and "num_field (rendered y mo d h mi sec tc zone) 11 13 = Some (int h)"
    and "num_field (rendered y mo d h mi sec tc zone) 14 16 = Some (int mi)"
    and "num_field (rendered y mo d h mi sec tc zone) 17 19 = Some (int sec)"
    and "drop 19 (rendered y mo d h mi sec tc zone) = zone"
  using assms pad4_digits [OF assms(1)] pad2_digits [of mo 0] pad2_digits [of d 0] pad2_digits [of h 0]
    pad2_digits [of mi 0] pad2_digits [of sec 0]
  by (simp_all add: rendered_def pad4_def pad2_def num_field_def upt_rec field_ok_def is_ascii_digit_def char_digit_digit_char
      del: parse_digits.simps)

lemma zone_ok_iff:
  "zone_ok zone \<longleftrightarrow> (\<exists>c. (c = CHR ''Z'' \<or> c = CHR ''z'') \<and>
     (zone = [c] \<or> (\<exists>fs. fs \<noteq> [] \<and> (\<forall>x\<in>set fs. is_ascii_digit x) \<and> zone = CHR ''.'' # fs @ [c])))"
proof
  assume "zone_ok zone"
  then obtain c0 fraction where z: "zone = c0 # fraction" by (auto simp: zone_ok_def split: list.splits)
  show "\<exists>c. (c = CHR ''Z'' \<or> c = CHR ''z'') \<and>
     (zone = [c] \<or> (\<exists>fs. fs \<noteq> [] \<and> (\<forall>x\<in>set fs. is_ascii_digit x) \<and> zone = CHR ''.'' # fs @ [c]))"
  proof (cases "c0 = CHR ''.''")
    case True
    let ?fs = "takeWhile is_ascii_digit fraction"
    have "drop (length ?fs) fraction = ''Z'' \<or> drop (length ?fs) fraction = ''z''" "?fs \<noteq> []"
      using \<open>zone_ok zone\<close> True by (auto simp: z zone_ok_def Let_def)
    moreover have "fraction = ?fs @ drop (length ?fs) fraction" by (metis dropWhile_eq_drop takeWhile_dropWhile_id)
    ultimately obtain c where "c = CHR ''Z'' \<or> c = CHR ''z''" "fraction = ?fs @ [c]" by metis
    moreover have "\<forall>x\<in>set ?fs. is_ascii_digit x" by (auto dest: set_takeWhileD)
    ultimately show ?thesis using \<open>?fs \<noteq> []\<close> True z by metis
  next
    case False
    then show ?thesis using \<open>zone_ok zone\<close> by (auto simp: z zone_ok_def)
  qed
next
  assume "\<exists>c. (c = CHR ''Z'' \<or> c = CHR ''z'') \<and>
     (zone = [c] \<or> (\<exists>fs. fs \<noteq> [] \<and> (\<forall>x\<in>set fs. is_ascii_digit x) \<and> zone = CHR ''.'' # fs @ [c]))"
  then obtain c fs where c: "c = CHR ''Z'' \<or> c = CHR ''z''"
    and z: "zone = [c] \<or> fs \<noteq> [] \<and> (\<forall>x\<in>set fs. is_ascii_digit x) \<and> zone = CHR ''.'' # fs @ [c]" by blast
  have "\<not> is_ascii_digit c" using c by (auto simp: is_ascii_digit_def char_digit_def)
  then have "takeWhile is_ascii_digit (fs @ [c]) = fs" if "\<forall>x\<in>set fs. is_ascii_digit x"
    using that by (simp add: takeWhile_append2)
  with c z show "zone_ok zone" by (auto simp: zone_ok_def)
qed

text \<open>
  C36. What the timestamp parser accepts, and what it means: a string parses if and only if it is a
  four-digit year, a valid calendar date, a time of day up to the leap second, an optional fraction and
  the zone \<open>Z\<close> or \<open>z\<close>, which is required although the source's grammar writes it as optional, and the
  result is the date's day count in seconds plus the time of day.
\<close>

theorem timestamp_grammar_exact:
  "parse_rfc3339_utc s = Some t \<longleftrightarrow>
     (\<exists>y mo d h mi sec tc zone c. s = rendered y mo d h mi sec tc zone \<and> y < 10000 \<and>
        valid_date (int y) (int mo) (int d) \<and> h \<le> 23 \<and> mi \<le> 59 \<and> sec \<le> 60 \<and>
        (tc = CHR ''T'' \<or> tc = CHR ''t'') \<and> (c = CHR ''Z'' \<or> c = CHR ''z'') \<and>
        (zone = [c] \<or> (\<exists>fs. fs \<noteq> [] \<and> list_all is_ascii_digit fs \<and> zone = CHR ''.'' # fs @ [c])) \<and>
        t = days_from_civil (int y) (int mo) (int d) * 86400 + int h * 3600 + int mi * 60 + int sec)"
    (is "_ \<longleftrightarrow> ?rhs")
proof
  assume l: "parse_rfc3339_utc s = Some t"
  then obtain y mo d h mi sec tc where b: "y < 10000" "mo < 100" "d < 100" "h < 100" "mi < 100" "sec < 100"
    "tc = CHR ''T'' \<or> tc = CHR ''t''" and s: "s = rendered y mo d h mi sec tc (drop 19 s)"
    by (elim fields_rendered [rotated 2]) (auto simp: parse_rfc3339_utc_def split: if_splits)
  define zone where "zone = drop 19 s"
  have s': "s = rendered y mo d h mi sec tc zone" using s by (simp add: zone_def)
  have "valid_date (int y) (int mo) (int d)" "h \<le> 23" "mi \<le> 59" "sec \<le> 60" "zone_ok zone"
    "t = days_from_civil (int y) (int mo) (int d) * 86400 + int h * 3600 + int mi * 60 + int sec"
    using l unfolding s' parse_rfc3339_utc_def
    by (auto simp: rendered_fields [OF b] valid_date_def split: if_splits)
  then show ?rhs using b(1,7) s' unfolding zone_ok_iff list_all_iff by blast
next
  assume ?rhs
  then obtain y mo d h mi sec tc zone where s: "s = rendered y mo d h mi sec tc zone" and y: "y < 10000"
    and v: "valid_date (int y) (int mo) (int d)" "h \<le> 23" "mi \<le> 59" "sec \<le> 60"
    and tc: "tc = CHR ''T'' \<or> tc = CHR ''t''" and z: "zone_ok zone"
    and t: "t = days_from_civil (int y) (int mo) (int d) * 86400 + int h * 3600 + int mi * 60 + int sec"
    unfolding zone_ok_iff list_all_iff by blast
  have "mo \<le> 12" "d \<le> 31" using v(1) by (auto simp: valid_date_def days_in_month_def split: if_splits)
  then have b: "mo < 100" "d < 100" "h < 100" "mi < 100" "sec < 100" using v by auto
  have "19 \<le> length s" by (simp add: s rendered_def)
  then show "parse_rfc3339_utc s = Some t"
    using v z t unfolding s parse_rfc3339_utc_def
    by (simp add: rendered_fields [OF y b tc] valid_date_def)
qed

text \<open>
  C37. The hand-written calendar counts days: the first of January 1970 is day zero, and the day after
  any valid date, in any year and across leap years and centuries, is valid and numbered one higher.
\<close>

theorem calendar_counts_days:
  assumes "valid_date y m d"
  shows "days_from_civil 1970 1 1 = 0 \<and>
    (case next_day y m d of (y', m', d') \<Rightarrow>
       valid_date y' m' d' \<and> days_from_civil y' m' d' = days_from_civil y m d + 1)"
proof -
  obtain y' m' d' where n: "next_day y m d = (y', m', d')" by (metis prod_cases3)
  have "1 \<le> m" "m \<le> 12" using assms by (auto simp: valid_date_def)
  from month_cases [OF this] n assms have "valid_date y' m' d'"
    by (elim disjE) (auto simp: next_day_def valid_date_def days_in_month_def split: if_splits)
  moreover have "days_from_civil 1970 1 1 = 0" by (simp add: days_from_civil_def sdiv_eq)
  ultimately show ?thesis using days_from_civil_next [OF assms n] n by simp
qed

theorem calendar_counts_days_witness:
  "days_from_civil 2000 3 1 = days_from_civil 2000 2 29 + 1"
proof -
  have "valid_date 2000 2 29" by (simp add: valid_date_def days_in_month_def is_leap_year_def)
  from calendar_counts_days [OF this] show ?thesis
    by (simp add: next_day_def days_in_month_def is_leap_year_def)
qed

section \<open>Accuracy of the rate\<close>

lemma excess_bits_bounds:
  "n div 2 ^ excess_bits n < 2 ^ 53" "0 < excess_bits n \<Longrightarrow> 2 ^ (52 + excess_bits n) \<le> n"
proof (induction n rule: excess_bits.induct)
  case (1 n)
  {
    case 1
    show ?case
    proof (cases "n < 2 ^ 53")
      case False
      then show ?thesis using "1.IH"(1) [OF False] by (simp add: excess_bits.simps [of n] div_mult2_eq)
    qed (simp add: excess_bits.simps [of n])
  next
    case 2
    then have big: "\<not> n < 2 ^ 53" by (auto simp: excess_bits.simps [of n])
    show ?case
    proof (cases "excess_bits (n div 2) = 0")
      case True
      then show ?thesis using big by (simp add: excess_bits.simps [of n])
    next
      case False
      then have "2 ^ (52 + excess_bits (n div 2)) \<le> n div 2" using "1.IH"(2) [OF big] by simp
      then have "2 * 2 ^ (52 + excess_bits (n div 2)) \<le> n" by linarith
      moreover have "2 ^ (52 + Suc (excess_bits (n div 2))) = 2 * (2 :: nat) ^ (52 + excess_bits (n div 2))"
        by (simp only: add_Suc_right power_Suc)
      ultimately show ?thesis using big by (simp only: excess_bits.simps [of n] if_False)
    qed
  }
qed

lemma round_53_error:
  assumes "round_53 n = (q, k)"
  shows "\<bar>real q * 2 ^ k - real n\<bar> \<le> real n / 2 ^ 53"
proof -
  define q0 r where "q0 = n div 2 ^ k" and "r = n mod 2 ^ k"
  have k: "k = excess_bits n"
    and q: "q = (if 2 * r > 2 ^ k \<or> (2 * r = 2 ^ k \<and> odd q0) then q0 + 1 else q0)"
    using assms by (auto simp: round_53_def Let_def q0_def r_def)
  have n: "n = q0 * 2 ^ k + r" unfolding q0_def r_def by (rule div_mult_mod_eq [symmetric])
  have r: "r < 2 ^ k" by (simp add: r_def)
  have nn: "real n = real q0 * 2 ^ k + real r" unfolding n by simp
  have rr: "real r < 2 ^ k" using r by (metis of_nat_less_iff of_nat_numeral of_nat_power)
  have up: "real r * 2 \<ge> 2 ^ k" if "2 * r \<ge> 2 ^ k"
    using that by (metis mult.commute of_nat_le_iff of_nat_mult of_nat_numeral of_nat_power)
  have down: "real r * 2 \<le> 2 ^ k" if "2 * r \<le> 2 ^ k"
    using that by (metis mult.commute of_nat_le_iff of_nat_mult of_nat_numeral of_nat_power)
  have err: "\<bar>real q * 2 ^ k - real n\<bar> * 2 \<le> 2 ^ k"
    using up down rr unfolding q nn by (auto simp: distrib_right abs_if split: if_splits)
  show ?thesis
  proof (cases "k = 0")
    case True
    then show ?thesis using r n q by simp
  next
    case False
    then have "(2 :: nat) ^ (52 + k) \<le> n" using excess_bits_bounds(2) [of n] k by simp
    then have "(2 :: real) ^ (52 + k) \<le> real n" by (metis of_nat_le_iff of_nat_numeral of_nat_power)
    then have "(2 :: real) ^ k * 2 ^ 52 \<le> real n" by (simp only: power_add mult.commute)
    then show ?thesis using err by (simp add: field_simps)
  qed
qed

lemma round_half_away_error: "\<bar>real (round_half_away m e) - real m * 2 powi e\<bar> \<le> 1 / 2"
proof (cases "0 \<le> e")
  case True
  then show ?thesis by (simp add: round_half_away_def power_int_def)
next
  case False
  define c :: nat where "c = 2 ^ nat (- e)"
  define p where "p = (2 * m + c) div (2 * c)"
  have c: "0 < c" by (simp add: c_def)
  have "p * (2 * c) + (2 * m + c) mod (2 * c) = 2 * m + c" unfolding p_def by (rule div_mult_mod_eq)
  moreover have "(2 * m + c) mod (2 * c) < 2 * c" using c by simp
  ultimately have "p * (2 * c) \<le> 2 * m + c" "2 * m + c < p * (2 * c) + 2 * c" by linarith+
  then have "real (p * (2 * c)) \<le> real (2 * m + c)" "real (2 * m + c) < real (p * (2 * c) + 2 * c)"
    by (simp_all only: of_nat_le_iff of_nat_less_iff)
  then have "- real c \<le> 2 * (real c * real p - real m)" "2 * (real c * real p - real m) \<le> real c"
    by (simp_all add: algebra_simps)
  then have "\<bar>real c * real p - real m\<bar> * 2 \<le> real c" unfolding abs_le_iff by linarith
  then have "\<bar>real p - real m / real c\<bar> \<le> 1 / 2" using c by (simp add: field_simps)
  moreover have "(2 :: real) powi e = 1 / real c" using False by (simp add: power_int_def c_def field_simps)
  ultimately show ?thesis using False by (simp add: round_half_away_def p_def c_def)
qed

text \<open>
  The only floating-point step is accurate: a rate that is accepted becomes a whole number of
  micro-dollars between one and the ceiling, off from a million times the rate by at most a half plus
  the relative rounding of a 53-bit product. A rate that is not a positive finite number is refused.
\<close>

theorem accepted_rate_accurate:
  assumes "micro_usd_from_rate r = Ok p"
  shows "\<exists>m e. r = Finite False m e \<and> 0 < m \<and> 1 \<le> unat p \<and> unat p \<le> 10 ^ 18 \<and>
    \<bar>real (unat p) - real m * 2 powi e * 10 ^ 6\<bar> \<le> 1 / 2 + real m * 2 powi e * 10 ^ 6 / 2 ^ 53"
proof -
  obtain m e where r: "r = Finite False m e" "0 < m"
    using assms by (cases r) (auto simp: micro_usd_from_rate_def split: if_splits)
  obtain q k where qk: "round_53 (m * 1000000) = (q, k)" by fastforce
  let ?t = "round_half_away q (e + int k)"
  have bounds: "1 \<le> ?t" "?t \<le> 10 ^ 18" and p: "p = of_nat ?t"
    using assms r qk by (auto simp: micro_usd_from_rate_def Let_def split: if_splits)
  then have up: "unat p = ?t" by (simp add: unat_of_nat)
  have pos: "0 \<le> (2 :: real) powi e" by simp
  have split: "real q * 2 powi (e + int k) = real q * 2 ^ k * 2 powi e"
    by (simp add: power_int_add)
  have "\<bar>real q * 2 ^ k * 2 powi e - real (m * 1000000) * 2 powi e\<bar> =
      \<bar>real q * 2 ^ k - real (m * 1000000)\<bar> * 2 powi e"
    using pos by (simp flip: left_diff_distrib add: abs_mult)
  also have "\<dots> \<le> real (m * 1000000) / 2 ^ 53 * 2 powi e"
    using round_53_error [OF qk] pos by (rule mult_right_mono)
  finally have "\<bar>real q * 2 powi (e + int k) - real m * 2 powi e * 10 ^ 6\<bar> \<le> real m * 2 powi e * 10 ^ 6 / 2 ^ 53"
    unfolding split by (simp add: mult_ac)
  with round_half_away_error [of q "e + int k"]
  have "\<bar>real ?t - real m * 2 powi e * 10 ^ 6\<bar> \<le> 1 / 2 + real m * 2 powi e * 10 ^ 6 / 2 ^ 53"
    by linarith
  then show ?thesis using r bounds unfolding up by auto
qed

theorem accepted_rate_accurate_witness:
  "micro_usd_from_rate (Finite False 311141 (- 2)) = Ok 77785250000 \<and>
   \<bar>real (unat (77785250000 :: u128)) - real 311141 * 2 powi (- 2) * 10 ^ 6\<bar> \<le>
     1 / 2 + real 311141 * 2 powi (- 2) * 10 ^ 6 / 2 ^ 53"
proof -
  have run: "micro_usd_from_rate (Finite False 311141 (- 2)) = Ok 77785250000"
    by (simp add: micro_usd_from_rate_def round_53_def excess_bits.simps round_half_away_def)
  then show ?thesis using accepted_rate_accurate [OF run] by blast
qed

lemma int_hundred_le: "int a * 100 \<le> int b \<longleftrightarrow> a * 100 \<le> b"
  by linarith

lemma int_abs_diff: "int (if a < b then b - a else a - b) = \<bar>int b - int a\<bar>"
  by auto

text \<open>
  The limit on movement is exact: between two accepted prices, the check passes if and only if the
  new one differs from the old by at most the given percentage of the old, in either direction.
\<close>

theorem jump_check_exact:
  assumes "unat prev \<le> 10 ^ 18" and "unat new \<le> 10 ^ 18"
  shows "check_jump prev new pct = Ok () \<longleftrightarrow>
    \<bar>int (unat new) - int (unat prev)\<bar> * 100 \<le> int (unat prev * unat pct)"
proof -
  have d: "int (unat (abs_diff prev new)) = \<bar>int (unat new) - int (unat prev)\<bar>"
  proof -
    have "unat (abs_diff prev new) = (if unat prev < unat new then unat new - unat prev else unat prev - unat new)"
      by (auto simp: abs_diff_def word_less_nat_alt unat_sub_if_size)
    then show ?thesis by (simp only: int_abs_diff)
  qed
  then have small: "unat (abs_diff prev new) \<le> 10 ^ 18"
    using assms by (auto simp: abs_diff_def word_less_nat_alt unat_sub_if_size)
  have "unat prev * unat pct < 2 ^ 128"
    by (rule mult_bound [of _ "10 ^ 18" _ "2 ^ 64"]) (use assms(1) unat_u64 [of pct] in simp_all)
  then have m: "unat (saturating_mul prev (ucast pct)) = unat prev * unat pct"
    "unat (saturating_mul (abs_diff prev new) 100) = unat (abs_diff prev new) * 100"
    using small by (simp_all add: unat_saturating_mul)
  have "check_jump prev new pct = Ok () \<longleftrightarrow> unat (abs_diff prev new) * 100 \<le> unat prev * unat pct"
    by (simp add: check_jump_def Let_def word_less_nat_alt m)
  then show ?thesis unfolding d [symmetric] by (simp only: int_hundred_le)
qed

theorem jump_check_exact_witness: "check_jump 100 110 10 = Ok ()"
  using jump_check_exact [of 100 110 10] by simp

end
