(* ===== verification/Keeper_Main.thy ===== *)
theory Keeper_Main
  imports Amm_Client Keeper_Oracle
begin

text \<open>
  The price keeper's binary, \<open>bin/amm-price-keeper/src/main.rs\<close> and \<open>exec.rs\<close>: the parsers of its
  flags, the resolution of the federation's one market instance, the start-up checks, the retry of the
  start-up recovery, and the tick, which reads the oracle, the pool and the balances, decides and
  submits at most one swap. What a tick reads from the network is the record \<open>tick_env\<close>.
\<close>

section \<open>Flags\<close>

fun digits_value :: "nat \<Rightarrow> string \<Rightarrow> nat option" where
  "digits_value acc [] = Some acc"
| "digits_value acc (c # cs) = (case char_digit c of None \<Rightarrow> None | Some d \<Rightarrow> digits_value (acc * 10 + d) cs)"

text \<open>\<open>u128::from_str\<close> on plain digits.\<close>

definition parse_u128_digits :: "string \<Rightarrow> u128 option" where
  "parse_u128_digits s =
     (if s = [] then None
      else case digits_value 0 s of
        None \<Rightarrow> None
      | Some n \<Rightarrow> if n < 2 ^ 128 then Some (of_nat n) else None)"

definition format_pool :: "PoolId \<Rightarrow> string" where
  "format_pool pool = show_nat (unat (lo pool)) @ '':'' @ show_nat (unat (hi pool))"

datatype FlagError = ExpectedLoHi string | NotAUnitId string | NotCanonicalPool string | BadDuration string | TooLong string
  | BadDollars string | TooManyDecimals string | TooLarge string

definition parse_pool_id :: "string \<Rightarrow> (PoolId, FlagError) result" where
  "parse_pool_id v =
     and_then (ok_or (split_once (CHR '':'') v) (ExpectedLoHi v)) (\<lambda>(l, h).
     and_then (ok_or (parse_u64 l) (NotAUnitId l)) (\<lambda>l'.
     and_then (ok_or (parse_u64 h) (NotAUnitId h)) (\<lambda>h'.
       ok_or (Option.bind (PoolId_new l' h') (\<lambda>p. if l' < h' then Some p else None)) (NotCanonicalPool v))))"

definition parse_duration :: "string \<Rightarrow> (u64, FlagError) result" where
  "parse_duration v =
     (case (if v = [] then (v, 1)
            else if last v = CHR ''s'' then (butlast v, 1)
            else if last v = CHR ''m'' then (butlast v, 60)
            else if last v = CHR ''h'' then (butlast v, 3600)
            else (v, 1)) of
        (digits, multiplier) \<Rightarrow>
          and_then (ok_or (parse_u64 digits) (BadDuration v)) (\<lambda>a. ok_or (checked_mul a multiplier) (TooLong v)))"

definition parse_micro_usd :: "string \<Rightarrow> (u128, FlagError) result" where
  "parse_micro_usd v =
     (case (case split_once (CHR ''.'') v of Some p \<Rightarrow> p | None \<Rightarrow> (v, [])) of
        (whole, fraction) \<Rightarrow>
          if whole = [] \<and> fraction = [] then Err (BadDollars v)
          else if \<not> list_all is_ascii_digit whole \<or> \<not> list_all is_ascii_digit fraction then Err (BadDollars v)
          else if length fraction > 6 then Err (TooManyDecimals v)
          else
            and_then (if whole = [] then Ok 0 else ok_or (parse_u128_digits whole) (BadDollars v)) (\<lambda>w.
            and_then (if fraction = [] then Ok 0
                      else and_then (ok_or (parse_u128_digits fraction) (BadDollars v)) (\<lambda>f.
                        mul_p f (10 ^ (6 - length fraction)))) (\<lambda>f.
              ok_or (Option.bind (checked_mul w 1000000) (\<lambda>micro. checked_add micro f)) (TooLarge v))))"

text \<open>Six digits, zero-padded.\<close>

definition pad6 :: "nat \<Rightarrow> string" where
  "pad6 n = (let d = show_nat n in replicate (6 - length d) (CHR ''0'') @ d)"

definition format_micro_usd :: "u128 \<Rightarrow> string" where
  "format_micro_usd micro = show_nat (unat micro div 1000000) @ ''.'' @ pad6 (unat micro mod 1000000)"

section \<open>Start-up\<close>

datatype StartError =
    LowSideNotBitcoin
  | NotExactlyOneInstance nat
  | UnitNotAllowed AmountUnit
  | ConfigUnreadable string
  | BandRefused BandTooNarrow
  | RecoveryFailed string
  | PoolUnreadable string

definition KIND :: string where
  "KIND = ''amm''"

definition resolve_amm_config ::
  "(u16, string) table \<Rightarrow> (u16 \<Rightarrow> string + AmmClientConfig) \<Rightarrow> PoolId \<Rightarrow> (AmmClientConfig, StartError) result" where
  "resolve_amm_config modules get_module pool =
     (case map fst (filter (\<lambda>(_, kind). kind = KIND) modules) of
        [instance_id] \<Rightarrow>
          (case get_module instance_id of
             Inl e \<Rightarrow> Err (ConfigUnreadable e)
           | Inr c \<Rightarrow>
               if \<not> contains_key (client_units c) (lo pool) then Err (UnitNotAllowed (lo pool))
               else if \<not> contains_key (client_units c) (hi pool) then Err (UnitNotAllowed (hi pool))
               else Ok c)
      | instances \<Rightarrow> Err (NotExactlyOneInstance (length instances)))"

definition unit_params :: "AmmClientConfig \<Rightarrow> AmountUnit \<Rightarrow> (u64, StartError) result" where
  "unit_params c u = and_then (ok_or (map_of (client_units c) u) (UnitNotAllowed u)) (\<lambda>p. Ok (min_swap_in p))"

record Keeper =
  k_pool :: PoolId
  k_min_swap_in :: MinSwapIn
  k_cfg :: KeeperConfig
  max_oracle_age_secs :: u64
  max_rate_jump_pct :: u64
  max_slippage_bps :: u64
  last_rate_micro :: "u128 option"

definition pool_state :: "PoolId \<Rightarrow> PoolSummary \<Rightarrow> PoolState" where
  "pool_state pool s = \<lparr>unit_lo = lo pool, unit_hi = hi pool, res_lo = ps_reserve_lo s, res_hi = ps_reserve_hi s,
     pool_fee = ps_fee_per_mille s\<rparr>"

definition read_pool :: "PoolId \<Rightarrow> string + PoolSummary list \<Rightarrow> string + PoolState option" where
  "read_pool pool reply = map_sum id (\<lambda>ps. map_option (pool_state pool) (find_pool ps pool)) reply"

text \<open>
  \<open>main\<close> up to the loop: the low side is bitcoin, the market resolves, the start-up recovery finished
  (\<open>recovered\<close>, what \<open>with_startup_retry\<close> returned), and the band is not swallowed by the fee of a pool
  that exists.
\<close>

definition arm ::
  "(u16, string) table \<Rightarrow> (u16 \<Rightarrow> string + AmmClientConfig) \<Rightarrow> string + AmmRecoverySummary \<Rightarrow>
    string + PoolSummary list \<Rightarrow> PoolId \<Rightarrow> KeeperConfig \<Rightarrow> u64 \<Rightarrow> u64 \<Rightarrow> u64 \<Rightarrow> (Keeper, StartError) result" where
  "arm modules get_module recovered pools_reply pool kcfg age pct slip =
     (if lo pool \<noteq> BITCOIN then Err LowSideNotBitcoin
      else
        and_then (resolve_amm_config modules get_module pool) (\<lambda>c.
        and_then (unit_params c (lo pool)) (\<lambda>m_lo.
        and_then (unit_params c (hi pool)) (\<lambda>m_hi.
        (case recovered of
           Inl e \<Rightarrow> Err (RecoveryFailed e)
         | Inr _ \<Rightarrow>
        (case read_pool pool pools_reply of
           Inl e \<Rightarrow> Err (PoolUnreadable e)
         | Inr st \<Rightarrow>
             and_then (case st of
                 None \<Rightarrow> Ok ()
               | Some s \<Rightarrow> map_err BandRefused (check_band_exceeds_fee (band_bps kcfg) (pool_fee s))) (\<lambda>_.
             Ok \<lparr>k_pool = pool, k_min_swap_in = \<lparr>min_lo = m_lo, min_hi = m_hi\<rparr>, k_cfg = kcfg,
                 max_oracle_age_secs = age, max_rate_jump_pct = pct, max_slippage_bps = slip,
                 last_rate_micro = None\<rparr>)))))))"

lemma arm_Ok:
  assumes "arm modules get_module recovered reply pool kcfg age pct slip = Ok k"
  obtains c where "lo pool = BITCOIN" "k_pool k = pool" "k_cfg k = kcfg"
    "unit_params c (lo pool) = Ok (min_lo (k_min_swap_in k))" "unit_params c (hi pool) = Ok (min_hi (k_min_swap_in k))"
    "\<exists>i. get_module i = Inr c \<and> (i, KIND) \<in> set modules"
    "\<And>s. read_pool pool reply = Inr (Some s) \<Longrightarrow> check_band_exceeds_fee (band_bps kcfg) (pool_fee s) = Ok ()"
proof -
  obtain c where c: "lo pool = BITCOIN" "resolve_amm_config modules get_module pool = Ok c"
    "unit_params c (lo pool) = Ok (min_lo (k_min_swap_in k))" "unit_params c (hi pool) = Ok (min_hi (k_min_swap_in k))"
    "k_pool k = pool" "k_cfg k = kcfg"
    using assms by (cases recovered; cases "read_pool pool reply") (auto simp: arm_def result_eqs split: if_splits)
  have "\<And>s. read_pool pool reply = Inr (Some s) \<Longrightarrow> check_band_exceeds_fee (band_bps kcfg) (pool_fee s) = Ok ()"
    using assms by (cases recovered) (auto simp: arm_def result_eqs split: if_splits)
  moreover have "\<exists>i. get_module i = Inr c \<and> (i, KIND) \<in> set modules"
  proof -
    obtain i where i: "map fst (filter (\<lambda>(_, kind). kind = KIND) modules) = [i]" "get_module i = Inr c"
      using c(2) by (auto simp: resolve_amm_config_def split: list.splits sum.splits if_splits)
    then have "i \<in> set (map fst (filter (\<lambda>(_, kind). kind = KIND) modules))" by simp
    then show ?thesis using i(2) by auto
  qed
  ultimately show ?thesis using that c by blast
qed

text \<open>
  The retry of a start-up step: attempt \<open>n\<close> finishes at time \<open>clock n\<close> with \<open>op n\<close>; the answer carries the
  pauses taken, in seconds.
\<close>

partial_function (option) startup_retry ::
  "(nat \<Rightarrow> string + 'a) \<Rightarrow> (nat \<Rightarrow> nat) \<Rightarrow> nat \<Rightarrow> nat \<Rightarrow> nat \<Rightarrow> nat list \<Rightarrow> ((string + 'a) \<times> nat list) option" where
  "startup_retry op clock deadline delay n pauses =
     (case op n of
        Inr v \<Rightarrow> Some (Inr v, pauses)
      | Inl err \<Rightarrow>
          if clock n < deadline then startup_retry op clock deadline (min (delay * 2) 30) (Suc n) (pauses @ [delay])
          else Some (Inl err, pauses))"

definition with_startup_retry :: "(nat \<Rightarrow> string + 'a) \<Rightarrow> nat \<Rightarrow> (nat \<Rightarrow> nat) \<Rightarrow> ((string + 'a) \<times> nat list) option" where
  "with_startup_retry op now clock = startup_retry op clock (now + 300) 2 0 []"

section \<open>The tick\<close>

record tick_env =
  feed_body :: "string + string"
  unix_now :: int
  pools_reply :: "string + PoolSummary list"
  balance_lo_reply :: "string + Amount"
  balance_hi_reply :: "string + Amount"

definition read_oracle ::
  "(string \<Rightarrow> string + Feed) \<Rightarrow> tick_env \<Rightarrow> Keeper \<Rightarrow> (Keeper \<times> u128 option, 'e) result" where
  "read_oracle from_str E k =
     (case feed_body E of
        Inl _ \<Rightarrow> Ok (k, None)
      | Inr body \<Rightarrow>
          (case parse_feed from_str body (unix_now E) (max_oracle_age_secs k) of
             Panic \<Rightarrow> Panic
           | Err _ \<Rightarrow> Ok (k, None)
           | Ok price \<Rightarrow>
               (case (case last_rate_micro k of
                        None \<Rightarrow> Ok ()
                      | Some previous \<Rightarrow> check_jump previous (micro_usd_per_btc price) (max_rate_jump_pct k)) of
                  Panic \<Rightarrow> Panic
                | Err _ \<Rightarrow> Ok (k, None)
                | Ok _ \<Rightarrow> Ok (k\<lparr>last_rate_micro := Some (micro_usd_per_btc price)\<rparr>, Some (micro_usd_per_btc price)))))"

definition read_balances :: "tick_env \<Rightarrow> string + Balances" where
  "read_balances E =
     (case balance_lo_reply E of
        Inl e \<Rightarrow> Inl e
      | Inr l \<Rightarrow> (case balance_hi_reply E of Inl e \<Rightarrow> Inl e | Inr h \<Rightarrow> Inr \<lparr>bal_lo = l, bal_hi = h\<rparr>))"

text \<open>The swap a tick hands to \<open>execute_swap\<close>: input unit, output unit, amount and slippage bound.\<close>

type_synonym swap_order = "AmountUnit \<times> AmountUnit \<times> u64 \<times> u64"

definition tick ::
  "(string \<Rightarrow> string + Feed) \<Rightarrow> tick_env \<Rightarrow> Keeper \<Rightarrow> (Keeper \<times> swap_order option, 'e) result" where
  "tick from_str E k =
     and_then (read_oracle from_str E k) (\<lambda>(k', oracle).
     (case oracle of
        None \<Rightarrow> Ok (k', None)
      | Some oracle_micro \<Rightarrow>
          (case read_pool (k_pool k') (pools_reply E) of
             Inl _ \<Rightarrow> Ok (k', None)
           | Inr None \<Rightarrow> Ok (k', None)
           | Inr (Some st) \<Rightarrow>
               (case read_balances E of
                  Inl _ \<Rightarrow> Ok (k', None)
                | Inr bals \<Rightarrow>
                    and_then (decide st (k_min_swap_in k') oracle_micro bals (k_cfg k')) (\<lambda>decision.
                    (case decision of
                       Trade u_in u_out a \<Rightarrow> Ok (k', Some (u_in, u_out, a, max_slippage_bps k'))
                     | Hold _ \<Rightarrow> Ok (k', None)))))))"

section \<open>What a tick respects\<close>

lemma parse_feed_Ok:
  assumes "parse_feed from_str body now age = Ok price"
  obtains feed quote where "from_str body = Inr feed" "map_of feed BTC_USD = Some quote"
    "micro_usd_from_rate (rate quote) = Ok (micro_usd_per_btc price)"
    "parse_rfc3339_utc (timestamp quote) = Some (timestamp_unix price)"
    "\<bar>now - timestamp_unix price\<bar> \<le> uint age"
proof -
  obtain feed quote micro ts where f: "from_str body = Inr feed" "map_of feed BTC_USD = Some quote"
    "micro_usd_from_rate (rate quote) = Ok micro" "parse_rfc3339_utc (timestamp quote) = Some ts"
    "price = \<lparr>micro_usd_per_btc = micro, timestamp_unix = ts\<rparr>"
    "\<not> (now - ts > (if uint age < 2 ^ 63 then uint age else 2 ^ 63 - 1))"
    "\<not> (now - ts < - (if uint age < 2 ^ 63 then uint age else 2 ^ 63 - 1))"
    using assms by (auto simp: parse_feed_def result_eqs Let_def i64_sub_def split: sum.splits if_splits)
  then show ?thesis using that [of feed quote] by (auto split: if_splits)
qed

lemma read_oracle_Some:
  assumes "read_oracle from_str E k = (Ok (k', Some p) :: (Keeper \<times> u128 option, 'e) result)"
  obtains body price where "feed_body E = Inr body"
    "parse_feed from_str body (unix_now E) (max_oracle_age_secs k) = Ok price" "p = micro_usd_per_btc price"
    "k' = k\<lparr>last_rate_micro := Some p\<rparr>"
    "\<And>previous. last_rate_micro k = Some previous \<Longrightarrow> check_jump previous p (max_rate_jump_pct k) = Ok ()"
  using assms that by (auto simp: read_oracle_def split: sum.splits result.splits option.splits)

text \<open>
  C34. A tick fails closed: it submits a swap only if the feed was fetched and parsed, its price is a
  valid rate whose timestamp is within the allowed age of the clock in either direction, the price is
  within the allowed movement of the last accepted one, the pool was found, both balances were read,
  and the decision on exactly those readings is that trade. It then remembers that price and nothing
  else of the keeper changes.
\<close>

theorem keeper_tick_fails_closed:
  assumes "tick from_str E k = (Ok (k', Some (ui, uo, a, slip)) :: (Keeper \<times> swap_order option, 'e) result)"
  shows "\<exists>body feed quote p ts summaries s bl bh.
    feed_body E = Inr body \<and> from_str body = Inr feed \<and> map_of feed BTC_USD = Some quote \<and>
    micro_usd_from_rate (rate quote) = Ok p \<and> parse_rfc3339_utc (timestamp quote) = Some ts \<and>
    \<bar>unix_now E - ts\<bar> \<le> uint (max_oracle_age_secs k) \<and>
    (case last_rate_micro k of None \<Rightarrow> True | Some previous \<Rightarrow> check_jump previous p (max_rate_jump_pct k) = Ok ()) \<and>
    pools_reply E = Inr summaries \<and> find_pool summaries (k_pool k) = Some s \<and>
    balance_lo_reply E = Inr bl \<and> balance_hi_reply E = Inr bh \<and>
    decide (pool_state (k_pool k) s) (k_min_swap_in k) p \<lparr>bal_lo = bl, bal_hi = bh\<rparr> (k_cfg k) =
      (Ok (Trade ui uo a) :: (Decision, 'e) result) \<and>
    slip = max_slippage_bps k \<and> k' = k\<lparr>last_rate_micro := Some p\<rparr>"
proof -
  obtain k1 p where o: "read_oracle from_str E k = (Ok (k1, Some p) :: (Keeper \<times> u128 option, 'e) result)"
    using assms by (auto simp: tick_def result_eqs split: option.splits)
  obtain body price where f: "feed_body E = Inr body"
    "parse_feed from_str body (unix_now E) (max_oracle_age_secs k) = Ok price" "p = micro_usd_per_btc price"
    "k1 = k\<lparr>last_rate_micro := Some p\<rparr>"
    and j: "\<And>previous. last_rate_micro k = Some previous \<Longrightarrow> check_jump previous p (max_rate_jump_pct k) = Ok ()"
    using read_oracle_Some [OF o] by blast
  obtain feed quote where q: "from_str body = Inr feed" "map_of feed BTC_USD = Some quote"
    "micro_usd_from_rate (rate quote) = Ok p" "parse_rfc3339_utc (timestamp quote) = Some (timestamp_unix price)"
    "\<bar>unix_now E - timestamp_unix price\<bar> \<le> uint (max_oracle_age_secs k)"
    using parse_feed_Ok [OF f(2)] f(3) by metis
  obtain st bals dec where r: "read_pool (k_pool k) (pools_reply E) = Inr (Some st)" "read_balances E = Inr bals"
    "decide st (k_min_swap_in k) p bals (k_cfg k) = (Ok dec :: (Decision, 'e) result)"
    and d: "(case dec of Trade u v b \<Rightarrow> Ok (k1, Some (u, v, b, max_slippage_bps k)) | Hold _ \<Rightarrow> Ok (k1, None)) =
      (Ok (k', Some (ui, uo, a, slip)) :: (Keeper \<times> swap_order option, 'e) result)"
    using assms o f(4) by (auto simp: tick_def and_then_eq_Ok split: sum.splits option.splits)
  from d have dec: "dec = Trade ui uo a" "slip = max_slippage_bps k" "k' = k1" by (cases dec; simp)+
  obtain summaries s where "pools_reply E = Inr summaries" "find_pool summaries (k_pool k) = Some s"
    "st = pool_state (k_pool k) s"
    using r(1) by (cases "pools_reply E") (auto simp: read_pool_def)
  moreover obtain bl bh where "balance_lo_reply E = Inr bl" "balance_hi_reply E = Inr bh"
    "bals = \<lparr>bal_lo = bl, bal_hi = bh\<rparr>"
    using r(2) by (auto simp: read_balances_def split: sum.splits)
  moreover have "case last_rate_micro k of None \<Rightarrow> True | Some previous \<Rightarrow> check_jump previous p (max_rate_jump_pct k) = Ok ()"
    using j by (auto split: option.split)
  ultimately show ?thesis using f(1,4) q r(3) dec by blast
qed

definition demo_feed :: "string \<Rightarrow> string + Feed" where
  "demo_feed body = Inr [(BTC_USD, \<lparr>rate = Finite False 90000 0, timestamp = ''2026-09-01T13:15:33Z''\<rparr>)]"

definition demo_keeper_bot :: Keeper where
  "demo_keeper_bot = \<lparr>k_pool = \<lparr>lo = 0, hi = 1\<rparr>, k_min_swap_in = demo_mins, k_cfg = demo_keeper,
     max_oracle_age_secs = 300, max_rate_jump_pct = 10, max_slippage_bps = 50, last_rate_micro = Some 89000000000\<rparr>"

definition demo_env_tick :: tick_env where
  "demo_env_tick = \<lparr>feed_body = Inr [], unix_now = 1788268600,
     pools_reply = Inr [\<lparr>ps_pool = \<lparr>lo = 0, hi = 1\<rparr>, ps_reserve_lo = 288230376151711741,
       ps_reserve_hi = 288230376151711744, ps_total_shares = 5, ps_fee_per_mille = 3\<rparr>],
     balance_lo_reply = Inr 100, balance_hi_reply = Inr 100\<rparr>"

lemma demo_tick:
  "tick demo_feed demo_env_tick demo_keeper_bot =
    (Ok (demo_keeper_bot\<lparr>last_rate_micro := Some 90000000000\<rparr>, Some (0, 1, 3, 50)) :: (Keeper \<times> swap_order option, 'e) result)"
proof -
  have "micro_usd_from_rate (Finite False 90000 0) = Ok 90000000000"
    by (simp add: micro_usd_from_rate_def round_53_def excess_bits.simps round_half_away_def)
  moreover have "parse_rfc3339_utc ''2026-09-01T13:15:33Z'' = Some 1788268533"
    by (simp add: parse_rfc3339_utc_def upt_rec field_ok_def is_ascii_digit_def char_digit_def num_field_def
        days_in_month_def days_from_civil_def sdiv_eq zone_ok_def)
  ultimately have "parse_feed demo_feed [] 1788268600 300 =
      Ok \<lparr>micro_usd_per_btc = 90000000000, timestamp_unix = 1788268533\<rparr>"
    by (simp add: parse_feed_def demo_feed_def i64_sub_def)
  moreover have "check_jump 89000000000 90000000000 10 = Ok ()"
    by (simp add: check_jump_def abs_diff_def saturating_mul_def)
  ultimately have o: "read_oracle demo_feed demo_env_tick demo_keeper_bot =
      (Ok (demo_keeper_bot\<lparr>last_rate_micro := Some 90000000000\<rparr>, Some 90000000000) :: (Keeper \<times> u128 option, 'e) result)"
    by (simp add: read_oracle_def demo_keeper_bot_def demo_env_tick_def)
  moreover have "read_pool \<lparr>lo = 0, hi = 1\<rparr> (pools_reply demo_env_tick) = Inr (Some demo_state)"
    by (simp add: read_pool_def demo_env_tick_def find_pool_def pool_state_def demo_state_def)
  moreover have "read_balances demo_env_tick = Inr demo_balances"
    by (simp add: read_balances_def demo_env_tick_def demo_balances_def)
  ultimately show ?thesis
    using demo_decide [where 'e = 'e] by (simp add: tick_def demo_keeper_bot_def)
qed

theorem keeper_tick_fails_closed_witness:
  "\<exists>p. decide demo_state demo_mins p demo_balances demo_keeper = (Ok (Trade 0 1 3) :: (Decision, unit) result)"
  using keeper_tick_fails_closed [OF demo_tick [where 'e = unit]]
  by (auto simp: demo_env_tick_def demo_keeper_bot_def find_pool_def pool_state_def demo_state_def demo_balances_def)

section \<open>Flags print and parse\<close>

lemma digits_value_append:
  "digits_value acc (xs @ ys) = (case digits_value acc xs of None \<Rightarrow> None | Some a \<Rightarrow> digits_value a ys)"
  by (induction acc xs rule: digits_value.induct) (auto split: option.splits)

lemma digits_value_show: "digits_value 0 (show_nat n) = Some n"
proof (induction n rule: show_nat.induct)
  case (1 n)
  show ?case
  proof (cases "n < 10")
    case True
    then show ?thesis by (simp add: show_nat.simps [of n] char_digit_digit_char)
  next
    case False
    then show ?thesis using "1.IH"
      by (simp add: show_nat.simps [of n] digits_value_append char_digit_digit_char)
  qed
qed

lemma show_nat_ascii: "list_all is_ascii_digit (show_nat n)"
  by (auto simp: list_all_iff dest!: show_nat_digits)

lemma length_show_nat: "0 < k \<Longrightarrow> n < 10 ^ k \<Longrightarrow> length (show_nat n) \<le> k"
proof (induction n arbitrary: k rule: show_nat.induct)
  case (1 n)
  show ?case
  proof (cases "n < 10")
    case True
    then show ?thesis using 1 by (simp add: show_nat.simps [of n])
  next
    case False
    then obtain j where "k = Suc j" "0 < j" using 1 by (cases k; cases "k - 1") auto
    then show ?thesis using "1.IH" [OF False, of j] "1.prems"(2) False by (simp add: show_nat.simps [of n])
  qed
qed

lemma digits_value_zeros: "digits_value 0 (replicate k (CHR ''0'') @ s) = digits_value 0 s"
  by (induction k) (auto simp: char_digit_def)

lemma pad6_facts:
  assumes "n < 1000000"
  shows "length (pad6 n) = 6" and "digits_value 0 (pad6 n) = Some n" and "list_all is_ascii_digit (pad6 n)"
proof -
  have "length (show_nat n) \<le> 6" using length_show_nat [of 6 n] assms by simp
  then show "length (pad6 n) = 6" by (simp add: pad6_def Let_def)
  show "digits_value 0 (pad6 n) = Some n" by (simp add: pad6_def Let_def digits_value_zeros digits_value_show)
  have "is_ascii_digit (CHR ''0'')" by (simp add: is_ascii_digit_def char_digit_def)
  then show "list_all is_ascii_digit (pad6 n)"
    using show_nat_ascii [of n] by (auto simp: pad6_def Let_def list_all_iff)
qed

lemma parse_u128_of_value:
  "s \<noteq> [] \<Longrightarrow> digits_value 0 s = Some (unat w) \<Longrightarrow> parse_u128_digits s = Some w"
  using unat_u128 [of w] by (simp add: parse_u128_digits_def)

lemma dot_not_digit: "list_all is_ascii_digit s \<Longrightarrow> CHR ''.'' \<notin> set s"
  by (auto simp: list_all_iff is_ascii_digit_def char_digit_def)

text \<open>
  A dollar amount survives printing and parsing: for every number of micro-dollars the flag can
  hold, parsing what the log prints gives the number back, without a float on the way.
\<close>

theorem dollars_roundtrip: "parse_micro_usd (format_micro_usd m) = Ok m"
proof -
  let ?w = "unat m div 1000000" and ?f = "unat m mod 1000000"
  have f: "?f < 1000000" by simp
  note pad = pad6_facts [OF f]
  define w f where "w = (of_nat ?w :: u128)" and "f = (of_nat ?f :: u128)"
  have "?w < 2 ^ 128" using unat_u128 [of m] by (simp add: less_mult_imp_div_less)
  then have uw: "unat w = ?w" by (simp add: w_def unat_of_nat)
  have uf: "unat f = ?f" by (simp add: f_def unat_of_nat)
  have split: "split_once (CHR ''.'') (format_micro_usd m) = Some (show_nat ?w, pad6 ?f)"
    unfolding format_micro_usd_def using dot_not_digit [OF show_nat_ascii] by (simp add: split_once_append)
  have "pad6 ?f \<noteq> []" using pad(1) by auto
  then have "parse_u128_digits (show_nat ?w) = Some w" "parse_u128_digits (pad6 ?f) = Some f"
    using show_nat_nonempty digits_value_show pad(2) uw uf by (auto intro: parse_u128_of_value)
  moreover have "mul_p f 1 = (Ok f :: (u128, FlagError) result)"
    using unat_u128 [of f] by (simp add: op_p_Ok)
  moreover have "?w * 1000000 \<le> unat m" by simp
  then have "unat w * 1000000 < 2 ^ 128" unfolding uw by (rule order_le_less_trans) (use unat_u128 [of m] in simp)
  then obtain v where v: "checked_mul w 1000000 = Some v" "unat v = ?w * 1000000"
    using uw by (cases "checked_mul w 1000000") (auto simp: checked_mul_None checked_mul_Some)
  moreover have "checked_add v f = Some m" using v(2) uf by (simp add: checked_add_Some)
  ultimately show ?thesis
    using split pad(1,3) show_nat_ascii \<open>pad6 ?f \<noteq> []\<close> show_nat_nonempty by (simp add: parse_micro_usd_def)
qed

text \<open>
  Start-up retrying ends: if the clock ever passes the deadline, or an attempt succeeds, the retry
  returns the first success or the error of the first attempt after the deadline, and no pause it took
  is longer than half a minute.
\<close>

theorem startup_retry_ends:
  assumes "\<exists>n. now + 300 \<le> clock n \<or> (\<exists>v. op n = Inr v)"
  shows "\<exists>r pauses n. with_startup_retry op now clock = Some (r, pauses) \<and> r = op n \<and> length pauses = n \<and>
    (\<forall>i < n. \<exists>e. op i = Inl e \<and> clock i < now + 300) \<and> list_all (\<lambda>d. d \<le> 30) pauses"
proof -
  define stop where "stop n \<longleftrightarrow> now + 300 \<le> clock n \<or> (\<exists>v. op n = Inr v)" for n
  define n where "n = (LEAST n. stop n)"
  have n: "stop n" "\<And>i. i < n \<Longrightarrow> \<not> stop i"
    using assms unfolding n_def stop_def [symmetric] by (auto intro: LeastI_ex dest: not_less_Least)
  have "\<exists>ps. startup_retry op clock (now + 300) d i qs = Some (op n, qs @ ps) \<and> length ps = n - i \<and>
      list_all (\<lambda>d. d \<le> 30) ps" if "i \<le> n" "d \<le> 30" for d i qs
    using that
  proof (induction "n - i" arbitrary: d i qs)
    case 0
    then have "i = n" by simp
    then show ?case using n(1) by (subst startup_retry.simps) (auto simp: stop_def split: sum.split)
  next
    case (Suc k)
    then have k: "k = n - Suc i" "Suc i \<le> n" and "\<not> stop i" using n(2) by auto
    then obtain e where "op i = Inl e" "clock i < now + 300" by (cases "op i") (auto simp: stop_def)
    then have step: "startup_retry op clock (now + 300) d i qs =
        startup_retry op clock (now + 300) (min (d * 2) 30) (Suc i) (qs @ [d])"
      by (subst startup_retry.simps) simp
    obtain ps where "startup_retry op clock (now + 300) (min (d * 2) 30) (Suc i) (qs @ [d]) = Some (op n, (qs @ [d]) @ ps)"
      "length ps = n - Suc i" "list_all (\<lambda>d. d \<le> 30) ps"
      using Suc.hyps(1) [of "Suc i" "min (d * 2) 30" "qs @ [d]"] k by auto
    then show ?case using step Suc.prems Suc.hyps(2) by (intro exI [of _ "d # ps"]) auto
  qed
  from this [of 0 2 "[]"] obtain ps where "with_startup_retry op now clock = Some (op n, ps)" "length ps = n"
    "list_all (\<lambda>d. d \<le> 30) ps" by (auto simp: with_startup_retry_def)
  moreover have "\<exists>e. op i = Inl e \<and> clock i < now + 300" if "i < n" for i
    using n(2) [OF that] by (cases "op i") (auto simp: stop_def)
  ultimately show ?thesis by blast
qed

theorem startup_retry_ends_witness:
  "\<exists>r pauses. with_startup_retry (\<lambda>n. if n = 2 then Inr () else Inl ''down'') 0 (\<lambda>n. n) = Some (r, pauses) \<and>
     list_all (\<lambda>d. d \<le> 30) pauses"
proof -
  let ?op = "\<lambda>n :: nat. if n = 2 then Inr () else (Inl ''down'' :: string + unit)"
  have "\<exists>n. 0 + 300 \<le> (\<lambda>n. n) n \<or> (\<exists>v. ?op n = Inr v)" by (rule exI [of _ 2]) simp
  from startup_retry_ends [OF this] show ?thesis by blast
qed

end
