(* ===== verification/Usdt_Common.thy ===== *)
theory Usdt_Common
  imports Prelude
begin

text \<open>
  What both sides of the USDT module share, from \<open>modules/usdt/fedimint-usdt-common/src/lib.rs\<close>:
  addresses and their hexadecimal form, the fee quotes computed from the guardians' votes, the
  price-feed conversion, the derivation of deposit and pool accounts with the scan tag a client
  grinds for, and the checks of the generation parameters.

  An address is the number its twenty bytes spell. Byte strings are lists of \<open>u8\<close>; a Rust string is the list of its UTF-8 bytes. Keccak-256, the
  secp256k1 operations and the ABI encoders of alloy are not part of this repository: they are the
  record \<open>evm_platform\<close>, an argument of every definition that uses them.
\<close>

type_synonym bytes = "u8 list"
type_synonym EvmAddress = "160 word"
type_synonym u256 = "256 word"

definition USDT_UNIT :: AmountUnit where
  "USDT_UNIT = 1"

section \<open>Bytes\<close>

text \<open>\<open>to_be_bytes\<close> and \<open>from_be_bytes\<close> of an integer of \<open>n\<close> bytes.\<close>

fun be_bytes :: "nat \<Rightarrow> nat \<Rightarrow> bytes" where
  "be_bytes 0 x = []"
| "be_bytes (Suc n) x = be_bytes n (x div 256) @ [of_nat (x mod 256)]"

definition of_be_bytes :: "bytes \<Rightarrow> nat" where
  "of_be_bytes bs = foldl (\<lambda>acc b. acc * 256 + unat b) 0 bs"

lemma length_be_bytes [simp]: "length (be_bytes n x) = n"
  by (induction n arbitrary: x) auto

lemma of_be_bytes_append: "of_be_bytes (xs @ [b]) = of_be_bytes xs * 256 + unat b"
  by (simp add: of_be_bytes_def)

lemma of_be_be_bytes: "x < 256 ^ n \<Longrightarrow> of_be_bytes (be_bytes n x) = x"
proof (induction n arbitrary: x)
  case (Suc n)
  have "x div 256 < 256 ^ n" using Suc.prems by (simp add: less_mult_imp_div_less mult.commute)
  with Suc.IH show ?case by (simp add: of_be_bytes_append unat_of_nat)
qed (simp add: of_be_bytes_def)

lemma be_bytes_inject:
  "x < 256 ^ n \<Longrightarrow> y < 256 ^ n \<Longrightarrow> be_bytes n x = be_bytes n y \<longleftrightarrow> x = y"
  by (metis of_be_be_bytes)

text \<open>The bytes of an address, and the address of twenty bytes.\<close>

definition addr_bytes :: "EvmAddress \<Rightarrow> bytes" where
  "addr_bytes a = be_bytes 20 (unat a)"

definition addr_of_bytes :: "bytes \<Rightarrow> EvmAddress" where
  "addr_of_bytes bs = of_nat (of_be_bytes bs)"

lemma addr_of_addr_bytes [simp]: "addr_of_bytes (addr_bytes a) = a"
  using of_be_be_bytes [of "unat a" 20] unat_bound [of a] by (simp add: addr_of_bytes_def addr_bytes_def)

section \<open>Addresses as strings\<close>

definition hex_char :: "nat \<Rightarrow> char" where
  "hex_char d = char_of (if d < 10 then 48 + d else 87 + d)"

definition hex_digit :: "char \<Rightarrow> nat option" where
  "hex_digit c =
     (let n = (of_char c :: nat) in
      if 48 \<le> n \<and> n \<le> 57 then Some (n - 48)
      else if 97 \<le> n \<and> n \<le> 102 then Some (n - 87)
      else if 65 \<le> n \<and> n \<le> 70 then Some (n - 55)
      else None)"

definition EvmAddress_to_string :: "EvmAddress \<Rightarrow> string" where
  "EvmAddress_to_string a = ''0x'' @ concat (map (\<lambda>b. [hex_char (unat b div 16), hex_char (unat b mod 16)]) (addr_bytes a))"

text \<open>\<open>u8::from_str_radix(_, 16)\<close> on two bytes: a leading plus sign is allowed.\<close>

definition u8_from_hex :: "char \<Rightarrow> char \<Rightarrow> u8 option" where
  "u8_from_hex a b =
     (if a = CHR ''+'' then map_option of_nat (hex_digit b)
      else (case (hex_digit a, hex_digit b) of
              (Some x, Some y) \<Rightarrow> Some (of_nat (x * 16 + y))
            | _ \<Rightarrow> None))"

datatype AddressError = BadAddressLength nat | BadHexByte nat

text \<open>A byte inside a multi-byte UTF-8 sequence; slicing a string there panics.\<close>

definition is_continuation :: "char \<Rightarrow> bool" where
  "is_continuation c \<longleftrightarrow> 128 \<le> (of_char c :: nat) \<and> (of_char c :: nat) < 192"

fun parse_hex_bytes :: "nat \<Rightarrow> string \<Rightarrow> (bytes, AddressError) result" where
  "parse_hex_bytes i [] = Ok []"
| "parse_hex_bytes i [_] = Panic"
| "parse_hex_bytes i (a # b # rest) =
     (if is_continuation a \<or> (rest \<noteq> [] \<and> is_continuation (hd rest)) then Panic
      else and_then (ok_or (u8_from_hex a b) (BadHexByte i)) (\<lambda>v.
           and_then (parse_hex_bytes (Suc i) rest) (\<lambda>vs. Ok (v # vs))))"

definition EvmAddress_from_str :: "string \<Rightarrow> (EvmAddress, AddressError) result" where
  "EvmAddress_from_str s =
     (let hex_str = (if take 2 s = ''0x'' then drop 2 s else s) in
      if length hex_str = 40 then and_then (parse_hex_bytes 0 hex_str) (\<lambda>bs. Ok (addr_of_bytes bs)) else Err (BadAddressLength (length hex_str)))"

section \<open>Fee votes and quotes\<close>

record FeeVote =
  max_fee_per_gas_wei :: u64
  usdt_per_eth_e6 :: u64

definition MAX_SANE_MAX_FEE_PER_GAS_WEI :: u64 where
  "MAX_SANE_MAX_FEE_PER_GAS_WEI = 10000000000000"

definition MAX_SANE_USDT_PER_ETH_E6 :: u64 where
  "MAX_SANE_USDT_PER_ETH_E6 = 1000000000000"

definition fee_vote_in_sane_range :: "FeeVote \<Rightarrow> bool" where
  "fee_vote_in_sane_range vote \<longleftrightarrow>
     1 \<le> max_fee_per_gas_wei vote \<and> max_fee_per_gas_wei vote \<le> MAX_SANE_MAX_FEE_PER_GAS_WEI \<and>
     1 \<le> usdt_per_eth_e6 vote \<and> usdt_per_eth_e6 vote \<le> MAX_SANE_USDT_PER_ETH_E6"

definition WITHDRAWAL_GAS_UNITS :: u128 where
  "WITHDRAWAL_GAS_UNITS = 360000"

definition WITHDRAWAL_FEE_BUFFER_PERCENT :: u128 where
  "WITHDRAWAL_FEE_BUFFER_PERCENT = 20"

definition MIN_WITHDRAWAL_FEE :: u64 where
  "MIN_WITHDRAWAL_FEE = 10000"

definition SWEEP_GAS_UNITS :: u128 where
  "SWEEP_GAS_UNITS = 800000"

definition MIN_DEPOSIT_FEE :: u64 where
  "MIN_DEPOSIT_FEE = 10000"

definition WEI_PER_ETH :: u128 where
  "WEI_PER_ETH = 1000000000000000000"

definition gas_cost_fee_quote :: "u128 \<Rightarrow> FeeVote \<Rightarrow> u64 \<Rightarrow> u64 option" where
  "gas_cost_fee_quote gas_units median floor_raw =
     Option.bind (checked_mul gas_units (ucast (max_fee_per_gas_wei median))) (\<lambda>gas_cost_wei.
     Option.bind (checked_mul gas_cost_wei (ucast (usdt_per_eth_e6 median))) (\<lambda>raw.
     Option.bind (checked_mul raw (100 + WITHDRAWAL_FEE_BUFFER_PERCENT)) (\<lambda>numerator.
     Option.bind (checked_mul WEI_PER_ETH 100) (\<lambda>denominator.
     Option.bind (checked_add numerator (denominator - 1)) (\<lambda>rounded.
     Option.bind (checked_div rounded denominator) (\<lambda>fee.
       try_into (max fee (ucast floor_raw))))))))"

definition wei_gas_cost_to_usdt :: "u128 \<Rightarrow> u64 \<Rightarrow> u64 option" where
  "wei_gas_cost_to_usdt gas_cost_wei rate =
     Option.bind (checked_mul gas_cost_wei (ucast rate)) (\<lambda>numerator.
     Option.bind (checked_add numerator (WEI_PER_ETH - 1)) (\<lambda>rounded.
     Option.bind (checked_div rounded WEI_PER_ETH) try_into))"

definition withdrawal_fee_quote :: "FeeVote \<Rightarrow> u64 option" where
  "withdrawal_fee_quote median = gas_cost_fee_quote WITHDRAWAL_GAS_UNITS median MIN_WITHDRAWAL_FEE"

definition deposit_fee_quote :: "FeeVote \<Rightarrow> u64 option" where
  "deposit_fee_quote median = gas_cost_fee_quote SWEEP_GAS_UNITS median MIN_DEPOSIT_FEE"

text \<open>\<open>10u128.checked_pow\<close>, by repeated checked multiplication.\<close>

fun checked_pow10 :: "nat \<Rightarrow> u128 option" where
  "checked_pow10 0 = Some 1"
| "checked_pow10 (Suc n) = Option.bind (checked_pow10 n) (\<lambda>p. checked_mul p 10)"

definition chainlink_eth_usd_to_usdt_per_eth_e6 ::
  "int \<Rightarrow> u8 \<Rightarrow> u128 \<Rightarrow> u128 \<Rightarrow> u64 \<Rightarrow> u64 \<Rightarrow> u64 \<Rightarrow> u64 option" where
  "chainlink_eth_usd_to_usdt_per_eth_e6 answer feed_decimals round_id answered_in_round updated_at chain_now max_staleness_secs =
     (if answer \<le> 0 \<or> answered_in_round < round_id then None
      else Option.bind (checked_sub chain_now updated_at) (\<lambda>age.
        if age > max_staleness_secs then None
        else Option.bind (if answer < 2 ^ 128 then Some (of_int answer :: u128) else None) (\<lambda>a.
          Option.bind (checked_mul a 1000000) (\<lambda>scaled.
          Option.bind (checked_pow10 (unat feed_decimals)) (\<lambda>divisor.
          Option.bind (checked_div scaled divisor) try_into)))))"

section \<open>Accounts\<close>

record evm_platform =
  keccak256 :: "bytes \<Rightarrow> bytes"
  serialize_uncompressed :: "PublicKey \<Rightarrow> bytes"
  add_exp_tweak :: "PublicKey \<Rightarrow> u64 \<Rightarrow> PublicKey option"
  create2 :: "EvmAddress \<Rightarrow> bytes \<Rightarrow> bytes \<Rightarrow> EvmAddress"
  initialize_encode :: "EvmAddress \<Rightarrow> bytes"
  ctor_args_encode :: "EvmAddress \<Rightarrow> bytes \<Rightarrow> bytes"
  createAccount_encode :: "EvmAddress \<Rightarrow> bytes \<Rightarrow> bytes"
  transfer_encode :: "EvmAddress \<Rightarrow> u256 \<Rightarrow> bytes"
  transfer_decode :: "bytes \<Rightarrow> (EvmAddress \<times> u256) option"
  execute_encode :: "EvmAddress \<Rightarrow> u256 \<Rightarrow> bytes \<Rightarrow> bytes"
  execute_decode :: "bytes \<Rightarrow> (EvmAddress \<times> u256 \<times> bytes) option"
  executeBatch_encode :: "EvmAddress list \<Rightarrow> u256 list \<Rightarrow> bytes list \<Rightarrow> bytes"
  executeBatch_decode :: "bytes \<Rightarrow> (EvmAddress list \<times> u256 list \<times> bytes list) option"
  withdrawTo_encode :: "EvmAddress \<Rightarrow> u256 \<Rightarrow> bytes"
  withdrawTo_decode :: "bytes \<Rightarrow> (EvmAddress \<times> u256) option"
  user_op_params_encode :: "EvmAddress \<Rightarrow> u256 \<Rightarrow> bytes \<Rightarrow> bytes \<Rightarrow> bytes \<Rightarrow> u256 \<Rightarrow> bytes \<Rightarrow> bytes \<Rightarrow> bytes"
  op_domain_params_encode :: "bytes \<Rightarrow> EvmAddress \<Rightarrow> u256 \<Rightarrow> bytes"
  recover_ecdsa :: "nat \<Rightarrow> bytes \<Rightarrow> bytes \<Rightarrow> PublicKey option"
  verify_ecdsa :: "bytes \<Rightarrow> bytes \<Rightarrow> PublicKey \<Rightarrow> bool"
  is_compact_signature :: "bytes \<Rightarrow> bool"
  header_state_root :: "bytes \<Rightarrow> bytes option"
  account_storage_root :: "bytes \<Rightarrow> bytes option"
  u256_rlp_decode :: "bytes \<Rightarrow> u256 option"
  trie_leaf_value :: "bytes \<Rightarrow> bytes option"
  verify_proof :: "bytes \<Rightarrow> bytes \<Rightarrow> bytes option \<Rightarrow> bytes list \<Rightarrow> bool"
  threshold_of :: "nat \<Rightarrow> nat"

definition DEPOSIT_ADDRESS_DOMAIN :: bytes where
  "DEPOSIT_ADDRESS_DOMAIN = map of_char ''fedimint-usdt-deposit-v0''"

definition SCAN_PREDICATE_DOMAIN :: bytes where
  "SCAN_PREDICATE_DOMAIN = map of_char ''fedimint-usdt-scan-v0''"

definition POOL_ACCOUNT_DOMAIN :: bytes where
  "POOL_ACCOUNT_DOMAIN = map of_char ''fedimint-usdt-pool-v0''"

definition SIGNING_SESSION_DOMAIN :: bytes where
  "SIGNING_SESSION_DOMAIN = map of_char ''fedimint-usdt-signing-v0''"

definition DEPOSIT_SCAN_TAG_BITS :: nat where
  "DEPOSIT_SCAN_TAG_BITS = 16"

definition USDT_BALANCES_SLOT :: nat where
  "USDT_BALANCES_SLOT = 2"

definition balances_storage_key :: "evm_platform \<Rightarrow> EvmAddress \<Rightarrow> bytes" where
  "balances_storage_key P account = keccak256 P ((replicate 12 0 @ addr_bytes account) @ be_bytes 32 USDT_BALANCES_SLOT)"

definition evm_address :: "evm_platform \<Rightarrow> PublicKey \<Rightarrow> EvmAddress" where
  "evm_address P pk = addr_of_bytes (drop 12 (keccak256 P (drop 1 (serialize_uncompressed P pk))))"

definition nonce_rlp :: "u64 \<Rightarrow> bytes" where
  "nonce_rlp nonce =
     (case dropWhile (\<lambda>b. b = 0) (be_bytes 8 (unat nonce)) of
        [] \<Rightarrow> [0x80]
      | significant \<Rightarrow>
          if length significant = 1 \<and> hd significant < 0x80 then significant
          else (0x80 + of_nat (length significant)) # significant)"

definition create_address :: "evm_platform \<Rightarrow> EvmAddress \<Rightarrow> u64 \<Rightarrow> EvmAddress" where
  "create_address P deployer nonce =
     (let payload = 0x94 # addr_bytes deployer @ nonce_rlp nonce
      in addr_of_bytes (drop 12 (keccak256 P ((0xc0 + of_nat (length payload)) # payload))))"

definition deposit_salt :: "evm_platform \<Rightarrow> PublicKey \<Rightarrow> bytes" where
  "deposit_salt P claim_pk = keccak256 P (DEPOSIT_ADDRESS_DOMAIN @ claim_pk)"

definition pool_salt :: "evm_platform \<Rightarrow> bytes" where
  "pool_salt P = keccak256 P POOL_ACCOUNT_DOMAIN"

text \<open>A hexadecimal literal of the source, as bytes.\<close>

fun hex_literal :: "string \<Rightarrow> bytes" where
  "hex_literal (a # b # rest) =
     of_nat ((case hex_digit a of Some x \<Rightarrow> x | None \<Rightarrow> 0) * 16 + (case hex_digit b of Some y \<Rightarrow> y | None \<Rightarrow> 0)) # hex_literal rest"
| "hex_literal _ = []"

definition ERC1967_PROXY_CREATION_CODE :: bytes where
  "ERC1967_PROXY_CREATION_CODE = hex_literal (
     ''608060405260405161041738038061041783398101604081905261002291610268565b61002c8282610033565b5050610352'' @
     ''565b61003c82610092565b6040516001600160a01b038316907fbc7cd75a20ee27fd9adebab32041f755214dbc6bffa90cc0'' @
     ''225b39da2e5c2d3b90600090a280511561008657610081828261010e565b505050565b61008e610185565b5050565b806001'' @
     ''600160a01b03163b6000036100cd57604051634c9c8ce360e01b81526001600160a01b03821660048201526024015b604051'' @
     ''80910390fd5b7f360894a13ba1a3210667c828492db98dca3e2076cc3735a920a3ca505d382bbc80546001600160a01b0319'' @
     ''166001600160a01b0392909216919091179055565b6060600080846001600160a01b03168460405161012b9190610336565b'' @
     ''600060405180830381855af49150503d8060008114610166576040519150601f19603f3d011682016040523d82523d600060'' @
     ''2084013e61016b565b606091505b50909250905061017c8583836101a6565b95945050505050565b34156101a45760405163'' @
     ''b398979f60e01b815260040160405180910390fd5b565b6060826101bb576101b682610205565b6101fe565b815115801561'' @
     ''01d257506001600160a01b0384163b155b156101fb57604051639996b31560e01b81526001600160a01b0385166004820152'' @
     ''6024016100c4565b50805b9392505050565b8051156102155780518082602001fd5b604051630a12f52160e11b8152600401'' @
     ''60405180910390fd5b634e487b7160e01b600052604160045260246000fd5b60005b8381101561025f578181015183820152'' @
     ''602001610247565b50506000910152565b6000806040838503121561027b57600080fd5b82516001600160a01b0381168114'' @
     ''61029257600080fd5b60208401519092506001600160401b03808211156102af57600080fd5b818501915085601f83011261'' @
     ''02c357600080fd5b8151818111156102d5576102d561022e565b604051601f8201601f19908116603f011681019083821181'' @
     ''831017156102fd576102fd61022e565b8160405282815288602084870101111561031657600080fd5b610327836020830160'' @
     ''208801610244565b80955050505050509250929050565b60008251610348818460208701610244565b919091019291505056'' @
     ''5b60b7806103606000396000f3fe6080604052600a600c565b005b60186014601a565b605e565b565b600060597f360894a1'' @
     ''3ba1a3210667c828492db98dca3e2076cc3735a920a3ca505d382bbc5473ffffffffffffffffffffffffffffffffffffffff'' @
     ''1690565b905090565b3660008037600080366000845af43d6000803e808015607c573d6000f35b3d6000fdfea26469706673'' @
     ''58221220d7f23a80daebb5531c9e4a18d87e812fca112e5df7e56433218edcc12bbe415d64736f6c63430008170033'')"

definition deposit_init_code_hash :: "evm_platform \<Rightarrow> EvmAddress \<Rightarrow> EvmAddress \<Rightarrow> bytes" where
  "deposit_init_code_hash P simple_account_impl owner =
     keccak256 P (ERC1967_PROXY_CREATION_CODE @ ctor_args_encode P simple_account_impl (initialize_encode P owner))"

definition create2_simple_account :: "evm_platform \<Rightarrow> EvmAddress \<Rightarrow> EvmAddress \<Rightarrow> EvmAddress \<Rightarrow> bytes \<Rightarrow> EvmAddress" where
  "create2_simple_account P account_factory simple_account_impl owner salt =
     create2 P account_factory salt (deposit_init_code_hash P simple_account_impl owner)"

definition derive_deposit_account ::
  "evm_platform \<Rightarrow> PublicKey \<Rightarrow> EvmAddress \<Rightarrow> EvmAddress \<Rightarrow> PublicKey \<Rightarrow> EvmAddress" where
  "derive_deposit_account P group_public_key account_factory simple_account_impl claim_pk =
     create2_simple_account P account_factory simple_account_impl (evm_address P group_public_key) (deposit_salt P claim_pk)"

definition derive_pool_account :: "evm_platform \<Rightarrow> PublicKey \<Rightarrow> EvmAddress \<Rightarrow> EvmAddress \<Rightarrow> EvmAddress" where
  "derive_pool_account P group_public_key account_factory simple_account_impl =
     create2_simple_account P account_factory simple_account_impl (evm_address P group_public_key) (pool_salt P)"

definition has_leading_zero_bits :: "bytes \<Rightarrow> nat \<Rightarrow> bool" where
  "has_leading_zero_bits bs bits =
     (let full = bits div 8; rem = bits mod 8 in
      if length bs < full + (if rem > 0 then 1 else 0) then False
      else if list_ex (\<lambda>b. b \<noteq> 0) (take full bs) then False
      else rem = 0 \<or> drop_bit (8 - rem) (bs ! full) = 0)"

definition is_potential_deposit :: "evm_platform \<Rightarrow> PublicKey \<Rightarrow> EvmAddress \<Rightarrow> bool" where
  "is_potential_deposit P group_public_key account =
     has_leading_zero_bits (keccak256 P (SCAN_PREDICATE_DOMAIN @ group_public_key @ addr_bytes account)) DEPOSIT_SCAN_TAG_BITS"

definition MAX_SCAN_GRIND_ITERATIONS :: u64 where
  "MAX_SCAN_GRIND_ITERATIONS = 4194304"

datatype ScanError = TweakOffset | TweakStep

text \<open>The loop of \<open>find_scan_tweak\<close>: \<open>n\<close> candidates are left, the first is \<open>tweak\<close> with key \<open>pk\<close>.\<close>

fun scan_loop ::
  "evm_platform \<Rightarrow> PublicKey \<Rightarrow> EvmAddress \<Rightarrow> bytes \<Rightarrow> PublicKey \<Rightarrow> u64 \<Rightarrow> nat \<Rightarrow>
    ((u64 \<times> PublicKey \<times> EvmAddress) option, ScanError) result" where
  "scan_loop P gpk factory init_hash pk tweak 0 = Ok None"
| "scan_loop P gpk factory init_hash pk tweak (Suc n) =
     (let account = create2 P factory (deposit_salt P pk) init_hash in
      if is_potential_deposit P gpk account then Ok (Some (tweak, pk, account))
      else and_then (ok_or (add_exp_tweak P pk 1) TweakStep) (\<lambda>pk'.
             scan_loop P gpk factory init_hash pk' (tweak + 1) n))"

definition find_scan_tweak ::
  "evm_platform \<Rightarrow> PublicKey \<Rightarrow> EvmAddress \<Rightarrow> EvmAddress \<Rightarrow> PublicKey \<Rightarrow> u64 \<Rightarrow> u64 \<Rightarrow>
    ((u64 \<times> PublicKey \<times> EvmAddress) option, ScanError) result" where
  "find_scan_tweak P gpk factory impl base_pk start_at end_at =
     (let end_at = min end_at MAX_SCAN_GRIND_ITERATIONS in
      if start_at \<ge> end_at then Ok None
      else
        let init_hash = deposit_init_code_hash P impl (evm_address P gpk) in
        and_then (if start_at = 0 then Ok base_pk else ok_or (add_exp_tweak P base_pk start_at) TweakOffset) (\<lambda>pk.
          scan_loop P gpk factory init_hash pk start_at (unat end_at - unat start_at)))"

definition signing_session_id :: "evm_platform \<Rightarrow> bytes \<Rightarrow> u32 \<Rightarrow> bytes" where
  "signing_session_id P digest attempt = keccak256 P (SIGNING_SESSION_DOMAIN @ digest @ be_bytes 4 (unat attempt))"

section \<open>Generation parameters\<close>

record UsdtGenParams =
  gp_usdt_contract :: EvmAddress
  gp_chain_id :: u64
  gp_confirmation_depth :: u64
  gp_entry_point :: EvmAddress
  gp_account_factory :: EvmAddress
  gp_simple_account_impl :: EvmAddress
  gp_broadcaster_min_balance_wei :: u64
  gp_eth_usd_price_feed :: EvmAddress
  gp_price_feed_max_staleness_secs :: u64
  gp_residual_recovery_recipient :: EvmAddress

definition zero_address :: EvmAddress where
  "zero_address = 0"

definition UsdtGenParams_default :: UsdtGenParams where
  "UsdtGenParams_default =
     \<lparr>gp_usdt_contract = zero_address, gp_chain_id = 31337, gp_confirmation_depth = 1,
      gp_entry_point = zero_address, gp_account_factory = zero_address, gp_simple_account_impl = zero_address,
      gp_broadcaster_min_balance_wei = 50000000000000000,
      gp_eth_usd_price_feed = 0x5f4ec3df9cbd43714fe2740f5e3616155c5b8419,
      gp_price_feed_max_staleness_secs = 14400, gp_residual_recovery_recipient = zero_address\<rparr>"

definition is_dev_chain :: "u64 \<Rightarrow> bool" where
  "is_dev_chain chain_id \<longleftrightarrow> chain_id = 31337 \<or> chain_id = 1337"

definition MIN_PROD_CONFIRMATION_DEPTH :: u64 where
  "MIN_PROD_CONFIRMATION_DEPTH = 6"

definition MAX_BROADCASTER_MIN_BALANCE_WEI :: u64 where
  "MAX_BROADCASTER_MIN_BALANCE_WEI = 10000000000000000000"

datatype ParamsError =
    DepthZero
  | DepthBelowMinimum u64
  | PlaceholderContract
  | PlaceholderEntryPoint
  | PlaceholderFactory
  | PlaceholderImpl
  | PlaceholderRecipient
  | StalenessOutOfRange u64
  | MinBalanceZero
  | MinBalanceTooHigh u64

text \<open>\<open>unsafe_ack\<close>: the environment variable that accepts a low confirmation depth is set to 1.\<close>

definition validate_usdt_params :: "bool \<Rightarrow> UsdtGenParams \<Rightarrow> (unit, ParamsError) result" where
  "validate_usdt_params unsafe_ack p =
     and_then (ensure (gp_confirmation_depth p \<ge> 1) DepthZero) (\<lambda>_.
     and_then (if is_dev_chain (gp_chain_id p) then Ok ()
       else and_then (ensure (gp_confirmation_depth p \<ge> MIN_PROD_CONFIRMATION_DEPTH \<or> unsafe_ack)
              (DepthBelowMinimum (gp_confirmation_depth p))) (\<lambda>_.
            and_then (ensure (gp_usdt_contract p \<noteq> zero_address) PlaceholderContract) (\<lambda>_.
            and_then (ensure (gp_entry_point p \<noteq> zero_address) PlaceholderEntryPoint) (\<lambda>_.
            and_then (ensure (gp_account_factory p \<noteq> zero_address) PlaceholderFactory) (\<lambda>_.
            and_then (ensure (gp_simple_account_impl p \<noteq> zero_address) PlaceholderImpl) (\<lambda>_.
              ensure (gp_residual_recovery_recipient p \<noteq> zero_address) PlaceholderRecipient)))))) (\<lambda>_.
     and_then (ensure (1 \<le> gp_price_feed_max_staleness_secs p \<and> gp_price_feed_max_staleness_secs p \<le> 86400)
       (StalenessOutOfRange (gp_price_feed_max_staleness_secs p))) (\<lambda>_.
     and_then (ensure (gp_broadcaster_min_balance_wei p > 0) MinBalanceZero) (\<lambda>_.
       ensure (gp_broadcaster_min_balance_wei p \<le> MAX_BROADCASTER_MIN_BALANCE_WEI)
         (MinBalanceTooHigh (gp_broadcaster_min_balance_wei p))))))"

section \<open>Addresses round-trip\<close>

lemma hex_digit_char: "d < 16 \<Longrightarrow> hex_digit (hex_char d) = Some d"
  by (auto simp: hex_digit_def hex_char_def Let_def)

lemma hex_char_plain:
  assumes "d < 16"
  shows "hex_char d \<noteq> CHR ''+''" and "\<not> is_continuation (hex_char d)"
proof -
  have "(of_char (hex_char d) :: nat) = (if d < 10 then 48 + d else 87 + d)"
    using assms by (simp add: hex_char_def)
  then show "hex_char d \<noteq> CHR ''+''" and "\<not> is_continuation (hex_char d)"
    using assms by (auto simp: is_continuation_def split: if_splits)
qed

lemma byte_digits: "unat b div 16 < 16" "unat b mod 16 < 16" for b :: u8
  using unat_bound [of b] by simp_all

lemma u8_from_hex_of_byte: "u8_from_hex (hex_char (unat b div 16)) (hex_char (unat b mod 16)) = Some b"
  using byte_digits [of b] hex_char_plain [of "unat b div 16"] hex_digit_char
  by (simp add: u8_from_hex_def mult.commute)

lemma parse_hex_of_bytes:
  "parse_hex_bytes i (concat (map (\<lambda>b. [hex_char (unat b div 16), hex_char (unat b mod 16)]) a)) = Ok a"
proof (induction a arbitrary: i)
  case (Cons b a)
  show ?case
    using Cons.IH byte_digits [of b] hex_char_plain(2) [OF byte_digits(1) [of b]]
      hex_char_plain(2) [OF byte_digits(1) [of "hd a"]]
    by (cases a) (simp_all add: u8_from_hex_of_byte)
qed simp

text \<open>
  An address round-trips through its string form, with and without the \<open>0x\<close> prefix.
\<close>

theorem address_roundtrip:
  "EvmAddress_from_str (EvmAddress_to_string a) = Ok a \<and>
   EvmAddress_from_str (drop 2 (EvmAddress_to_string a)) = Ok a"
proof -
  let ?h = "concat (map (\<lambda>b. [hex_char (unat b div 16), hex_char (unat b mod 16)]) (addr_bytes a))"
  have len: "length ?h = 40" by (simp add: length_concat comp_def sum_list_triv addr_bytes_def)
  obtain b bs where a: "addr_bytes a = b # bs"
    by (cases "addr_bytes a") (auto simp: addr_bytes_def dest: arg_cong [of _ _ length])
  have "hex_char (unat b mod 16) \<noteq> CHR ''x''"
    using hex_digit_char [OF byte_digits(2) [of b]] by (auto simp: hex_digit_def Let_def)
  then have "take 2 ?h \<noteq> ''0x''" by (simp add: a)
  then show ?thesis using len parse_hex_of_bytes [of 0 "addr_bytes a"]
    by (simp add: EvmAddress_from_str_def EvmAddress_to_string_def)
qed

text \<open>The text after an optional \<open>0x\<close>, and the pair of its bytes that the parser reads at a step.\<close>

definition hex_body :: "string \<Rightarrow> string" where
  "hex_body s = (if take 2 s = ''0x'' then drop 2 s else s)"

definition hex_pair :: "string \<Rightarrow> nat \<Rightarrow> u8 option" where
  "hex_pair h i = u8_from_hex (h ! (2 * i)) (h ! (2 * i + 1))"

text \<open>The slice of a pair begins or ends inside a character.\<close>

definition cuts_char :: "string \<Rightarrow> nat \<Rightarrow> bool" where
  "cuts_char h i \<longleftrightarrow> is_continuation (h ! (2 * i)) \<or> 2 * i + 2 < length h \<and> is_continuation (h ! (2 * i + 2))"

lemma hex_pair_Cons [simp]: "hex_pair (a # b # h) (Suc i) = hex_pair h i" "hex_pair (a # b # h) 0 = u8_from_hex a b"
  by (simp_all add: hex_pair_def)

lemma cuts_char_Cons [simp]:
  "cuts_char (a # b # h) (Suc i) = cuts_char h i" "cuts_char (a # b # h) 0 \<longleftrightarrow> is_continuation a \<or> h \<noteq> [] \<and> is_continuation (hd h)"
  by (auto simp: cuts_char_def hd_conv_nth)

lemma parse_hex_panics:
  "even (length h) \<Longrightarrow> parse_hex_bytes n h = Panic \<longleftrightarrow> (\<exists>i. 2 * i < length h \<and> (\<forall>j<i. hex_pair h j \<noteq> None) \<and> cuts_char h i)"
proof (induction n h rule: parse_hex_bytes.induct)
  case (3 n a b h)
  have first: "(\<exists>i. Q i) \<longleftrightarrow> Q 0 \<or> (\<exists>i. Q (Suc i))" for Q :: "nat \<Rightarrow> bool" by (metis not0_implies_Suc)
  show ?case using 3 by (subst first) (auto simp: All_less_Suc2 ok_or_def and_then_def split: result.splits option.splits, (metis option.distinct(1))+)
qed simp_all

text \<open>
  C40. When parsing an address panics. The text is taken to be forty bytes long and read in pairs of
  bytes; parsing panics exactly when a pair begins or ends inside a multi-byte character and every pair
  before it is a hexadecimal byte. Every other text, in particular every one without multi-byte
  characters, gives an address or an error.
\<close>

theorem address_parse_panics_iff:
  "EvmAddress_from_str s = Panic \<longleftrightarrow>
     length (hex_body s) = 40 \<and> (\<exists>i<20. (\<forall>j<i. hex_pair (hex_body s) j \<noteq> None) \<and> cuts_char (hex_body s) i)"
  using parse_hex_panics [of "hex_body s" 0]
  by (auto simp: EvmAddress_from_str_def Let_def hex_body_def [symmetric] and_then_def split: result.splits, (metis option.distinct(1))+)

text \<open>Forty bytes whose second character takes two bytes are cut in the middle of it.\<close>

theorem address_parse_panics_iff_witness:
  "EvmAddress_from_str (''a'' @ [CHR 0xC3, CHR 0xA9] @ replicate 37 (CHR ''a'')) = Panic"
proof -
  let ?s = "''a'' @ [CHR 0xC3, CHR 0xA9] @ replicate 37 (CHR ''a'')"
  have "hex_body ?s = ?s" "length ?s = 40" "cuts_char ?s 0" by (simp_all add: hex_body_def is_continuation_def)
  then show ?thesis unfolding address_parse_panics_iff by (intro conjI exI [of _ 0]) simp_all
qed

section \<open>Quotes\<close>

lemma sane_vote:
  assumes "fee_vote_in_sane_range v"
  shows "1 \<le> unat (max_fee_per_gas_wei v)" "unat (max_fee_per_gas_wei v) \<le> 10 ^ 13"
    "1 \<le> unat (usdt_per_eth_e6 v)" "unat (usdt_per_eth_e6 v) \<le> 10 ^ 12"
  using assms by (simp_all add: fee_vote_in_sane_range_def MAX_SANE_MAX_FEE_PER_GAS_WEI_def
      MAX_SANE_USDT_PER_ETH_E6_def word_order)

text \<open>The gas cost in token units with the buffer, rounded up.\<close>

definition quote_of :: "nat \<Rightarrow> nat \<Rightarrow> nat \<Rightarrow> nat \<Rightarrow> nat" where
  "quote_of gas fee rate minimum = max ((gas * fee * rate * 120 + (10 ^ 20 - 1)) div 10 ^ 20) minimum"

lemma bind_checked:
  fixes a b :: "'a::len word"
  shows "unat a * unat b < 2 ^ LENGTH('a) \<Longrightarrow> \<exists>c. checked_mul a b = Some c \<and> unat c = unat a * unat b"
    and "unat a + unat b < 2 ^ LENGTH('a) \<Longrightarrow> \<exists>c. checked_add a b = Some c \<and> unat c = unat a + unat b"
    and "unat b \<noteq> 0 \<Longrightarrow> \<exists>c. checked_div a b = Some c \<and> unat c = unat a div unat b"
  by (metis checked_mul_None checked_mul_Some not_le option.exhaust)
    (metis checked_add_None checked_add_Some not_le option.exhaust,
     metis checked_div_None checked_div_Some option.exhaust)

lemma unat_max [simp]: "unat (max a b) = max (unat a) (unat b)"
  by (simp add: max_def word_le_nat_alt)

lemma mult_bound3:
  assumes "(g::nat) \<le> G" and "f \<le> F" and "r \<le> R"
  shows "g * f * r \<le> G * F * R"
  using assms by (intro mult_le_mono)

lemma gas_cost_fee_quote_eq:
  assumes v: "fee_vote_in_sane_range v" and g: "unat g \<le> 10 ^ 6"
  shows "\<exists>q. gas_cost_fee_quote g v minimum = Some q \<and>
    unat q = quote_of (unat g) (unat (max_fee_per_gas_wei v)) (unat (usdt_per_eth_e6 v)) (unat minimum)"
proof -
  let ?f = "unat (max_fee_per_gas_wei v)" and ?r = "unat (usdt_per_eth_e6 v)"
  note b = sane_vote [OF v]
  have n: "unat g * ?f * ?r \<le> 10 ^ 6 * 10 ^ 13 * 10 ^ 12" using g b by (intro mult_bound3)
  have gf: "unat g * ?f \<le> 10 ^ 6 * 10 ^ 13" using g b by (intro mult_le_mono)
  obtain c1 where c1: "checked_mul g (ucast (max_fee_per_gas_wei v)) = Some c1" "unat c1 = unat g * ?f"
    using bind_checked(1) [of g "ucast (max_fee_per_gas_wei v)"] gf by auto
  obtain c2 where c2: "checked_mul c1 (ucast (usdt_per_eth_e6 v)) = Some c2" "unat c2 = unat g * ?f * ?r"
    using bind_checked(1) [of c1 "ucast (usdt_per_eth_e6 v)"] c1(2) n by auto
  obtain c3 where c3: "checked_mul c2 (100 + WITHDRAWAL_FEE_BUFFER_PERCENT) = Some c3"
      "unat c3 = unat g * ?f * ?r * 120"
    using bind_checked(1) [of c2 "100 + WITHDRAWAL_FEE_BUFFER_PERCENT"] c2(2) n
    by (auto simp: WITHDRAWAL_FEE_BUFFER_PERCENT_def)
  have c4: "checked_mul WEI_PER_ETH 100 = Some 100000000000000000000"
    by (simp add: checked_mul_def WEI_PER_ETH_def)
  obtain c5 where c5: "checked_add c3 99999999999999999999 = Some c5"
      "unat c5 = unat g * ?f * ?r * 120 + (10 ^ 20 - 1)"
    using bind_checked(2) [of c3 99999999999999999999] c3(2) n by auto
  obtain c6 where c6: "checked_div c5 100000000000000000000 = Some c6"
      "unat c6 = (unat g * ?f * ?r * 120 + (10 ^ 20 - 1)) div 10 ^ 20"
    using bind_checked(3) [of "100000000000000000000" c5] c5(2) by auto
  have "(unat g * ?f * ?r * 120 + (10 ^ 20 - 1)) div 10 ^ 20 \<le> (10 ^ 31 * 120 + 10 ^ 20) div 10 ^ 20"
    using n by (intro div_le_mono add_mono mult_le_mono1) simp_all
  then have "unat (max c6 (ucast minimum :: u128)) < 2 ^ 64"
    using c6(2) unat_u64 [of minimum] by (simp add: max_def)
  then obtain q where "try_into (max c6 (ucast minimum)) = Some (q :: u64)"
      "unat q = max (unat c6) (unat minimum)"
    by (cases "try_into (max c6 (ucast minimum)) :: u64 option") (auto simp: try_into_None try_into_Some)
  then show ?thesis
    by (simp add: gas_cost_fee_quote_def c1 c2 c3 c4 c5 c6 quote_of_def)
qed

lemma ceil_div:
  fixes n d :: nat
  assumes "0 < d"
  shows "n \<le> ((n + (d - 1)) div d) * d" and "0 < (n + (d - 1)) div d \<Longrightarrow> ((n + (d - 1)) div d - 1) * d < n"
proof -
  have e: "n + (d - 1) = ((n + (d - 1)) div d) * d + (n + (d - 1)) mod d"
    and m: "(n + (d - 1)) mod d < d" using assms by simp_all
  from e m show "n \<le> ((n + (d - 1)) div d) * d" by linarith
  show "((n + (d - 1)) div d - 1) * d < n" if "0 < (n + (d - 1)) div d"
  proof -
    have "d \<le> ((n + (d - 1)) div d) * d" using mult_le_mono1 [of 1 "(n + (d - 1)) div d" d] that by linarith
    then have "((n + (d - 1)) div d) * d - d < n" using e assms by linarith
    then show ?thesis by (simp only: diff_mult_distrib mult_1)
  qed
qed

lemma quote_of_bounds:
  shows "gas * fee * rate * 120 \<le> quote_of gas fee rate minimum * 10 ^ 20"
    and "minimum \<le> quote_of gas fee rate minimum"
    and "minimum < quote_of gas fee rate minimum \<Longrightarrow>
      (quote_of gas fee rate minimum - 1) * 10 ^ 20 < gas * fee * rate * 120"
proof -
  let ?n = "gas * fee * rate * 120" and ?c = "(gas * fee * rate * 120 + (10 ^ 20 - 1)) div 10 ^ 20"
  have "?c * 10 ^ 20 \<le> max ?c minimum * 10 ^ 20" by (rule mult_le_mono1) (rule max.cobounded1)
  then show "?n \<le> quote_of gas fee rate minimum * 10 ^ 20"
    unfolding quote_of_def by (rule order_trans [OF ceil_div(1), rotated]) simp
  show "minimum \<le> quote_of gas fee rate minimum" unfolding quote_of_def by (rule max.cobounded2)
  assume "minimum < quote_of gas fee rate minimum"
  then have "minimum < ?c" and q: "quote_of gas fee rate minimum = ?c"
    unfolding quote_of_def by (simp_all only: less_max_iff_disj less_irrefl simp_thms max_absorb1 less_imp_le)
  then have "0 < ?c" by linarith
  then show "(quote_of gas fee rate minimum - 1) * 10 ^ 20 < ?n" unfolding q by (rule ceil_div(2) [rotated]) simp
qed

text \<open>
  C39. A vote inside the sane range always prices: both quotes exist, without overflow, they are at
  least the minimum fee, and they cover the estimated gas cost at the voted price with the buffer of
  twenty per cent, exceeding it by less than one token unit when above the minimum.
\<close>

theorem sane_votes_price:
  assumes "fee_vote_in_sane_range v"
  shows "\<exists>w d. withdrawal_fee_quote v = Some w \<and> deposit_fee_quote v = Some d \<and>
    10000 \<le> unat w \<and> 10000 \<le> unat d \<and>
    360000 * unat (max_fee_per_gas_wei v) * unat (usdt_per_eth_e6 v) * 120 \<le> unat w * 10 ^ 20 \<and>
    800000 * unat (max_fee_per_gas_wei v) * unat (usdt_per_eth_e6 v) * 120 \<le> unat d * 10 ^ 20 \<and>
    (10000 < unat w \<longrightarrow> (unat w - 1) * 10 ^ 20 < 360000 * unat (max_fee_per_gas_wei v) * unat (usdt_per_eth_e6 v) * 120) \<and>
    (10000 < unat d \<longrightarrow> (unat d - 1) * 10 ^ 20 < 800000 * unat (max_fee_per_gas_wei v) * unat (usdt_per_eth_e6 v) * 120)"
proof -
  obtain w where w: "withdrawal_fee_quote v = Some w"
    "unat w = quote_of 360000 (unat (max_fee_per_gas_wei v)) (unat (usdt_per_eth_e6 v)) 10000"
    using gas_cost_fee_quote_eq [OF assms, of WITHDRAWAL_GAS_UNITS MIN_WITHDRAWAL_FEE]
    by (auto simp: withdrawal_fee_quote_def WITHDRAWAL_GAS_UNITS_def MIN_WITHDRAWAL_FEE_def)
  obtain d where d: "deposit_fee_quote v = Some d"
    "unat d = quote_of 800000 (unat (max_fee_per_gas_wei v)) (unat (usdt_per_eth_e6 v)) 10000"
    using gas_cost_fee_quote_eq [OF assms, of SWEEP_GAS_UNITS MIN_DEPOSIT_FEE]
    by (auto simp: deposit_fee_quote_def SWEEP_GAS_UNITS_def MIN_DEPOSIT_FEE_def)
  show ?thesis
    by (intro exI conjI impI, rule w(1), rule d(1)) (simp_all only: w(2) d(2) quote_of_bounds)
qed

theorem sane_votes_price_witness:
  "fee_vote_in_sane_range \<lparr>max_fee_per_gas_wei = 30000000000, usdt_per_eth_e6 = 3000000000\<rparr> \<and>
   (\<exists>w. withdrawal_fee_quote \<lparr>max_fee_per_gas_wei = 30000000000, usdt_per_eth_e6 = 3000000000\<rparr> = Some w \<and> 10000 \<le> unat w)"
proof -
  have "fee_vote_in_sane_range \<lparr>max_fee_per_gas_wei = 30000000000, usdt_per_eth_e6 = 3000000000\<rparr>"
    by (simp add: fee_vote_in_sane_range_def MAX_SANE_MAX_FEE_PER_GAS_WEI_def MAX_SANE_USDT_PER_ETH_E6_def)
  with sane_votes_price [OF this] show ?thesis by auto
qed

end
