(* ===== verification/Usdt_UserOp.thy ===== *)
theory Usdt_UserOp
  imports Usdt_Common
begin

text \<open>
  User operations of the USDT module: the operation and its two encodings
  (\<open>modules/usdt/fedimint-usdt-common/src/user_op.rs\<close>), the builders and decoders of the calls the
  federation signs and their gas bounds (\<open>fedimint-usdt-server/src/user_op.rs\<close>), the repricing of an
  operation that is stuck (\<open>lib.rs\<close>), and the verification of a deposit proof (\<open>proof.rs\<close>).
\<close>

section \<open>The operation\<close>

record UnsignedUserOp =
  sender :: EvmAddress
  op_nonce :: u256
  init_code :: bytes
  call_data :: bytes
  verification_gas_limit :: u128
  call_gas_limit :: u128
  pre_verification_gas :: u256
  max_priority_fee_per_gas :: u128
  max_fee_per_gas :: u128
  paymaster_and_data :: bytes

record SignedUserOp =
  unsigned_op :: UnsignedUserOp
  op_signature :: bytes

definition pack_u128_hi_lo :: "u128 \<Rightarrow> u128 \<Rightarrow> bytes" where
  "pack_u128_hi_lo h l = be_bytes 16 (unat h) @ be_bytes 16 (unat l)"

definition user_op_hash :: "evm_platform \<Rightarrow> UnsignedUserOp \<Rightarrow> EvmAddress \<Rightarrow> u64 \<Rightarrow> bytes" where
  "user_op_hash P op entry_point chain_id =
     (let inner_hash = keccak256 P (user_op_params_encode P (sender op) (op_nonce op)
            (keccak256 P (init_code op)) (keccak256 P (call_data op))
            (pack_u128_hi_lo (verification_gas_limit op) (call_gas_limit op)) (pre_verification_gas op)
            (pack_u128_hi_lo (max_priority_fee_per_gas op) (max_fee_per_gas op))
            (keccak256 P (paymaster_and_data op)))
      in keccak256 P (op_domain_params_encode P inner_hash entry_point (ucast chain_id)))"

definition eth_signed_message_hash :: "evm_platform \<Rightarrow> bytes \<Rightarrow> bytes" where
  "eth_signed_message_hash P h =
     keccak256 P ((0x19 # map of_char ''Ethereum Signed Message:'' @ [0x0a] @ map of_char ''32'') @ h)"

section \<open>The consensus encoding\<close>

text \<open>
  The encoder and decoder of \<open>Vec<u8>\<close> belong to fedimint-core and are the arguments \<open>vec_enc\<close> and
  \<open>vec_dec\<close>; a decoder returns the value and the input that is left.
\<close>

definition read_exact :: "nat \<Rightarrow> bytes \<Rightarrow> (bytes \<times> bytes) option" where
  "read_exact n bs = (if length bs < n then None else Some (take n bs, drop n bs))"

definition op_consensus_encode :: "(bytes \<Rightarrow> bytes) \<Rightarrow> UnsignedUserOp \<Rightarrow> bytes" where
  "op_consensus_encode vec_enc op =
     addr_bytes (sender op) @ be_bytes 32 (unat (op_nonce op)) @ vec_enc (init_code op) @ vec_enc (call_data op) @
     be_bytes 16 (unat (verification_gas_limit op)) @ be_bytes 16 (unat (call_gas_limit op)) @
     be_bytes 32 (unat (pre_verification_gas op)) @ be_bytes 16 (unat (max_priority_fee_per_gas op)) @
     be_bytes 16 (unat (max_fee_per_gas op)) @ vec_enc (paymaster_and_data op)"

definition op_consensus_decode :: "(bytes \<Rightarrow> (bytes \<times> bytes) option) \<Rightarrow> bytes \<Rightarrow> (UnsignedUserOp \<times> bytes) option" where
  "op_consensus_decode vec_dec d0 =
     Option.bind (read_exact 20 d0) (\<lambda>(snd_bytes, d1).
     Option.bind (read_exact 32 d1) (\<lambda>(nonce_bytes, d2).
     Option.bind (vec_dec d2) (\<lambda>(init, d3).
     Option.bind (vec_dec d3) (\<lambda>(call, d4).
     Option.bind (read_exact 16 d4) (\<lambda>(vgl, d5).
     Option.bind (read_exact 16 d5) (\<lambda>(cgl, d6).
     Option.bind (read_exact 32 d6) (\<lambda>(pvg, d7).
     Option.bind (read_exact 16 d7) (\<lambda>(mpf, d8).
     Option.bind (read_exact 16 d8) (\<lambda>(mf, d9).
     Option.bind (vec_dec d9) (\<lambda>(pm, d10).
       Some (\<lparr>sender = addr_of_bytes snd_bytes, op_nonce = of_nat (of_be_bytes nonce_bytes), init_code = init, call_data = call,
              verification_gas_limit = of_nat (of_be_bytes vgl), call_gas_limit = of_nat (of_be_bytes cgl),
              pre_verification_gas = of_nat (of_be_bytes pvg), max_priority_fee_per_gas = of_nat (of_be_bytes mpf),
              max_fee_per_gas = of_nat (of_be_bytes mf), paymaster_and_data = pm\<rparr>, d10)))))))))))"

section \<open>Gas bounds\<close>

record GasBounds =
  gb_verification_gas_limit :: u128
  gb_call_gas_limit :: u128
  gb_pre_verification_gas :: u128
  gb_max_priority_fee_per_gas :: u128
  gb_max_fee_per_gas :: u128

definition total_gas_units :: "GasBounds \<Rightarrow> u128" where
  "total_gas_units g =
     saturating_add (saturating_add (gb_verification_gas_limit g) (gb_call_gas_limit g)) (gb_pre_verification_gas g)"

definition DEPLOY_AND_SWEEP_DEVNET :: GasBounds where
  "DEPLOY_AND_SWEEP_DEVNET =
     \<lparr>gb_verification_gas_limit = 500000, gb_call_gas_limit = 200000, gb_pre_verification_gas = 100000,
      gb_max_priority_fee_per_gas = 1500000000, gb_max_fee_per_gas = 30000000000\<rparr>"

definition gas_withdrawal_batch :: "u64 \<Rightarrow> bool \<Rightarrow> GasBounds" where
  "gas_withdrawal_batch count needs_deploy =
     \<lparr>gb_verification_gas_limit = (if needs_deploy then 500000 else 100000),
      gb_call_gas_limit = 60000 + saturating_mul (ucast count) 80000,
      gb_pre_verification_gas = 100000 + saturating_mul (ucast count) 20000,
      gb_max_priority_fee_per_gas = 1500000000, gb_max_fee_per_gas = 30000000000\<rparr>"

definition RECOVER_RESIDUAL_DEVNET :: GasBounds where
  "RECOVER_RESIDUAL_DEVNET =
     \<lparr>gb_verification_gas_limit = 100000, gb_call_gas_limit = 60000, gb_pre_verification_gas = 100000,
      gb_max_priority_fee_per_gas = 1500000000, gb_max_fee_per_gas = 30000000000\<rparr>"

definition RECOVER_RESIDUAL_GAS_UNITS :: u128 where
  "RECOVER_RESIDUAL_GAS_UNITS =
     gb_verification_gas_limit RECOVER_RESIDUAL_DEVNET + gb_call_gas_limit RECOVER_RESIDUAL_DEVNET +
     gb_pre_verification_gas RECOVER_RESIDUAL_DEVNET"

definition OP_FEE_FLOOR_WEI :: u128 where
  "OP_FEE_FLOOR_WEI = 1000000000"

definition OP_FEE_CEILING_WEI :: u128 where
  "OP_FEE_CEILING_WEI = 200000000000"

definition OP_PRIORITY_FEE_WEI :: u128 where
  "OP_PRIORITY_FEE_WEI = 1000000000"

definition with_median_fees :: "GasBounds \<Rightarrow> u64 option \<Rightarrow> GasBounds" where
  "with_median_fees g median =
     (let live = (case median of None \<Rightarrow> 0 | Some m \<Rightarrow> ucast m);
          max_fee = min (max (saturating_mul live 2) OP_FEE_FLOOR_WEI) OP_FEE_CEILING_WEI
      in g\<lparr>gb_max_fee_per_gas := max_fee, gb_max_priority_fee_per_gas := min OP_PRIORITY_FEE_WEI max_fee\<rparr>)"

section \<open>Building and decoding the federation's operations\<close>

record DeployAndSweepParams =
  ds_account_factory :: EvmAddress
  ds_usdt_contract :: EvmAddress
  ds_deposit_account :: EvmAddress
  ds_owner :: EvmAddress
  ds_claim_pk :: PublicKey
  ds_amount :: u64
  ds_pool :: EvmAddress
  ds_nonce :: u256
  ds_needs_deploy :: bool
  ds_paymaster_and_data :: bytes
  ds_gas_bounds :: GasBounds

definition build_deploy_and_sweep_userop :: "evm_platform \<Rightarrow> DeployAndSweepParams \<Rightarrow> UnsignedUserOp" where
  "build_deploy_and_sweep_userop P params =
     \<lparr>sender = ds_deposit_account params, op_nonce = ds_nonce params,
      init_code = (if ds_needs_deploy params
        then addr_bytes (ds_account_factory params) @ createAccount_encode P (ds_owner params) (deposit_salt P (ds_claim_pk params))
        else []),
      call_data = execute_encode P (ds_usdt_contract params) 0
        (transfer_encode P (ds_pool params) (ucast (ds_amount params))),
      verification_gas_limit = gb_verification_gas_limit (ds_gas_bounds params),
      call_gas_limit = gb_call_gas_limit (ds_gas_bounds params),
      pre_verification_gas = ucast (gb_pre_verification_gas (ds_gas_bounds params)),
      max_priority_fee_per_gas = gb_max_priority_fee_per_gas (ds_gas_bounds params),
      max_fee_per_gas = gb_max_fee_per_gas (ds_gas_bounds params),
      paymaster_and_data = ds_paymaster_and_data params\<rparr>"

datatype DecodeOpError =
    NotAnExecuteCall
  | NotATransferCall
  | NotAWithdrawToCall
  | AmountOverflows
  | MismatchedLengths
  | TotalOverflows

definition decode_transfer_amount :: "evm_platform \<Rightarrow> UnsignedUserOp \<Rightarrow> (u64, DecodeOpError) result" where
  "decode_transfer_amount P op =
     and_then (ok_or (execute_decode P (call_data op)) NotAnExecuteCall) (\<lambda>(_, _, func).
     and_then (ok_or (transfer_decode P func) NotATransferCall) (\<lambda>(_, amount).
       ok_or (try_into amount) AmountOverflows))"

record RecoverResidualParams =
  rr_deposit_account :: EvmAddress
  rr_entry_point :: EvmAddress
  rr_recipient :: EvmAddress
  rr_amount_wei :: u128
  rr_nonce :: u256
  rr_paymaster_and_data :: bytes
  rr_gas_bounds :: GasBounds

definition build_recover_residual_userop :: "evm_platform \<Rightarrow> RecoverResidualParams \<Rightarrow> UnsignedUserOp" where
  "build_recover_residual_userop P params =
     \<lparr>sender = rr_deposit_account params, op_nonce = rr_nonce params, init_code = [],
      call_data = execute_encode P (rr_entry_point params) 0
        (withdrawTo_encode P (rr_recipient params) (ucast (rr_amount_wei params))),
      verification_gas_limit = gb_verification_gas_limit (rr_gas_bounds params),
      call_gas_limit = gb_call_gas_limit (rr_gas_bounds params),
      pre_verification_gas = ucast (gb_pre_verification_gas (rr_gas_bounds params)),
      max_priority_fee_per_gas = gb_max_priority_fee_per_gas (rr_gas_bounds params),
      max_fee_per_gas = gb_max_fee_per_gas (rr_gas_bounds params),
      paymaster_and_data = rr_paymaster_and_data params\<rparr>"

definition decode_recover_residual ::
  "evm_platform \<Rightarrow> UnsignedUserOp \<Rightarrow> (EvmAddress \<times> EvmAddress \<times> u256, DecodeOpError) result" where
  "decode_recover_residual P op =
     and_then (ok_or (execute_decode P (call_data op)) NotAnExecuteCall) (\<lambda>(dest, _, func).
     and_then (ok_or (withdrawTo_decode P func) NotAWithdrawToCall) (\<lambda>(recipient, amount).
       Ok (dest, recipient, amount)))"

record WithdrawalBatchParams =
  wb_account_factory :: EvmAddress
  wb_usdt_contract :: EvmAddress
  wb_pool :: EvmAddress
  wb_owner :: EvmAddress
  wb_withdrawals :: "(EvmAddress \<times> u64) list"
  wb_nonce :: u256
  wb_needs_deploy :: bool
  wb_paymaster_and_data :: bytes
  wb_gas_bounds :: GasBounds

definition build_withdrawal_batch_userop :: "evm_platform \<Rightarrow> WithdrawalBatchParams \<Rightarrow> UnsignedUserOp" where
  "build_withdrawal_batch_userop P params =
     \<lparr>sender = wb_pool params, op_nonce = wb_nonce params,
      init_code = (if wb_needs_deploy params
        then addr_bytes (wb_account_factory params) @ createAccount_encode P (wb_owner params) (pool_salt P)
        else []),
      call_data = executeBatch_encode P (map (\<lambda>_. wb_usdt_contract params) (wb_withdrawals params))
        (map (\<lambda>_. 0) (wb_withdrawals params))
        (map (\<lambda>(recipient, amount). transfer_encode P recipient (ucast amount)) (wb_withdrawals params)),
      verification_gas_limit = gb_verification_gas_limit (wb_gas_bounds params),
      call_gas_limit = gb_call_gas_limit (wb_gas_bounds params),
      pre_verification_gas = ucast (gb_pre_verification_gas (wb_gas_bounds params)),
      max_priority_fee_per_gas = gb_max_priority_fee_per_gas (wb_gas_bounds params),
      max_fee_per_gas = gb_max_fee_per_gas (wb_gas_bounds params),
      paymaster_and_data = wb_paymaster_and_data params\<rparr>"

text \<open>The loop of \<open>decode_batch_transfer_total\<close>, with the running total.\<close>

fun batch_total :: "evm_platform \<Rightarrow> bytes list \<Rightarrow> u64 \<Rightarrow> (u64, DecodeOpError) result" where
  "batch_total P [] acc = Ok acc"
| "batch_total P (func # funcs) acc =
     and_then (ok_or (transfer_decode P func) NotATransferCall) (\<lambda>(_, amount).
     and_then (ok_or (try_into amount) AmountOverflows) (\<lambda>a.
     and_then (ok_or (checked_add acc a) TotalOverflows) (\<lambda>acc'.
       batch_total P funcs acc')))"

definition decode_batch_transfer_total :: "evm_platform \<Rightarrow> UnsignedUserOp \<Rightarrow> (u64, DecodeOpError) result" where
  "decode_batch_transfer_total P op =
     and_then (ok_or (executeBatch_decode P (call_data op)) NotAnExecuteCall) (\<lambda>(dest, value, func).
     and_then (ensure (length dest = length value \<and> length dest = length func) MismatchedLengths) (\<lambda>_.
       batch_total P func 0))"

text \<open>The two recovery ids are tried in turn.\<close>

definition assemble_eth_signature :: "evm_platform \<Rightarrow> bytes \<Rightarrow> bytes \<Rightarrow> EvmAddress \<Rightarrow> bytes option" where
  "assemble_eth_signature P compact_rs signed_digest owner =
     map_option (\<lambda>i. compact_rs @ [27 + of_nat i])
       (find (\<lambda>i. map_option (evm_address P) (recover_ecdsa P i compact_rs signed_digest) = Some owner) [0, 1])"

section \<open>Repricing\<close>

definition SWEEP_MAX_FEE_PER_GAS_WEI :: u128 where
  "SWEEP_MAX_FEE_PER_GAS_WEI = 200000000000"

definition div_ceil10 :: "u128 \<Rightarrow> u128" where
  "div_ceil10 fee = (if fee mod 10 = 0 then fee div 10 else fee div 10 + 1)"

definition bump_10_percent :: "u128 \<Rightarrow> u128" where
  "bump_10_percent fee = saturating_add fee (div_ceil10 fee)"

record RepricedUserOpFees =
  rp_max_fee_per_gas :: u128
  rp_max_priority_fee_per_gas :: u128
  rp_gas_cost_wei :: u128

definition repriced_user_op_fees :: "UnsignedUserOp \<Rightarrow> FeeVote \<Rightarrow> RepricedUserOpFees" where
  "repriced_user_op_fees old median =
     (let priced = with_median_fees DEPLOY_AND_SWEEP_DEVNET (Some (max_fee_per_gas_wei median));
          max_fee = max (gb_max_fee_per_gas priced) (bump_10_percent (max_fee_per_gas old));
          priority = min (max (gb_max_priority_fee_per_gas priced) (bump_10_percent (max_priority_fee_per_gas old))) max_fee;
          units = saturating_add (saturating_add (verification_gas_limit old) (call_gas_limit old))
            (case try_into (pre_verification_gas old) of Some g \<Rightarrow> g | None \<Rightarrow> - 1)
      in \<lparr>rp_max_fee_per_gas = max_fee, rp_max_priority_fee_per_gas = priority,
          rp_gas_cost_wei = saturating_mul units max_fee\<rparr>)"

section \<open>Deposit proofs\<close>

record DepositProof =
  block_number :: u64
  header_rlp :: bytes
  account_proof :: "bytes list"
  storage_proof :: "bytes list"

definition MAX_DEPOSIT_PROOF_BYTES :: nat where
  "MAX_DEPOSIT_PROOF_BYTES = 16384"

definition encoded_len_bytes :: "DepositProof \<Rightarrow> nat" where
  "encoded_len_bytes proof =
     length (header_rlp proof) + sum_list (map length (account_proof proof)) + sum_list (map length (storage_proof proof))"

datatype ProofError =
    ProofOversized nat
  | HeaderHashMismatch
  | BadHeaderRlp
  | AccountProofFailed
  | BadAccountLeaf
  | StorageProofFailed
  | BadStorageWord
  | ProvenBalanceOverflows u256

definition terminal_leaf_value :: "evm_platform \<Rightarrow> bytes list \<Rightarrow> bytes option" where
  "terminal_leaf_value P nodes = (if nodes = [] then None else trie_leaf_value P (last nodes))"

text \<open>\<open>Ok None\<close>: the proof shows that the key is absent.\<close>

definition proven_value :: "evm_platform \<Rightarrow> bytes \<Rightarrow> bytes \<Rightarrow> bytes list \<Rightarrow> ProofError \<Rightarrow> (bytes option, ProofError) result" where
  "proven_value P root key nodes e =
     (case terminal_leaf_value P nodes of
        Some candidate \<Rightarrow>
          if verify_proof P root key (Some candidate) nodes then Ok (Some candidate)
          else and_then (ensure (verify_proof P root key None nodes) e) (\<lambda>_. Ok None)
      | None \<Rightarrow> and_then (ensure (verify_proof P root key None nodes) e) (\<lambda>_. Ok None))"

definition verify_deposit_proof ::
  "evm_platform \<Rightarrow> DepositProof \<Rightarrow> bytes \<Rightarrow> EvmAddress \<Rightarrow> EvmAddress \<Rightarrow> (u64, ProofError) result" where
  "verify_deposit_proof P proof expected_block_hash usdt_contract account =
     and_then (ensure (encoded_len_bytes proof \<le> MAX_DEPOSIT_PROOF_BYTES) (ProofOversized (encoded_len_bytes proof))) (\<lambda>_.
     and_then (ensure (keccak256 P (header_rlp proof) = expected_block_hash) HeaderHashMismatch) (\<lambda>_.
     and_then (ok_or (header_state_root P (header_rlp proof)) BadHeaderRlp) (\<lambda>state_root.
     and_then (proven_value P state_root (keccak256 P (addr_bytes usdt_contract)) (account_proof proof) AccountProofFailed) (\<lambda>account_rlp.
     (case account_rlp of
        None \<Rightarrow> Ok 0
      | Some leaf \<Rightarrow>
          and_then (ok_or (account_storage_root P leaf) BadAccountLeaf) (\<lambda>storage_root.
          and_then (proven_value P storage_root (keccak256 P (balances_storage_key P account)) (storage_proof proof)
             StorageProofFailed) (\<lambda>value_rlp.
          (case value_rlp of
             None \<Rightarrow> Ok 0
           | Some v \<Rightarrow>
               and_then (ok_or (u256_rlp_decode P v) BadStorageWord) (\<lambda>balance_word.
                 ok_or (try_into balance_word) (ProvenBalanceOverflows balance_word))))))))))"

section \<open>What the decoders read back\<close>

text \<open>The ABI decoders invert their encoders.\<close>

definition abi_laws :: "evm_platform \<Rightarrow> bool" where
  "abi_laws P \<longleftrightarrow>
     (\<forall>a v. transfer_decode P (transfer_encode P a v) = Some (a, v)) \<and>
     (\<forall>a v. withdrawTo_decode P (withdrawTo_encode P a v) = Some (a, v)) \<and>
     (\<forall>d v f. execute_decode P (execute_encode P d v f) = Some (d, v, f)) \<and>
     (\<forall>ds vs fs. executeBatch_decode P (executeBatch_encode P ds vs fs) = Some (ds, vs, fs))"

lemma try_into_ucast_u256: "try_into (ucast (a :: u64) :: u256) = Some a"
  by (simp add: try_into_Some unat_ucast_widen)

lemma decode_built_sweep:
  "abi_laws P \<Longrightarrow> decode_transfer_amount P (build_deploy_and_sweep_userop P params) = Ok (ds_amount params)"
  by (simp add: abi_laws_def decode_transfer_amount_def build_deploy_and_sweep_userop_def try_into_ucast_u256)

lemma batch_total_sum:
  fixes ws :: "(EvmAddress \<times> u64) list"
  assumes "abi_laws P" and "unat acc + sum_list (map (\<lambda>(_, a). unat a) ws) < 2 ^ 64"
  shows "\<exists>t. batch_total P (map (\<lambda>(r, a). transfer_encode P r (ucast a)) ws) acc = Ok t \<and>
    unat t = unat acc + sum_list (map (\<lambda>(_, a). unat a) ws)"
  using assms(2)
proof (induction ws arbitrary: acc)
  case (Cons w ws)
  obtain r a where w: "w = (r, a)" by fastforce
  have "unat acc + unat a < 2 ^ LENGTH(64)" using Cons.prems by (simp add: w)
  from bind_checked(2) [OF this] obtain acc' where acc': "checked_add acc a = Some acc'" "unat acc' = unat acc + unat a"
    by blast
  have d: "transfer_decode P (transfer_encode P r (ucast a)) = Some (r, ucast a)" using assms(1) by (simp add: abi_laws_def)
  show ?case using Cons.IH [of acc'] Cons.prems acc' d by (simp add: w try_into_ucast_u256 add.assoc)
qed simp

lemma decode_built_batch:
  assumes "abi_laws P" and "sum_list (map (\<lambda>(_, a). unat a) (wb_withdrawals params)) < 2 ^ 64"
  shows "\<exists>t. decode_batch_transfer_total P (build_withdrawal_batch_userop P params) = Ok t \<and>
    unat t = sum_list (map (\<lambda>(_, a). unat a) (wb_withdrawals params))"
  using batch_total_sum [OF assms(1), of 0 "wb_withdrawals params"] assms
  by (simp add: decode_batch_transfer_total_def build_withdrawal_batch_userop_def abi_laws_def ensure_def)

lemma decode_call_data:
  "call_data op = call_data op' \<Longrightarrow> decode_transfer_amount P op = decode_transfer_amount P op'"
  "call_data op = call_data op' \<Longrightarrow> decode_batch_transfer_total P op = decode_batch_transfer_total P op'"
  by (simp_all add: decode_transfer_amount_def decode_batch_transfer_total_def)

section \<open>The encoding and the hash\<close>

lemma read_exact_append [simp]: "length xs = n \<Longrightarrow> read_exact n (xs @ ys) = Some (xs, ys)"
  by (simp add: read_exact_def)

lemma length_addr_bytes [simp]: "length (addr_bytes a) = 20"
  by (simp add: addr_bytes_def)

lemma of_be_be_word:
  "8 * n = LENGTH('a) \<Longrightarrow> of_nat (of_be_bytes (be_bytes n (unat w))) = (w :: 'a::len word)"
proof -
  assume "8 * n = LENGTH('a)"
  then have "2 ^ LENGTH('a) = ((2 :: nat) ^ 8) ^ n" by (simp only: power_mult [symmetric])
  then show ?thesis using unat_bound [of w] by (simp add: of_be_be_bytes)
qed

text \<open>
  C38. The consensus encoding of a user operation is read back exactly, whatever follows it.
\<close>

theorem user_op_codec_roundtrip:
  assumes "\<And>v rest. vec_dec (vec_enc v @ rest) = Some (v, rest)"
  shows "op_consensus_decode vec_dec (op_consensus_encode vec_enc op @ rest) = Some (op, rest)"
proof -
  have w: "of_nat (of_be_bytes (be_bytes 32 (unat (a :: u256)))) = a"
    "of_nat (of_be_bytes (be_bytes 16 (unat (b :: u128)))) = b" for a b
    by (rule of_be_be_word, simp)+
  show ?thesis
    by (simp add: op_consensus_encode_def op_consensus_decode_def assms w)
qed

text \<open>A length-prefixed encoding of short byte strings, for the witness.\<close>

definition demo_vec_enc :: "bytes \<Rightarrow> bytes" where
  "demo_vec_enc v = map (\<lambda>_. 1) v @ [0] @ v"

definition demo_vec_dec :: "bytes \<Rightarrow> (bytes \<times> bytes) option" where
  "demo_vec_dec d =
     (let n = length (takeWhile (\<lambda>b. b = 1) d); body = drop (Suc n) d
      in if length d \<le> n \<or> length body < n then None else Some (take n body, drop n body))"

lemma demo_vec_law: "demo_vec_dec (demo_vec_enc v @ rest) = Some (v, rest)"
proof -
  have "takeWhile (\<lambda>b. b = 1) (map (\<lambda>_. 1 :: u8) v @ 0 # r) = map (\<lambda>_. 1) v" for r
    by (induction v) auto
  then show ?thesis by (simp add: demo_vec_enc_def demo_vec_dec_def)
qed

theorem user_op_codec_roundtrip_witness:
  "op_consensus_decode demo_vec_dec (op_consensus_encode demo_vec_enc
     \<lparr>sender = 7, op_nonce = 3, init_code = [1], call_data = [2, 2], verification_gas_limit = 100000,
      call_gas_limit = 140000, pre_verification_gas = 120000, max_priority_fee_per_gas = 1, max_fee_per_gas = 2,
      paymaster_and_data = []\<rparr> @ [9]) =
   Some (\<lparr>sender = 7, op_nonce = 3, init_code = [1], call_data = [2, 2], verification_gas_limit = 100000,
      call_gas_limit = 140000, pre_verification_gas = 120000, max_priority_fee_per_gas = 1, max_fee_per_gas = 2,
      paymaster_and_data = []\<rparr>, [9])"
  by (rule user_op_codec_roundtrip) (rule demo_vec_law)

lemma pack_inject: "pack_u128_hi_lo a b = pack_u128_hi_lo c d \<longleftrightarrow> a = c \<and> b = d"
proof -
  have "be_bytes 16 (unat x) = be_bytes 16 (unat y) \<longleftrightarrow> x = y" for x y :: u128
    using be_bytes_inject [of "unat x" 16 "unat y"] unat_bound [of x] unat_bound [of y] by (simp add: word_eq_unat)
  then show ?thesis by (auto simp: pack_u128_hi_lo_def)
qed

text \<open>
  The hash the federation signs commits to the whole operation, the entry point and the chain: two
  operations with the same hash are equal unless Keccak-256 has a collision, given that the ABI
  encodings of the two preimages are injective.
\<close>

theorem user_op_hash_binds:
  assumes "\<And>a b c d e f g h a' b' c' d' e' f' g' h'.
      user_op_params_encode P a b c d e f g h = user_op_params_encode P a' b' c' d' e' f' g' h' \<Longrightarrow>
      a = a' \<and> b = b' \<and> c = c' \<and> d = d' \<and> e = e' \<and> f = f' \<and> g = g' \<and> h = h'"
    and "\<And>a b c a' b' c'. op_domain_params_encode P a b c = op_domain_params_encode P a' b' c' \<Longrightarrow>
      a = a' \<and> b = b' \<and> c = c'"
    and "user_op_hash P op entry chain = user_op_hash P op' entry' chain'"
  shows "op = op' \<and> entry = entry' \<and> chain = chain' \<or> (\<exists>x y. x \<noteq> y \<and> keccak256 P x = keccak256 P y)"
proof (rule disjCI)
  assume "\<not> (\<exists>x y. x \<noteq> y \<and> keccak256 P x = keccak256 P y)"
  then have inj: "keccak256 P x = keccak256 P y \<Longrightarrow> x = y" for x y by blast
  have outer: "op_domain_params_encode P (keccak256 P (user_op_params_encode P (sender op) (op_nonce op)
      (keccak256 P (init_code op)) (keccak256 P (call_data op))
      (pack_u128_hi_lo (verification_gas_limit op) (call_gas_limit op)) (pre_verification_gas op)
      (pack_u128_hi_lo (max_priority_fee_per_gas op) (max_fee_per_gas op)) (keccak256 P (paymaster_and_data op)))) entry (ucast chain) =
    op_domain_params_encode P (keccak256 P (user_op_params_encode P (sender op') (op_nonce op')
      (keccak256 P (init_code op')) (keccak256 P (call_data op'))
      (pack_u128_hi_lo (verification_gas_limit op') (call_gas_limit op')) (pre_verification_gas op')
      (pack_u128_hi_lo (max_priority_fee_per_gas op') (max_fee_per_gas op')) (keccak256 P (paymaster_and_data op')))) entry' (ucast chain')"
    using inj [OF assms(3) [unfolded user_op_hash_def Let_def]] .
  note o = assms(2) [OF outer]
  note i = assms(1) [OF inj [OF conjunct1 [OF o]]]
  have "chain = chain'"
    using arg_cong [OF conjunct2 [OF conjunct2 [OF o]], of unat] by (simp add: unat_ucast_widen word_eq_unat)
  moreover have "op = op'" using i inj by (auto simp: pack_inject intro: UnsignedUserOp.equality)
  ultimately show "op = op' \<and> entry = entry' \<and> chain = chain'" using o by blast
qed

end
