(* ===== verification/Usdt_Types.thy ===== *)
theory Usdt_Types
  imports Usdt_UserOp
begin

text \<open>
  The state of the USDT server module, from \<open>modules/usdt/fedimint-usdt-server/src/db.rs\<close>: one table per
  key prefix of the consensus database; the items, inputs and outputs of
  \<open>fedimint-usdt-common/src/lib.rs\<close>; the configuration; and the functions of \<open>lib.rs\<close> that read the
  votes of the guardians: the agreed block count, the fee median, the anchored block hashes and the
  bootstrap status.
\<close>

section \<open>Out points\<close>

text \<open>A transaction id, as the number its bytes spell, and an output index; ordered lexicographically.\<close>

datatype OutPoint = OutPoint (op_txid: u256) (op_out_idx: u64)

instantiation OutPoint :: linorder
begin

definition less_eq_OutPoint :: "OutPoint \<Rightarrow> OutPoint \<Rightarrow> bool" where
  "less_eq_OutPoint a b \<longleftrightarrow> op_txid a < op_txid b \<or> op_txid a = op_txid b \<and> op_out_idx a \<le> op_out_idx b"

definition less_OutPoint :: "OutPoint \<Rightarrow> OutPoint \<Rightarrow> bool" where
  "less_OutPoint a b \<longleftrightarrow> op_txid a < op_txid b \<or> op_txid a = op_txid b \<and> op_out_idx a < op_out_idx b"

instance
  by standard (auto simp: less_eq_OutPoint_def less_OutPoint_def intro: OutPoint.expand)

end

section \<open>Records of the database\<close>

record StoredFeeVote =
  sf_vote :: FeeVote
  recorded_block :: u64

record DepositRecord =
  rec_claim_pk :: PublicKey
  credited :: u64
  claimed :: u64
  last_observed_block :: u64
  swept :: u64
  rec_nonce :: u64
  fees_accrued :: u64

datatype SigningPurpose = PurposeUserOp bytes

datatype SessionState = InProgress | Completed bytes | SessionFailed

record SigningSession =
  ss_purpose :: SigningPurpose
  ss_digest :: bytes
  ss_signers :: "PeerId list"
  ss_round :: u16
  ss_state :: SessionState
  ss_attempt :: u32
  last_progress_block :: u64

record MpcRoundChunk =
  ch_count :: u16
  ch_bytes :: bytes

datatype UserOpPurpose =
    DeployAndSweep EvmAddress
  | Withdraw "OutPoint list"
  | RecoverResidual EvmAddress
  | WithdrawFees EvmAddress u64

record PendingUserOp =
  p_op :: UnsignedUserOp
  p_purpose :: UserOpPurpose
  created_block :: u64

record SubmittedUserOp =
  s_signed :: SignedUserOp
  s_purpose :: UserOpPurpose
  submitted_block :: u64
  superseded :: bool

record UsdtPoolState =
  ps_account :: EvmAddress
  ps_balance :: u64
  ps_nonce :: u64
  ps_accrued_fees :: u64

record UserOpConfirmedObservation =
  obs_success :: bool
  obs_block :: u64
  obs_block_hash :: bytes
  obs_swept :: u64
  obs_actual_gas_cost_wei :: u64

record UsdtWithdrawalV0 =
  w_recipient :: EvmAddress
  w_amount :: u64
  w_max_fee :: u64
  requested_block :: u64
  w_refund_pubkey :: PublicKey

datatype WithdrawalState =
    Queued
  | Signing bytes
  | Submitted bytes
  | Confirmed u64
  | Failed string

record Refund =
  rf_amount :: u64
  rf_pubkey :: PublicKey
  rf_reason :: string

record BlockHashObservation =
  bh_height :: u64
  bh_hash :: bytes

record BootstrapObservation =
  entry_point_ok :: bool
  factory_ok :: bool
  impl_ok :: bool
  broadcaster_funded :: bool
  rpc_healthy :: bool

record WithdrawFeesVote =
  wf_recipient :: EvmAddress
  wf_amount :: u64

record usdt_db =
  block_count_votes :: "(PeerId, u64) table"
  fee_votes :: "(PeerId, StoredFeeVote) table"
  deposit_records :: "(EvmAddress, DepositRecord) table"
  signing_sessions :: "(bytes, SigningSession) table"
  mpc_round_chunks :: "(bytes \<times> u16 \<times> PeerId \<times> u16, MpcRoundChunk) table"
  pending_user_ops :: "(bytes, PendingUserOp) table"
  submitted_user_ops :: "(bytes, SubmittedUserOp) table"
  pool_state_row :: "UsdtPoolState option"
  user_op_confirmed_votes :: "(bytes \<times> PeerId, UserOpConfirmedObservation) table"
  unclaimed_withdrawals :: "(OutPoint, UsdtWithdrawalV0) table"
  withdrawal_states :: "(OutPoint, WithdrawalState) table"
  bootstrap_votes :: "(PeerId, BootstrapObservation) table"
  has_ever_been_ready :: bool
  withdrawal_batch_caps :: "(OutPoint, u32) table"
  refunds :: "(OutPoint, Refund) table"
  withdrawal_incurred_fees :: "(OutPoint, u64) table"
  block_hash_ring :: "(u64, bytes) table"
  block_hash_votes :: "(PeerId, BlockHashObservation) table"
  recover_residual_votes :: "(EvmAddress \<times> PeerId, u64) table"
  withdraw_fees_votes :: "(PeerId, WithdrawFeesVote) table"

definition empty_usdt_db :: usdt_db where
  "empty_usdt_db =
     \<lparr>block_count_votes = [], fee_votes = [], deposit_records = [], signing_sessions = [], mpc_round_chunks = [],
      pending_user_ops = [], submitted_user_ops = [], pool_state_row = None, user_op_confirmed_votes = [],
      unclaimed_withdrawals = [], withdrawal_states = [], bootstrap_votes = [], has_ever_been_ready = False,
      withdrawal_batch_caps = [], refunds = [], withdrawal_incurred_fees = [], block_hash_ring = [],
      block_hash_votes = [], recover_residual_votes = [], withdraw_fees_votes = []\<rparr>"

section \<open>Wire types\<close>

record MpcRoundItem =
  mr_session_id :: bytes
  mr_round :: u16
  mr_chunk :: u16
  mr_chunk_count :: u16
  mr_payload :: bytes

datatype UsdtConsensusItem =
    BlockCount u64
  | MpcRound MpcRoundItem
  | MpcSignature bytes bytes
  | RotateSigning bytes
  | UserOpConfirmed bytes UserOpConfirmedObservation
  | FeeVoteItem FeeVote
  | BootstrapObservationItem BootstrapObservation
  | ReplaceUserOp bytes
  | BlockHash BlockHashObservation
  | RecoverResidualItem EvmAddress u64
  | WithdrawFeesVoteItem WithdrawFeesVote
  | ItemDefault u64 bytes

datatype UsdtInput =
    RefundV0 OutPoint
  | DepositProofV0 PublicKey DepositProof u64
  | UsdtInputDefault u64 bytes

record UsdtOutputV0 =
  out_recipient :: EvmAddress
  out_amount :: u64
  out_max_fee :: u64
  out_refund_pubkey :: PublicKey

datatype UsdtOutput = UsdtV0 UsdtOutputV0 | UsdtOutputDefault u64 bytes

datatype UsdtInputError =
    UnsupportedInputVariant
  | DepositFeeInsufficient u64 u64
  | FeeExceedsAmount u64 u64
  | InputNoFeeQuoteAvailable
  | InputFeeQuoteOverflow
  | UnknownRefund
  | DepositProofNotAnchored u64
  | DepositProofInvalid ProofError
  | DepositProofStale u64 u64

datatype UsdtOutputError =
    UnsupportedOutputVariant
  | NoFeeQuoteAvailable
  | FeeQuoteOverflow
  | FeeQuoteExceeded u64 u64

text \<open>The amounts an input or output contributes to its transaction, all in \<open>USDT_UNIT\<close>.\<close>

record usdt_amounts =
  ta_amount :: u64
  ta_fees :: u64

section \<open>Configuration\<close>

record UsdtConfigConsensus =
  group_public_key :: PublicKey
  mpc_encryption_pks :: "(PeerId, PublicKey) table"
  cfg_threshold :: u16
  usdt_contract :: EvmAddress
  chain_id :: u64
  confirmation_depth :: u64
  entry_point :: EvmAddress
  account_factory :: EvmAddress
  simple_account_impl :: EvmAddress
  broadcaster_min_balance_wei :: u64
  eth_usd_price_feed :: EvmAddress
  price_feed_max_staleness_secs :: u64
  residual_recovery_recipient :: EvmAddress

text \<open>The module on one guardian: configuration, number of peers, own identity, test environment flag.\<close>

record Usdt =
  usdt_cfg :: UsdtConfigConsensus
  usdt_num_peers :: nat
  usdt_our_peer_id :: PeerId
  running_in_test_env :: bool

definition usdt_threshold :: "evm_platform \<Rightarrow> Usdt \<Rightarrow> nat" where
  "usdt_threshold P u = threshold_of P (usdt_num_peers u)"

definition BATCH_MAX_ITEMS :: nat where
  "BATCH_MAX_ITEMS = 20"

definition BLOCK_HASH_RING_LEN :: u64 where
  "BLOCK_HASH_RING_LEN = 300"

definition MPC_ROUND_CHUNK_SIZE :: nat where
  "MPC_ROUND_CHUNK_SIZE = 30000"

definition MAX_MPC_ROUND_BYTES :: nat where
  "MAX_MPC_ROUND_BYTES = 524288"

definition MAX_MPC_CHUNKS :: u16 where
  "MAX_MPC_CHUNKS = 18"

definition FEE_VOTE_TTL_BLOCKS :: u64 where
  "FEE_VOTE_TTL_BLOCKS = 50"

definition FEE_VOTE_REFRESH_BLOCKS :: u64 where
  "FEE_VOTE_REFRESH_BLOCKS = 20"

definition FEE_QUOTE_VALID_BLOCKS :: u64 where
  "FEE_QUOTE_VALID_BLOCKS = 50"

definition DEPOSIT_VOTE_MAX_AGE_BLOCKS :: u64 where
  "DEPOSIT_VOTE_MAX_AGE_BLOCKS = 100"

definition RESIDUAL_RECOVERY_MIN_WEI :: u128 where
  "RESIDUAL_RECOVERY_MIN_WEI = 2000000000000000"

definition RESIDUAL_RECOVERY_NEED_MARGIN_PERCENT :: u128 where
  "RESIDUAL_RECOVERY_NEED_MARGIN_PERCENT = 20"

definition timeout_blocks :: "Usdt \<Rightarrow> u64" where
  "timeout_blocks u = (if running_in_test_env u then 2 else 50)"

definition submitted_op_timeout_blocks :: "Usdt \<Rightarrow> u64" where
  "submitted_op_timeout_blocks u = (if running_in_test_env u then 2 else 25)"

definition batch_interval_blocks :: "Usdt \<Rightarrow> u64" where
  "batch_interval_blocks u = (if running_in_test_env u then 3 else 2)"

section \<open>Reading the votes\<close>

text \<open>
  The middle of the block counts, absent votes counting as zero. The padded list has at least as many
  entries as peers, so the index is in range.
\<close>

definition consensus_block_count :: "Usdt \<Rightarrow> usdt_db \<Rightarrow> u64" where
  "consensus_block_count u db =
     (let peer_count = usdt_num_peers u;
          counts = map snd (block_count_votes db)
      in sort (counts @ replicate (peer_count - length counts) 0) ! (peer_count div 2))"

definition fresh_fee_votes :: "u64 \<Rightarrow> usdt_db \<Rightarrow> FeeVote list" where
  "fresh_fee_votes current_block db =
     map sf_vote (filter (\<lambda>stored. saturating_sub current_block (recorded_block stored) \<le> FEE_VOTE_TTL_BLOCKS)
       (map snd (fee_votes db)))"

definition fee_vote_median :: "evm_platform \<Rightarrow> Usdt \<Rightarrow> usdt_db \<Rightarrow> FeeVote option" where
  "fee_vote_median P u db =
     (let votes = fresh_fee_votes (consensus_block_count u db) db in
      if length votes < usdt_threshold P u then None
      else Some \<lparr>max_fee_per_gas_wei = sort (map max_fee_per_gas_wei votes) ! (length votes div 2),
                 usdt_per_eth_e6 = sort (map usdt_per_eth_e6 votes) ! (length votes div 2)\<rparr>)"

definition write_block_hash_ring :: "usdt_db \<Rightarrow> u64 \<Rightarrow> bytes \<Rightarrow> usdt_db" where
  "write_block_hash_ring db height hash =
     db\<lparr>block_hash_ring := filter (\<lambda>(k, _). \<not> saturating_add k BLOCK_HASH_RING_LEN \<le> height)
        (AList.update height hash (block_hash_ring db))\<rparr>"

definition ring_hash_at :: "usdt_db \<Rightarrow> u64 \<Rightarrow> bytes option" where
  "ring_hash_at db height = map_of (block_hash_ring db) height"

definition ring_latest_height :: "usdt_db \<Rightarrow> u64 option" where
  "ring_latest_height db =
     (case map fst (block_hash_ring db) of [] \<Rightarrow> None | h # hs \<Rightarrow> Some (foldl max h hs))"

record BootstrapCounts =
  bc_entry_point_ok :: nat
  bc_factory_ok :: nat
  bc_impl_ok :: nat
  bc_funded :: nat
  bc_rpc_healthy :: nat

definition bootstrap_counts :: "usdt_db \<Rightarrow> BootstrapCounts" where
  "bootstrap_counts db =
     (let votes = map snd (bootstrap_votes db) in
      \<lparr>bc_entry_point_ok = length (filter entry_point_ok votes), bc_factory_ok = length (filter factory_ok votes),
       bc_impl_ok = length (filter impl_ok votes), bc_funded = length (filter broadcaster_funded votes),
       bc_rpc_healthy = length (filter rpc_healthy votes)\<rparr>)"

definition bootstrap_ready :: "evm_platform \<Rightarrow> Usdt \<Rightarrow> usdt_db \<Rightarrow> bool" where
  "bootstrap_ready P u db =
     (let counts = bootstrap_counts db; t = usdt_threshold P u in
      bc_entry_point_ok counts \<ge> t \<and> bc_factory_ok counts \<ge> t \<and> bc_impl_ok counts \<ge> t \<and>
      bc_funded counts \<ge> t \<and> bc_rpc_healthy counts \<ge> t)"

datatype BootstrapState = AwaitingInfra | Ready | Degraded

definition bootstrap_state :: "evm_platform \<Rightarrow> Usdt \<Rightarrow> usdt_db \<Rightarrow> BootstrapState" where
  "bootstrap_state P u db =
     (if bootstrap_ready P u db then Ready else if has_ever_been_ready db then Degraded else AwaitingInfra)"

end
