(* ===== verification/Usdt_Signing.thy ===== *)
theory Usdt_Signing
  imports Usdt_Types
begin

text \<open>
  The signing sessions of the USDT module, from \<open>modules/usdt/fedimint-usdt-server/src/lib.rs\<close>: the
  choice of the signers of an attempt, starting, rotating and finishing a session, and the exchange of
  round messages in chunks. The off-thread signer itself is the threshold ECDSA library and is not
  modelled; what a completed round hands to it is \<open>round_payloads\<close>.
\<close>

section \<open>Signer subsets\<close>

text \<open>One step of the enumeration: the rightmost index that can still grow, and the indices after it reset.\<close>

definition advance_at :: "nat \<Rightarrow> nat \<Rightarrow> nat list \<Rightarrow> nat option" where
  "advance_at n t idx = find (\<lambda>i. idx ! i < i + n - t) (rev [0..<t])"

definition bump_idx :: "nat \<Rightarrow> nat list \<Rightarrow> nat \<Rightarrow> nat list" where
  "bump_idx t idx i = foldl (\<lambda>v j. v[j := v ! (j - 1) + 1]) (idx[i := idx ! i + 1]) [Suc i..<t]"

text \<open>
  The loop of \<open>t_combinations\<close> on the vector of indices, of length \<open>t\<close>. The vector is a number in base
  \<open>n + 1\<close> whose digits are the distances to \<open>n\<close>; every step lowers it.
\<close>

definition idx_weight :: "nat \<Rightarrow> nat list \<Rightarrow> nat" where
  "idx_weight n idx = foldl (\<lambda>acc x. acc * (n + 1) + (n - x)) 0 idx"

lemma foldl_weight:
  "foldl (\<lambda>acc x. acc * (n + 1) + (n - x)) a xs = a * (n + 1) ^ length xs + idx_weight n xs"
proof (induction xs arbitrary: a)
  case (Cons x xs)
  have "foldl (\<lambda>acc x. acc * (n + 1) + (n - x)) a (x # xs) =
      (a * (n + 1) + (n - x)) * (n + 1) ^ length xs + idx_weight n xs" using Cons.IH by simp
  moreover have "idx_weight n (x # xs) = (n - x) * (n + 1) ^ length xs + idx_weight n xs"
    using Cons.IH [of "n - x"] by (simp add: idx_weight_def)
  ultimately show ?case by (simp add: algebra_simps)
qed (simp add: idx_weight_def)

lemma idx_weight_less: "idx_weight n xs < (n + 1) ^ length xs"
proof (induction xs)
  case (Cons x xs)
  have "idx_weight n (x # xs) = (n - x) * (n + 1) ^ length xs + idx_weight n xs"
    using foldl_weight [of n "n - x" xs] by (simp add: idx_weight_def)
  also have "\<dots> < (n - x) * (n + 1) ^ length xs + (n + 1) ^ length xs" using Cons.IH by simp
  also have "\<dots> = (n - x + 1) * (n + 1) ^ length xs" by (simp add: add_mult_distrib)
  also have "\<dots> \<le> (n + 1) * (n + 1) ^ length xs" by (intro mult_le_mono1) simp
  finally show ?case by simp
qed (simp add: idx_weight_def)

lemma idx_weight_decreases:
  assumes "length ys = length zs" and "x < n"
  shows "idx_weight n (pre @ (x + 1) # ys) < idx_weight n (pre @ x # zs)"
proof -
  have w: "idx_weight n (pre @ z # vs) =
      (idx_weight n pre * (n + 1) + (n - z)) * (n + 1) ^ length vs + idx_weight n vs" for z vs
    using foldl_weight [of n "idx_weight n pre * (n + 1) + (n - z)" vs] by (simp add: idx_weight_def)
  let ?B = "(n + 1) ^ length zs" and ?A = "idx_weight n pre * (n + 1)"
  have "(?A + (n - (x + 1))) * ?B + idx_weight n ys < (?A + (n - (x + 1))) * ?B + ?B"
    using idx_weight_less [of n ys] assms(1) by simp
  also have "\<dots> = (?A + (n - (x + 1)) + 1) * ?B" by (simp add: add_mult_distrib)
  also have "?A + (n - (x + 1)) + 1 = ?A + (n - x)" using assms(2) by simp
  finally show ?thesis unfolding w assms(1) by (rule trans_less_add1)
qed

lemma bump_idx_eq:
  assumes "i < t" and "length idx = t"
  shows "bump_idx t idx i = take i idx @ map (\<lambda>k. idx ! i + 1 + k) [0..<t - i]"
proof -
  have "foldl (\<lambda>v j. v[j := v ! (j - 1) + 1]) (idx[i := idx ! i + 1]) [Suc i..<Suc i + m] =
      take i idx @ map (\<lambda>k. idx ! i + 1 + k) [0..<Suc m] @ drop (Suc i + m) idx" if "Suc i + m \<le> t" for m
    using that
  proof (induction m)
    case 0
    then show ?case using assms by (simp add: upd_conv_take_nth_drop)
  next
    case (Suc m)
    have d: "drop (Suc (i + m)) idx = idx ! Suc (i + m) # drop (Suc (Suc (i + m))) idx"
      using Suc.prems assms(2) by (simp add: Cons_nth_drop_Suc)
    have l: "length (take i idx) = i" using assms by simp
    show ?case using Suc.IH Suc.prems l
      by (simp add: d nth_append list_update_append upt_conv_Cons)
  qed
  from this [of "t - Suc i"] show ?thesis using assms by (simp add: bump_idx_def Suc_diff_Suc)
qed

function idx_loop :: "nat \<Rightarrow> nat \<Rightarrow> nat list \<Rightarrow> nat list list" where
  "idx_loop n t idx =
     idx # (if length idx = t \<and> t \<le> n then
              (case advance_at n t idx of None \<Rightarrow> [] | Some i \<Rightarrow> idx_loop n t (bump_idx t idx i))
            else [])"
  by pat_completeness auto

lemma advance_at_Some:
  assumes "advance_at n t idx = Some i"
  shows "i < t" and "idx ! i < i + n - t"
  using assms by (auto simp: advance_at_def find_Some_iff rev_nth)

termination idx_loop
proof (relation "measure (\<lambda>(n, t, idx). idx_weight n idx)", goal_cases)
  case (2 n t idx i)
  then have i: "i < t" "idx ! i < n" using advance_at_Some [of n t idx i] by auto
  have idx: "idx = take i idx @ idx ! i # drop (Suc i) idx" using 2 i by (simp add: id_take_nth_drop)
  have b: "bump_idx t idx i = take i idx @ (idx ! i + 1) # map (\<lambda>k. idx ! i + 1 + k) [1..<t - i]"
    using bump_idx_eq [of i t idx] 2 i by (simp add: upt_conv_Cons)
  have "idx_weight n (take i idx @ (idx ! i + 1) # map (\<lambda>k. idx ! i + 1 + k) [1..<t - i]) <
      idx_weight n (take i idx @ idx ! i # drop (Suc i) idx)"
    by (rule idx_weight_decreases) (use 2 i in auto)
  then show ?case using b idx by simp
qed simp

declare idx_loop.simps [simp del]

definition t_combinations :: "'a list \<Rightarrow> nat \<Rightarrow> 'a list list" where
  "t_combinations items t =
     (let n = length items in
      if t > n then []
      else if t = 0 then [[]]
      else map (map (\<lambda>i. items ! i)) (idx_loop n t [0..<t]))"

definition peer_ids :: "Usdt \<Rightarrow> PeerId list" where
  "peer_ids u = map of_nat [0..<usdt_num_peers u]"

definition signer_subset :: "evm_platform \<Rightarrow> Usdt \<Rightarrow> bytes \<Rightarrow> u32 \<Rightarrow> PeerId list" where
  "signer_subset P u digest attempt =
     (let combos = t_combinations (peer_ids u) (usdt_threshold P u);
          seed = of_be_bytes (take 8 digest)
      in combos ! ((seed + unat attempt) mod length combos))"

section \<open>Sessions\<close>

datatype ItemError =
    RedundantBlockCount
  | UnknownSigningSession
  | NotASigner
  | WrongRound
  | BadChunkIndex
  | ChunkTooLarge
  | TooManyChunks
  | InconsistentChunkCount
  | RoundTooLarge
  | RedundantChunk
  | NotInProgress
  | NotTimedOut
  | RedundantSignature
  | MalformedSignature
  | SignatureDoesNotVerify
  | NoPendingUserOp
  | SignatureLength
  | CannotAssembleSignature
  | NeverSubmitted
  | RedundantConfirmation
  | InsaneFeeVote
  | RedundantFeeVote
  | RedundantBootstrapVote
  | NotConfirmationDeep
  | ObservationTooOld
  | RedundantBlockHash
  | UnknownDepositAccount
  | NotFullySwept
  | RedundantResidualVote
  | ZeroFeeWithdrawal
  | ZeroFeeRecipient
  | RedundantWithdrawFeesVote
  | UnknownSubmittedOp
  | AlreadySuperseded
  | OpNotTimedOut
  | NoFeeMedian
  | RepriceOverCeiling
  | SweepOverGasCeiling
  | NeverRepriced
  | ReplacementEnqueued
  | UnsupportedItem

definition start_session :: "evm_platform \<Rightarrow> Usdt \<Rightarrow> usdt_db \<Rightarrow> SigningPurpose \<Rightarrow> bytes \<Rightarrow> u32 \<Rightarrow> usdt_db" where
  "start_session P u db purpose digest attempt =
     (let session_id = signing_session_id P digest attempt in
      if map_of (signing_sessions db) session_id \<noteq> None then db
      else db\<lparr>signing_sessions := AList.update session_id
             \<lparr>ss_purpose = purpose, ss_digest = digest, ss_signers = signer_subset P u digest attempt,
              ss_round = 0, ss_state = InProgress, ss_attempt = attempt,
              last_progress_block = consensus_block_count u db\<rparr> (signing_sessions db)\<rparr>)"

definition timed_out :: "Usdt \<Rightarrow> usdt_db \<Rightarrow> SigningSession \<Rightarrow> bool" where
  "timed_out u db session \<longleftrightarrow>
     ss_state session = InProgress \<and>
     consensus_block_count u db > saturating_add (last_progress_block session) (timeout_blocks u)"

definition remove_session_chunks :: "bytes \<Rightarrow> usdt_db \<Rightarrow> usdt_db" where
  "remove_session_chunks session_id db =
     db\<lparr>mpc_round_chunks := filter (\<lambda>((sid, _), _). sid \<noteq> session_id) (mpc_round_chunks db)\<rparr>"

definition process_rotate_signing :: "evm_platform \<Rightarrow> Usdt \<Rightarrow> usdt_db \<Rightarrow> bytes \<Rightarrow> (usdt_db, ItemError) result" where
  "process_rotate_signing P u db session_id =
     and_then (ok_or (map_of (signing_sessions db) session_id) UnknownSigningSession) (\<lambda>session.
     and_then (ensure (ss_state session = InProgress) NotInProgress) (\<lambda>_.
     and_then (ensure (timed_out u db session) NotTimedOut) (\<lambda>_.
     let db1 = db\<lparr>signing_sessions := AList.update session_id (session\<lparr>ss_state := SessionFailed\<rparr>) (signing_sessions db)\<rparr>;
         db2 = remove_session_chunks session_id db1
     in and_then (add_p (ss_attempt session) 1) (\<lambda>attempt.
          Ok (start_session P u db2 (ss_purpose session) (ss_digest session) attempt)))))"

definition process_mpc_signature :: "evm_platform \<Rightarrow> Usdt \<Rightarrow> usdt_db \<Rightarrow> bytes \<Rightarrow> bytes \<Rightarrow> (usdt_db, ItemError) result" where
  "process_mpc_signature P u db session_id signature =
     and_then (ok_or (map_of (signing_sessions db) session_id) UnknownSigningSession) (\<lambda>session.
     and_then (ensure (case ss_state session of Completed _ \<Rightarrow> False | _ \<Rightarrow> True) RedundantSignature) (\<lambda>_.
     and_then (ensure (is_compact_signature P signature) MalformedSignature) (\<lambda>_.
     and_then (ensure (verify_ecdsa P (ss_digest session) signature (group_public_key (usdt_cfg u))) SignatureDoesNotVerify) (\<lambda>_.
     case ss_purpose session of PurposeUserOp op_hash \<Rightarrow>
     and_then (ok_or (map_of (pending_user_ops db) op_hash) NoPendingUserOp) (\<lambda>pending.
     and_then (ensure (length signature = 64) SignatureLength) (\<lambda>_.
     and_then (ok_or (assemble_eth_signature P signature (ss_digest session)
         (evm_address P (group_public_key (usdt_cfg u)))) CannotAssembleSignature) (\<lambda>eth_sig.
     let db1 = db\<lparr>signing_sessions := AList.update session_id (session\<lparr>ss_state := Completed signature\<rparr>) (signing_sessions db)\<rparr>;
         db2 = db1\<lparr>submitted_user_ops := AList.update op_hash
            \<lparr>s_signed = \<lparr>unsigned_op = p_op pending, op_signature = eth_sig\<rparr>, s_purpose = p_purpose pending,
             submitted_block = consensus_block_count u db1, superseded = False\<rparr> (submitted_user_ops db1),
            pending_user_ops := AList.delete op_hash (pending_user_ops db1)\<rparr>
     in Ok (remove_session_chunks session_id db2))))))))"

section \<open>Rounds\<close>

text \<open>The chunks a peer has sent for a round, by index.\<close>

definition peer_round_chunks :: "usdt_db \<Rightarrow> bytes \<Rightarrow> u16 \<Rightarrow> PeerId \<Rightarrow> (u16, MpcRoundChunk) table" where
  "peer_round_chunks db session_id round peer =
     sort_key fst (map (\<lambda>((_, _, _, i), c). (i, c))
       (filter (\<lambda>((s, r, p, _), _). s = session_id \<and> r = round \<and> p = peer) (mpc_round_chunks db)))"

definition peer_complete :: "(u16, MpcRoundChunk) table \<Rightarrow> bool" where
  "peer_complete chunks =
     (case chunks of
        [] \<Rightarrow> False
      | (_, first) # _ \<Rightarrow>
          unat (ch_count first) = length chunks \<and>
          list_all (\<lambda>i. map_of chunks (of_nat i) \<noteq> None) [0..<unat (ch_count first)])"

definition reassembled :: "(u16, MpcRoundChunk) table \<Rightarrow> bytes" where
  "reassembled chunks =
     concat (map (\<lambda>i. case map_of chunks (of_nat i) of Some c \<Rightarrow> ch_bytes c | None \<Rightarrow> []) [0..<length chunks])"

definition process_mpc_round :: "Usdt \<Rightarrow> usdt_db \<Rightarrow> MpcRoundItem \<Rightarrow> PeerId \<Rightarrow> (usdt_db, ItemError) result" where
  "process_mpc_round u db item peer_id =
     and_then (ok_or (map_of (signing_sessions db) (mr_session_id item)) UnknownSigningSession) (\<lambda>session.
     and_then (ensure (peer_id \<in> set (ss_signers session)) NotASigner) (\<lambda>_.
     and_then (ensure (mr_round item = ss_round session) WrongRound) (\<lambda>_.
     and_then (ensure (mr_chunk_count item \<ge> 1 \<and> mr_chunk item < mr_chunk_count item) BadChunkIndex) (\<lambda>_.
     and_then (ensure (length (mr_payload item) \<le> MPC_ROUND_CHUNK_SIZE) ChunkTooLarge) (\<lambda>_.
     and_then (ensure (mr_chunk_count item \<le> MAX_MPC_CHUNKS) TooManyChunks) (\<lambda>_.
     let existing = map snd (peer_round_chunks db (mr_session_id item) (mr_round item) peer_id) in
     and_then (ensure (list_all (\<lambda>c. ch_count c = mr_chunk_count item) existing) InconsistentChunkCount) (\<lambda>_.
     and_then (ensure (sum_list (map (length \<circ> ch_bytes) existing) + length (mr_payload item) \<le> MAX_MPC_ROUND_BYTES)
        RoundTooLarge) (\<lambda>_.
     let key = (mr_session_id item, mr_round item, peer_id, mr_chunk item) in
     and_then (ensure (map_of (mpc_round_chunks db) key = None) RedundantChunk) (\<lambda>_.
     let db1 = db\<lparr>mpc_round_chunks := AList.update key
           \<lparr>ch_count = mr_chunk_count item, ch_bytes = mr_payload item\<rparr> (mpc_round_chunks db)\<rparr> in
     if list_all (\<lambda>peer. peer_complete (peer_round_chunks db1 (mr_session_id item) (mr_round item) peer)) (ss_signers session)
     then and_then (add_p (ss_round session) 1) (\<lambda>next_round.
            Ok (db1\<lparr>signing_sessions := AList.update (mr_session_id item)
                  (session\<lparr>ss_round := next_round, last_progress_block := consensus_block_count u db1\<rparr>)
                  (signing_sessions db1)\<rparr>))
     else Ok db1)))))))))"

text \<open>What a guardian among the signers submits to its signer once the round is complete, by sorted peer.\<close>

definition round_payloads :: "Usdt \<Rightarrow> usdt_db \<Rightarrow> bytes \<Rightarrow> u16 \<Rightarrow> SigningSession \<Rightarrow> bytes list option" where
  "round_payloads u db session_id round session =
     (let signers = sort (ss_signers session);
          chunks = map (peer_round_chunks db session_id round) signers
      in if usdt_our_peer_id u \<in> set signers \<and> list_all peer_complete chunks \<and>
            list_all (\<lambda>cs. sum_list (map (length \<circ> ch_bytes \<circ> snd) cs) \<le> MAX_MPC_ROUND_BYTES) chunks
         then Some (map reassembled chunks) else None)"

fun chunks_of :: "nat \<Rightarrow> bytes \<Rightarrow> bytes list" where
  "chunks_of 0 payload = []"
| "chunks_of (Suc n) payload = (if payload = [] then [] else take (Suc n) payload # chunks_of (Suc n) (drop (Suc n) payload))"

declare chunks_of.simps [simp del]

definition chunk_payload :: "bytes \<Rightarrow> bytes list" where
  "chunk_payload payload = (if payload = [] then [[]] else chunks_of MPC_ROUND_CHUNK_SIZE payload)"

definition propose_timed_out_rotations :: "Usdt \<Rightarrow> usdt_db \<Rightarrow> UsdtConsensusItem list" where
  "propose_timed_out_rotations u db =
     map (RotateSigning \<circ> fst) (filter (\<lambda>(_, session).
       ss_state session \<noteq> SessionFailed \<and>
       (case ss_purpose session of PurposeUserOp op_hash \<Rightarrow> map_of (pending_user_ops db) op_hash \<noteq> None) \<and>
       timed_out u db session) (signing_sessions db))"

definition remove_signing_sessions_for_op :: "bytes \<Rightarrow> usdt_db \<Rightarrow> usdt_db" where
  "remove_signing_sessions_for_op op_hash db =
     (let gone = map fst (filter (\<lambda>(_, s). ss_purpose s = PurposeUserOp op_hash) (signing_sessions db)) in
      db\<lparr>signing_sessions := filter (\<lambda>(i, _). i \<notin> set gone) (signing_sessions db),
         mpc_round_chunks := filter (\<lambda>((sid, _), _). sid \<notin> set gone) (mpc_round_chunks db)\<rparr>)"

end
