(* ===== verification/Usdt_Server.thy ===== *)
theory Usdt_Server
  imports Usdt_Signing
begin

text \<open>
  The consensus logic of the USDT server module, from \<open>modules/usdt/fedimint-usdt-server/src/lib.rs\<close>:
  when a sweep, a residual recovery, a fee withdrawal or a withdrawal batch is enqueued, what a
  confirmed operation changes, how a stuck operation is replaced, and the handlers of consensus items,
  inputs and outputs with the audit. A handler takes the database and returns the new one; an error
  discards every change, as the database transaction does. A plain addition that leaves its type is
  \<open>Panic\<close>.
\<close>

section \<open>Operations in flight\<close>

definition pool_account :: "evm_platform \<Rightarrow> Usdt \<Rightarrow> EvmAddress" where
  "pool_account P u =
     derive_pool_account P (group_public_key (usdt_cfg u)) (account_factory (usdt_cfg u)) (simple_account_impl (usdt_cfg u))"

definition pool_or_default :: "evm_platform \<Rightarrow> Usdt \<Rightarrow> usdt_db \<Rightarrow> UsdtPoolState" where
  "pool_or_default P u db =
     (case pool_state_row db of
        Some pool \<Rightarrow> pool
      | None \<Rightarrow> \<lparr>ps_account = pool_account P u, ps_balance = 0, ps_nonce = 0, ps_accrued_fees = 0\<rparr>)"

definition is_pool_purpose :: "UserOpPurpose \<Rightarrow> bool" where
  "is_pool_purpose purpose = (case purpose of Withdraw _ \<Rightarrow> True | WithdrawFees _ _ \<Rightarrow> True | _ \<Rightarrow> False)"

definition purpose_in_flight :: "(UserOpPurpose \<Rightarrow> bool) \<Rightarrow> usdt_db \<Rightarrow> bool" where
  "purpose_in_flight matches db \<longleftrightarrow>
     list_ex (\<lambda>(_, p). matches (p_purpose p)) (pending_user_ops db) \<or>
     list_ex (\<lambda>(_, s). matches (s_purpose s)) (submitted_user_ops db)"

definition withdraw_batch_in_flight :: "usdt_db \<Rightarrow> bool" where
  "withdraw_batch_in_flight db = purpose_in_flight is_pool_purpose db"

definition deploy_and_sweep_in_flight :: "usdt_db \<Rightarrow> EvmAddress \<Rightarrow> bool" where
  "deploy_and_sweep_in_flight db account = purpose_in_flight (\<lambda>p. p = DeployAndSweep account) db"

definition residual_recovery_in_flight :: "usdt_db \<Rightarrow> EvmAddress \<Rightarrow> bool" where
  "residual_recovery_in_flight db account = purpose_in_flight (\<lambda>p. p = RecoverResidual account) db"

definition op_known :: "usdt_db \<Rightarrow> bytes \<Rightarrow> bool" where
  "op_known db op_hash \<longleftrightarrow> map_of (pending_user_ops db) op_hash \<noteq> None \<or> map_of (submitted_user_ops db) op_hash \<noteq> None"

text \<open>Store an operation to be signed and start its first session.\<close>

definition enqueue_op :: "evm_platform \<Rightarrow> Usdt \<Rightarrow> usdt_db \<Rightarrow> bytes \<Rightarrow> UnsignedUserOp \<Rightarrow> UserOpPurpose \<Rightarrow> u64 \<Rightarrow> usdt_db" where
  "enqueue_op P u db op_hash op purpose block =
     start_session P u
       (db\<lparr>pending_user_ops := AList.update op_hash \<lparr>p_op = op, p_purpose = purpose, created_block = block\<rparr> (pending_user_ops db)\<rparr>)
       (PurposeUserOp op_hash) (eth_signed_message_hash P op_hash) 0"

definition op_hash_of :: "evm_platform \<Rightarrow> Usdt \<Rightarrow> UnsignedUserOp \<Rightarrow> bytes" where
  "op_hash_of P u op = user_op_hash P op (entry_point (usdt_cfg u)) (chain_id (usdt_cfg u))"

section \<open>Sweeps\<close>

definition sweep_params :: "evm_platform \<Rightarrow> Usdt \<Rightarrow> EvmAddress \<Rightarrow> DepositRecord \<Rightarrow> u64 \<Rightarrow> FeeVote \<Rightarrow> DeployAndSweepParams" where
  "sweep_params P u account record remainder median =
     \<lparr>ds_account_factory = account_factory (usdt_cfg u), ds_usdt_contract = usdt_contract (usdt_cfg u),
      ds_deposit_account = account, ds_owner = evm_address P (group_public_key (usdt_cfg u)),
      ds_claim_pk = rec_claim_pk record, ds_amount = remainder, ds_pool = pool_account P u,
      ds_nonce = ucast (rec_nonce record), ds_needs_deploy = (rec_nonce record = 0), ds_paymaster_and_data = [],
      ds_gas_bounds = with_median_fees DEPLOY_AND_SWEEP_DEVNET (Some (max_fee_per_gas_wei median))\<rparr>"

definition maybe_trigger_sweep :: "evm_platform \<Rightarrow> Usdt \<Rightarrow> usdt_db \<Rightarrow> EvmAddress \<Rightarrow> usdt_db" where
  "maybe_trigger_sweep P u db account =
     (case map_of (deposit_records db) account of
        None \<Rightarrow> db
      | Some record \<Rightarrow>
          let remainder = saturating_sub (credited record) (swept record) in
          if remainder = 0 then db
          else if deploy_and_sweep_in_flight db account then db
          else if residual_recovery_in_flight db account then db
          else (case fee_vote_median P u db of
                  None \<Rightarrow> db
                | Some median \<Rightarrow>
                    (case deposit_fee_quote median of
                       None \<Rightarrow> db
                     | Some sweep_fee \<Rightarrow>
                         if remainder \<le> sweep_fee then db
                         else
                           let op = build_deploy_and_sweep_userop P (sweep_params P u account record remainder median);
                               op_hash = op_hash_of P u op
                           in if op_known db op_hash then db
                              else enqueue_op P u db op_hash op (DeployAndSweep account) (consensus_block_count u db))))"

definition accelerate_sweeps_for_withdrawals :: "evm_platform \<Rightarrow> Usdt \<Rightarrow> usdt_db \<Rightarrow> usdt_db" where
  "accelerate_sweeps_for_withdrawals P u db =
     foldl (\<lambda>d (account, record). if credited record > swept record then maybe_trigger_sweep P u d account else d)
       db (deposit_records db)"

section \<open>Residual recovery\<close>

definition account_residual_votes :: "usdt_db \<Rightarrow> EvmAddress \<Rightarrow> u64 list" where
  "account_residual_votes db account = map snd (filter (\<lambda>((a, _), _). a = account) (recover_residual_votes db))"

definition maybe_trigger_residual_recovery :: "evm_platform \<Rightarrow> Usdt \<Rightarrow> usdt_db \<Rightarrow> EvmAddress \<Rightarrow> usdt_db" where
  "maybe_trigger_residual_recovery P u db account =
     (if residual_recovery_recipient (usdt_cfg u) = zero_address then db
      else if residual_recovery_in_flight db account then db
      else if deploy_and_sweep_in_flight db account then db
      else (case map_of (deposit_records db) account of
        None \<Rightarrow> db
      | Some record \<Rightarrow>
          if swept record \<noteq> credited record then db
          else
            let votes = account_residual_votes db account in
            if length votes < usdt_threshold P u then db
            else
              let agreed = (ucast (sort votes ! (length votes div 2)) :: u128) in
              (case fee_vote_median P u db of
                 None \<Rightarrow> db
               | Some median \<Rightarrow>
                   let gas_bounds = with_median_fees RECOVER_RESIDUAL_DEVNET (Some (max_fee_per_gas_wei median));
                       need = saturating_mul RECOVER_RESIDUAL_GAS_UNITS (gb_max_fee_per_gas gas_bounds);
                       need_with_margin = saturating_add need
                         (saturating_mul need RESIDUAL_RECOVERY_NEED_MARGIN_PERCENT div 100)
                   in (case checked_sub agreed need_with_margin of
                         None \<Rightarrow> db
                       | Some amount_wei \<Rightarrow>
                           if amount_wei = 0 \<or> agreed < RESIDUAL_RECOVERY_MIN_WEI then db
                           else
                             let op = build_recover_residual_userop P
                                   \<lparr>rr_deposit_account = account, rr_entry_point = entry_point (usdt_cfg u),
                                    rr_recipient = residual_recovery_recipient (usdt_cfg u), rr_amount_wei = amount_wei,
                                    rr_nonce = ucast (rec_nonce record), rr_paymaster_and_data = [],
                                    rr_gas_bounds = gas_bounds\<rparr>;
                                 op_hash = op_hash_of P u op
                             in if op_known db op_hash then db
                                else enqueue_op P u db op_hash op (RecoverResidual account) (consensus_block_count u db)))))"

section \<open>Pool operations\<close>

definition batch_params ::
  "evm_platform \<Rightarrow> Usdt \<Rightarrow> UsdtPoolState \<Rightarrow> (EvmAddress \<times> u64) list \<Rightarrow> FeeVote option \<Rightarrow> WithdrawalBatchParams" where
  "batch_params P u pool withdrawals median =
     \<lparr>wb_account_factory = account_factory (usdt_cfg u), wb_usdt_contract = usdt_contract (usdt_cfg u),
      wb_pool = ps_account pool, wb_owner = evm_address P (group_public_key (usdt_cfg u)),
      wb_withdrawals = withdrawals, wb_nonce = ucast (ps_nonce pool), wb_needs_deploy = (ps_nonce pool = 0),
      wb_paymaster_and_data = [],
      wb_gas_bounds = with_median_fees (gas_withdrawal_batch (of_nat (length withdrawals)) (ps_nonce pool = 0))
        (map_option max_fee_per_gas_wei median)\<rparr>"

text \<open>The first request, in the order of recipient and amount, that a threshold of guardians voted for.\<close>

definition agreed_fee_withdrawal :: "evm_platform \<Rightarrow> Usdt \<Rightarrow> usdt_db \<Rightarrow> (EvmAddress \<times> u64) option" where
  "agreed_fee_withdrawal P u db =
     (let votes = map (\<lambda>(_, v). (wf_recipient v, wf_amount v)) (withdraw_fees_votes db)
      in find (\<lambda>key. length (filter (\<lambda>v. v = key) votes) \<ge> usdt_threshold P u)
           (sort_key fst (sort_key snd (remdups votes))))"

definition maybe_trigger_fee_withdrawal :: "evm_platform \<Rightarrow> Usdt \<Rightarrow> usdt_db \<Rightarrow> usdt_db" where
  "maybe_trigger_fee_withdrawal P u db =
     (if withdraw_batch_in_flight db then db
      else (case agreed_fee_withdrawal P u db of
        None \<Rightarrow> db
      | Some (recipient, amount) \<Rightarrow>
          let pool = pool_or_default P u db in
          if amount > ps_accrued_fees pool then db
          else if amount > ps_balance pool then db
          else
            let op = build_withdrawal_batch_userop P (batch_params P u pool [(recipient, amount)] (fee_vote_median P u db));
                op_hash = op_hash_of P u op
            in if op_known db op_hash then db
               else enqueue_op P u db op_hash op (WithdrawFees recipient amount) (consensus_block_count u db)))"

definition withdrawal_batch_cap :: "usdt_db \<Rightarrow> OutPoint \<Rightarrow> nat" where
  "withdrawal_batch_cap db out_point =
     (case map_of (withdrawal_batch_caps db) out_point of None \<Rightarrow> BATCH_MAX_ITEMS | Some cap \<Rightarrow> unat cap)"

definition set_states :: "OutPoint list \<Rightarrow> WithdrawalState \<Rightarrow> usdt_db \<Rightarrow> usdt_db" where
  "set_states outpoints state db =
     db\<lparr>withdrawal_states := foldl (\<lambda>t out. AList.update out state t) (withdrawal_states db) outpoints\<rparr>"

definition build_and_enqueue_withdrawal_batch ::
  "evm_platform \<Rightarrow> Usdt \<Rightarrow> usdt_db \<Rightarrow> (OutPoint \<times> UsdtWithdrawalV0) list \<Rightarrow> UsdtPoolState \<Rightarrow> u64 \<Rightarrow> usdt_db" where
  "build_and_enqueue_withdrawal_batch P u db queued pool block =
     (let outpoints = map fst queued;
          op = build_withdrawal_batch_userop P
            (batch_params P u pool (map (\<lambda>(_, w). (w_recipient w, w_amount w)) queued) (fee_vote_median P u db));
          op_hash = op_hash_of P u op;
          db1 = db\<lparr>pending_user_ops := AList.update op_hash
              \<lparr>p_op = op, p_purpose = Withdraw outpoints, created_block = block\<rparr> (pending_user_ops db)\<rparr>
      in start_session P u (set_states outpoints (Signing op_hash) db1) (PurposeUserOp op_hash)
           (eth_signed_message_hash P op_hash) 0)"

text \<open>The withdrawals of the next batch: the queued ones in order, cut to the smallest cap among them.\<close>

definition queued_withdrawals :: "usdt_db \<Rightarrow> (OutPoint \<times> UsdtWithdrawalV0) list" where
  "queued_withdrawals db = filter (\<lambda>(out, _). map_of (withdrawal_states db) out = Some Queued) (unclaimed_withdrawals db)"

definition next_batch :: "usdt_db \<Rightarrow> (OutPoint \<times> UsdtWithdrawalV0) list" where
  "next_batch db =
     (let queued = take BATCH_MAX_ITEMS (sort_key fst (queued_withdrawals db))
      in take (foldl (\<lambda>cap (out, _). min cap (withdrawal_batch_cap db out)) BATCH_MAX_ITEMS queued) queued)"

definition batch_amount :: "(OutPoint \<times> UsdtWithdrawalV0) list \<Rightarrow> u64" where
  "batch_amount queued = foldl (\<lambda>acc (_, w). saturating_add acc (w_amount w)) 0 queued"

definition maybe_trigger_withdrawal_batch :: "evm_platform \<Rightarrow> Usdt \<Rightarrow> usdt_db \<Rightarrow> (usdt_db, 'e) result" where
  "maybe_trigger_withdrawal_batch P u db =
     (if withdraw_batch_in_flight db then Ok db
      else
        let queued = queued_withdrawals db in
        if queued = [] then Ok db
        else
          let block = consensus_block_count u db;
              oldest = Min (set (map (\<lambda>(_, w). requested_block w) queued))
          in and_then (add_p oldest (batch_interval_blocks u)) (\<lambda>fires_at.
             if \<not> block \<ge> fires_at \<and> \<not> length queued \<ge> BATCH_MAX_ITEMS then Ok db
             else
               let batch = next_batch db; pool = pool_or_default P u db in
               if ps_balance pool < batch_amount batch then Ok (accelerate_sweeps_for_withdrawals P u db)
               else Ok (build_and_enqueue_withdrawal_batch P u db batch pool block)))"

section \<open>Confirmed operations\<close>

definition remove_confirmed_votes :: "bytes \<Rightarrow> usdt_db \<Rightarrow> usdt_db" where
  "remove_confirmed_votes op_hash db =
     db\<lparr>user_op_confirmed_votes := filter (\<lambda>((h, _), _). h \<noteq> op_hash) (user_op_confirmed_votes db)\<rparr>"

definition purge_submitted :: "EvmAddress \<Rightarrow> u256 \<Rightarrow> bytes \<Rightarrow> usdt_db \<Rightarrow> usdt_db" where
  "purge_submitted snd_addr nonce except_hash db =
     (let gone = map fst (filter (\<lambda>(h, s). h \<noteq> except_hash \<and> sender (unsigned_op (s_signed s)) = snd_addr \<and>
            op_nonce (unsigned_op (s_signed s)) = nonce) (submitted_user_ops db))
      in foldl (\<lambda>d h. remove_confirmed_votes h (d\<lparr>submitted_user_ops := AList.delete h (submitted_user_ops d)\<rparr>)) db gone)"

definition purge_pending :: "EvmAddress \<Rightarrow> u256 \<Rightarrow> bytes \<Rightarrow> usdt_db \<Rightarrow> usdt_db" where
  "purge_pending snd_addr nonce except_hash db =
     (let gone = map fst (filter (\<lambda>(h, p). h \<noteq> except_hash \<and> sender (p_op p) = snd_addr \<and> op_nonce (p_op p) = nonce)
            (pending_user_ops db))
      in foldl (\<lambda>d h. remove_signing_sessions_for_op h (d\<lparr>pending_user_ops := AList.delete h (pending_user_ops d)\<rparr>)) db gone)"

definition purge_user_op_nonce_chain :: "EvmAddress \<Rightarrow> u256 \<Rightarrow> bytes \<Rightarrow> usdt_db \<Rightarrow> usdt_db" where
  "purge_user_op_nonce_chain snd_addr nonce except_hash db =
     purge_pending snd_addr nonce except_hash (purge_submitted snd_addr nonce except_hash db)"

definition create_withdrawal_refund :: "evm_platform \<Rightarrow> Usdt \<Rightarrow> usdt_db \<Rightarrow> OutPoint \<Rightarrow> string \<Rightarrow> usdt_db" where
  "create_withdrawal_refund P u db out_point reason =
     (case map_of (unclaimed_withdrawals db) out_point of
        None \<Rightarrow> db\<lparr>withdrawal_states := AList.update out_point (Failed reason) (withdrawal_states db)\<rparr>
      | Some withdrawal \<Rightarrow>
          let gross = saturating_add (w_amount withdrawal) (w_max_fee withdrawal);
              incurred = min (case map_of (withdrawal_incurred_fees db) out_point of None \<Rightarrow> 0 | Some f \<Rightarrow> f) gross;
              pool = pool_or_default P u db
          in db\<lparr>pool_state_row := Some (pool\<lparr>ps_accrued_fees := saturating_add (ps_accrued_fees pool) incurred\<rparr>),
                refunds := AList.update out_point
                  \<lparr>rf_amount = saturating_sub gross incurred, rf_pubkey = w_refund_pubkey withdrawal, rf_reason = reason\<rparr>
                  (refunds db),
                unclaimed_withdrawals := AList.delete out_point (unclaimed_withdrawals db),
                withdrawal_incurred_fees := AList.delete out_point (withdrawal_incurred_fees db),
                withdrawal_batch_caps := AList.delete out_point (withdrawal_batch_caps db),
                withdrawal_states := AList.update out_point (Failed reason) (withdrawal_states db)\<rparr>)"

definition REVERTS_WHEN_ISOLATED :: string where
  "REVERTS_WHEN_ISOLATED = ''transfer reverts when isolated (recipient likely blacklisted/paused)''"

text \<open>The fees of the withdrawals of a batch that are still unclaimed.\<close>

definition batch_fee_total :: "usdt_db \<Rightarrow> OutPoint list \<Rightarrow> u64" where
  "batch_fee_total db outpoints =
     foldl (\<lambda>acc out. case map_of (unclaimed_withdrawals db) out of
              Some w \<Rightarrow> saturating_add acc (w_max_fee w) | None \<Rightarrow> acc) 0 outpoints"

definition settle_withdrawals :: "u64 \<Rightarrow> OutPoint list \<Rightarrow> usdt_db \<Rightarrow> usdt_db" where
  "settle_withdrawals block outpoints db =
     foldl (\<lambda>d out. d\<lparr>withdrawal_states := AList.update out (Confirmed block) (withdrawal_states d),
                      unclaimed_withdrawals := AList.delete out (unclaimed_withdrawals d),
                      withdrawal_batch_caps := AList.delete out (withdrawal_batch_caps d),
                      withdrawal_incurred_fees := AList.delete out (withdrawal_incurred_fees d)\<rparr>) db outpoints"

definition accrue_incurred :: "u64 \<Rightarrow> OutPoint list \<Rightarrow> usdt_db \<Rightarrow> usdt_db" where
  "accrue_incurred share outpoints db =
     foldl (\<lambda>d out. d\<lparr>withdrawal_incurred_fees := AList.update out
              (saturating_add (case map_of (withdrawal_incurred_fees d) out of None \<Rightarrow> 0 | Some f \<Rightarrow> f) share)
              (withdrawal_incurred_fees d)\<rparr>) db outpoints"

definition requeue_withdrawals :: "u32 \<Rightarrow> OutPoint list \<Rightarrow> usdt_db \<Rightarrow> usdt_db" where
  "requeue_withdrawals cap outpoints db =
     foldl (\<lambda>d out. d\<lparr>withdrawal_states := AList.update out Queued (withdrawal_states d),
                      withdrawal_batch_caps := AList.update out cap (withdrawal_batch_caps d)\<rparr>) db outpoints"

definition gas_share :: "evm_platform \<Rightarrow> Usdt \<Rightarrow> usdt_db \<Rightarrow> UserOpConfirmedObservation \<Rightarrow> nat \<Rightarrow> u64" where
  "gas_share P u db obs n =
     (if n = 0 then 0
      else (case Option.bind (fee_vote_median P u db) (\<lambda>median.
                   wei_gas_cost_to_usdt (ucast (obs_actual_gas_cost_wei obs)) (usdt_per_eth_e6 median)) of
              None \<Rightarrow> 0
            | Some cost \<Rightarrow> cost div of_nat n))"

definition apply_withdraw_confirmed ::
  "evm_platform \<Rightarrow> Usdt \<Rightarrow> usdt_db \<Rightarrow> OutPoint list \<Rightarrow> UserOpConfirmedObservation \<Rightarrow> u64 \<Rightarrow> (usdt_db, 'e) result" where
  "apply_withdraw_confirmed P u db outpoints obs paid =
     (let pool = pool_or_default P u db; n = length outpoints in
      and_then (add_p (ps_nonce pool) 1) (\<lambda>nonce.
      let pool1 = pool\<lparr>ps_nonce := nonce\<rparr>;
          pool2 = (if obs_success obs
             then pool1\<lparr>ps_balance := saturating_sub (ps_balance pool1) paid,
                        ps_accrued_fees := saturating_add (ps_accrued_fees pool1) (batch_fee_total db outpoints)\<rparr>
             else pool1);
          db1 = db\<lparr>pool_state_row := Some pool2\<rparr>
      in and_then (expect (if max (n div 2) 1 < 2 ^ 32 then Some (of_nat (max (n div 2) 1)) else None)) (\<lambda>split_cap.
         if obs_success obs then Ok (settle_withdrawals (obs_block obs) outpoints db1)
         else
           let db2 = accrue_incurred (gas_share P u db1 obs n) outpoints db1 in
           if n \<le> 1 then Ok (foldl (\<lambda>d out. create_withdrawal_refund P u d out REVERTS_WHEN_ISOLATED) db2 outpoints)
           else Ok (requeue_withdrawals split_cap outpoints db2))))"

definition apply_fee_withdrawal_confirmed ::
  "evm_platform \<Rightarrow> Usdt \<Rightarrow> usdt_db \<Rightarrow> UserOpConfirmedObservation \<Rightarrow> u64 \<Rightarrow> (usdt_db, 'e) result" where
  "apply_fee_withdrawal_confirmed P u db obs paid =
     (let pool = pool_or_default P u db in
      and_then (add_p (ps_nonce pool) 1) (\<lambda>nonce.
      let pool1 = pool\<lparr>ps_nonce := nonce\<rparr>;
          pool2 = (if obs_success obs
             then pool1\<lparr>ps_balance := saturating_sub (ps_balance pool1) paid,
                        ps_accrued_fees := saturating_sub (ps_accrued_fees pool1) paid\<rparr>
             else pool1)
      in Ok (db\<lparr>pool_state_row := Some pool2, withdraw_fees_votes := []\<rparr>)))"

definition apply_sweep_confirmed :: "evm_platform \<Rightarrow> Usdt \<Rightarrow> usdt_db \<Rightarrow> EvmAddress \<Rightarrow> bool \<Rightarrow> u64 \<Rightarrow> usdt_db" where
  "apply_sweep_confirmed P u db source success moved =
     (let pool = pool_or_default P u db;
          pool1 = pool\<lparr>ps_balance := saturating_add (ps_balance pool) moved\<rparr>;
          pool2 = (case map_of (deposit_records db) source of
             Some record \<Rightarrow> pool1\<lparr>ps_accrued_fees := saturating_add (ps_accrued_fees pool1) (fees_accrued record)\<rparr>
           | None \<Rightarrow> pool1);
          db1 = (if success then db\<lparr>pool_state_row := Some pool2\<rparr> else db)
      in (case map_of (deposit_records db1) source of
            None \<Rightarrow> db1
          | Some record \<Rightarrow>
              let record1 = record\<lparr>rec_nonce := saturating_add (rec_nonce record) 1\<rparr>;
                  record2 = (if success
                     then record1\<lparr>swept := min (saturating_add (swept record1) moved) (credited record1), fees_accrued := 0\<rparr>
                     else record1)
              in db1\<lparr>deposit_records := AList.update source record2 (deposit_records db1)\<rparr>))"

definition apply_recovery_confirmed :: "usdt_db \<Rightarrow> EvmAddress \<Rightarrow> usdt_db" where
  "apply_recovery_confirmed db account =
     (let db1 = (case map_of (deposit_records db) account of
            None \<Rightarrow> db
          | Some record \<Rightarrow> db\<lparr>deposit_records := AList.update account
               (record\<lparr>rec_nonce := saturating_add (rec_nonce record) 1\<rparr>) (deposit_records db)\<rparr>)
      in db1\<lparr>recover_residual_votes := filter (\<lambda>((a, _), _). a \<noteq> account) (recover_residual_votes db1)\<rparr>)"

text \<open>The amount the operation moves by its own call data; \<open>None\<close> when it cannot be decoded.\<close>

definition committed_amount :: "evm_platform \<Rightarrow> UnsignedUserOp \<Rightarrow> UserOpPurpose \<Rightarrow> (u64, DecodeOpError) result" where
  "committed_amount P op purpose =
     (case purpose of
        DeployAndSweep _ \<Rightarrow> decode_transfer_amount P op
      | Withdraw _ \<Rightarrow> decode_batch_transfer_total P op
      | WithdrawFees _ _ \<Rightarrow> decode_batch_transfer_total P op
      | RecoverResidual _ \<Rightarrow> Ok 0)"

definition effective_swept :: "evm_platform \<Rightarrow> UnsignedUserOp \<Rightarrow> UserOpPurpose \<Rightarrow> UserOpConfirmedObservation \<Rightarrow> u64 option" where
  "effective_swept P op purpose obs =
     (if obs_success obs
      then (case committed_amount P op purpose of
              Ok expected \<Rightarrow> if expected = obs_swept obs then Some expected else None
            | _ \<Rightarrow> None)
      else Some 0)"

definition apply_user_op_confirmed ::
  "evm_platform \<Rightarrow> Usdt \<Rightarrow> usdt_db \<Rightarrow> bytes \<Rightarrow> UserOpConfirmedObservation \<Rightarrow> (usdt_db, 'e) result" where
  "apply_user_op_confirmed P u db op_hash obs =
     (case map_of (submitted_user_ops db) op_hash of
        None \<Rightarrow> Ok (remove_confirmed_votes op_hash db)
      | Some submitted \<Rightarrow>
          let op = unsigned_op (s_signed submitted) in
          (case effective_swept P op (s_purpose submitted) obs of
             None \<Rightarrow> Ok db
           | Some moved \<Rightarrow>
               and_then (case s_purpose submitted of
                   DeployAndSweep _ \<Rightarrow> Ok (apply_sweep_confirmed P u db (sender op) (obs_success obs) moved)
                 | Withdraw outpoints \<Rightarrow> apply_withdraw_confirmed P u db outpoints obs moved
                 | WithdrawFees _ _ \<Rightarrow> apply_fee_withdrawal_confirmed P u db obs moved
                 | RecoverResidual account \<Rightarrow> Ok (apply_recovery_confirmed db account)) (\<lambda>db1.
               let db2 = remove_confirmed_votes op_hash
                     (db1\<lparr>submitted_user_ops := AList.delete op_hash (submitted_user_ops db1)\<rparr>);
                   db3 = purge_user_op_nonce_chain (sender op) (op_nonce op) op_hash db2
               in Ok (case s_purpose submitted of
                   DeployAndSweep _ \<Rightarrow> if obs_success obs then maybe_trigger_sweep P u db3 (sender op) else db3
                 | RecoverResidual account \<Rightarrow> maybe_trigger_sweep P u db3 account
                 | _ \<Rightarrow> db3))))"

section \<open>Replacing a stuck operation\<close>

definition withdraw_reprice_over_ceiling :: "usdt_db \<Rightarrow> SubmittedUserOp \<Rightarrow> FeeVote \<Rightarrow> bool" where
  "withdraw_reprice_over_ceiling db submitted median =
     (case s_purpose submitted of
        Withdraw outpoints \<Rightarrow>
          (case wei_gas_cost_to_usdt (rp_gas_cost_wei (repriced_user_op_fees (unsigned_op (s_signed submitted)) median))
                  (usdt_per_eth_e6 median) of
             Some cost \<Rightarrow> cost > batch_fee_total db outpoints
           | None \<Rightarrow> True)
      | _ \<Rightarrow> False)"

definition op_timed_out :: "Usdt \<Rightarrow> usdt_db \<Rightarrow> SubmittedUserOp \<Rightarrow> bool" where
  "op_timed_out u db s \<longleftrightarrow> consensus_block_count u db > saturating_add (submitted_block s) (submitted_op_timeout_blocks u)"

definition propose_replace_user_ops :: "evm_platform \<Rightarrow> Usdt \<Rightarrow> usdt_db \<Rightarrow> UsdtConsensusItem list" where
  "propose_replace_user_ops P u db =
     map (ReplaceUserOp \<circ> fst) (filter (\<lambda>(_, s).
       \<not> superseded s \<and> op_timed_out u db s \<and>
       (case s_purpose s of
          Withdraw _ \<Rightarrow> (case fee_vote_median P u db of
              Some m \<Rightarrow> \<not> withdraw_reprice_over_ceiling db s m | None \<Rightarrow> False)
        | _ \<Rightarrow> True)) (submitted_user_ops db))"

definition process_replace_user_op :: "evm_platform \<Rightarrow> Usdt \<Rightarrow> usdt_db \<Rightarrow> bytes \<Rightarrow> (usdt_db, ItemError) result" where
  "process_replace_user_op P u db op_hash =
     and_then (ok_or (map_of (submitted_user_ops db) op_hash) UnknownSubmittedOp) (\<lambda>submitted.
     and_then (ensure (\<not> superseded submitted) AlreadySuperseded) (\<lambda>_.
     and_then (ensure (op_timed_out u db submitted) OpNotTimedOut) (\<lambda>_.
     and_then (ok_or (fee_vote_median P u db) NoFeeMedian) (\<lambda>median.
     let old = unsigned_op (s_signed submitted);
         fees = repriced_user_op_fees old median;
         new_op = old\<lparr>max_fee_per_gas := rp_max_fee_per_gas fees, max_priority_fee_per_gas := rp_max_priority_fee_per_gas fees\<rparr>
     in and_then (case s_purpose submitted of
            Withdraw _ \<Rightarrow> ensure (\<not> withdraw_reprice_over_ceiling db submitted median) RepriceOverCeiling
          | DeployAndSweep _ \<Rightarrow> ensure (\<not> rp_max_fee_per_gas fees > SWEEP_MAX_FEE_PER_GAS_WEI) SweepOverGasCeiling
          | RecoverResidual _ \<Rightarrow> Err NeverRepriced
          | WithdrawFees _ _ \<Rightarrow> Err NeverRepriced) (\<lambda>_.
     let new_hash = op_hash_of P u new_op in
     and_then (ensure (\<not> op_known db new_hash) ReplacementEnqueued) (\<lambda>_.
     let db1 = db\<lparr>pending_user_ops := AList.update new_hash
             \<lparr>p_op = new_op, p_purpose = s_purpose submitted, created_block = consensus_block_count u db\<rparr>
             (pending_user_ops db)\<rparr>;
         db2 = (case s_purpose submitted of
            Withdraw outpoints \<Rightarrow> set_states outpoints (Signing new_hash) db1
          | _ \<Rightarrow> db1);
         db3 = db2\<lparr>submitted_user_ops := AList.update op_hash (submitted\<lparr>superseded := True\<rparr>) (submitted_user_ops db2)\<rparr>
     in Ok (start_session P u db3 (PurposeUserOp new_hash) (eth_signed_message_hash P new_hash) 0)))))))"

section \<open>Consensus items\<close>

definition process_user_op_confirmed ::
  "evm_platform \<Rightarrow> Usdt \<Rightarrow> usdt_db \<Rightarrow> bytes \<Rightarrow> UserOpConfirmedObservation \<Rightarrow> PeerId \<Rightarrow> (usdt_db, ItemError) result" where
  "process_user_op_confirmed P u db op_hash obs peer_id =
     and_then (ensure (map_of (submitted_user_ops db) op_hash \<noteq> None) NeverSubmitted) (\<lambda>_.
     and_then (ensure (map_of (user_op_confirmed_votes db) (op_hash, peer_id) \<noteq> Some obs) RedundantConfirmation) (\<lambda>_.
     let db1 = db\<lparr>user_op_confirmed_votes := AList.update (op_hash, peer_id) obs (user_op_confirmed_votes db)\<rparr>;
         agreeing = length (filter (\<lambda>((h, _), v). h = op_hash \<and> v = obs) (user_op_confirmed_votes db1))
     in if agreeing \<ge> usdt_threshold P u then apply_user_op_confirmed P u db1 op_hash obs else Ok db1))"

definition process_fee_vote :: "Usdt \<Rightarrow> usdt_db \<Rightarrow> FeeVote \<Rightarrow> PeerId \<Rightarrow> (usdt_db, ItemError) result" where
  "process_fee_vote u db vote peer_id =
     and_then (ensure (fee_vote_in_sane_range vote) InsaneFeeVote) (\<lambda>_.
     let block = consensus_block_count u db in
     and_then (ensure (case map_of (fee_votes db) peer_id of
          Some stored \<Rightarrow> \<not> (sf_vote stored = vote \<and> saturating_sub block (recorded_block stored) < FEE_VOTE_REFRESH_BLOCKS)
        | None \<Rightarrow> True) RedundantFeeVote) (\<lambda>_.
     Ok (db\<lparr>fee_votes := AList.update peer_id \<lparr>sf_vote = vote, recorded_block = block\<rparr> (fee_votes db)\<rparr>)))"

definition process_bootstrap_observation ::
  "evm_platform \<Rightarrow> Usdt \<Rightarrow> usdt_db \<Rightarrow> BootstrapObservation \<Rightarrow> PeerId \<Rightarrow> (usdt_db, ItemError) result" where
  "process_bootstrap_observation P u db obs peer_id =
     and_then (ensure (map_of (bootstrap_votes db) peer_id \<noteq> Some obs) RedundantBootstrapVote) (\<lambda>_.
     let db1 = db\<lparr>bootstrap_votes := AList.update peer_id obs (bootstrap_votes db)\<rparr>
     in Ok (if bootstrap_ready P u db1 \<and> \<not> has_ever_been_ready db1 then db1\<lparr>has_ever_been_ready := True\<rparr> else db1))"

definition process_block_hash :: "evm_platform \<Rightarrow> Usdt \<Rightarrow> usdt_db \<Rightarrow> BlockHashObservation \<Rightarrow> PeerId \<Rightarrow> (usdt_db, ItemError) result" where
  "process_block_hash P u db obs peer_id =
     (let depth = confirmation_depth (usdt_cfg u); ccount = consensus_block_count u db in
      and_then (ensure (bh_height obs \<le> saturating_sub ccount depth) NotConfirmationDeep) (\<lambda>_.
      and_then (add_p depth DEPOSIT_VOTE_MAX_AGE_BLOCKS) (\<lambda>max_age.
      and_then (ensure (saturating_sub ccount (bh_height obs) \<le> max_age) ObservationTooOld) (\<lambda>_.
      and_then (ensure (map_of (block_hash_votes db) peer_id \<noteq> Some obs) RedundantBlockHash) (\<lambda>_.
      let db1 = db\<lparr>block_hash_votes := AList.update peer_id obs (block_hash_votes db)\<rparr>;
          agreeing = length (filter (\<lambda>(_, v). v = obs) (block_hash_votes db1))
      in Ok (if agreeing \<ge> usdt_threshold P u then write_block_hash_ring db1 (bh_height obs) (bh_hash obs) else db1))))))"

definition process_recover_residual ::
  "evm_platform \<Rightarrow> Usdt \<Rightarrow> usdt_db \<Rightarrow> EvmAddress \<Rightarrow> u64 \<Rightarrow> PeerId \<Rightarrow> (usdt_db, ItemError) result" where
  "process_recover_residual P u db account deposit_wei peer_id =
     and_then (ok_or (map_of (deposit_records db) account) UnknownDepositAccount) (\<lambda>record.
     and_then (ensure (credited record > 0 \<and> swept record = credited record) NotFullySwept) (\<lambda>_.
     and_then (ensure (map_of (recover_residual_votes db) (account, peer_id) \<noteq> Some deposit_wei) RedundantResidualVote) (\<lambda>_.
     Ok (maybe_trigger_residual_recovery P u
        (db\<lparr>recover_residual_votes := AList.update (account, peer_id) deposit_wei (recover_residual_votes db)\<rparr>) account))))"

definition process_withdraw_fees_vote ::
  "evm_platform \<Rightarrow> Usdt \<Rightarrow> usdt_db \<Rightarrow> WithdrawFeesVote \<Rightarrow> PeerId \<Rightarrow> (usdt_db, ItemError) result" where
  "process_withdraw_fees_vote P u db vote peer_id =
     and_then (ensure (wf_amount vote > 0) ZeroFeeWithdrawal) (\<lambda>_.
     and_then (ensure (is_dev_chain (chain_id (usdt_cfg u)) \<or> wf_recipient vote \<noteq> zero_address) ZeroFeeRecipient) (\<lambda>_.
     and_then (ensure (map_of (withdraw_fees_votes db) peer_id \<noteq> Some vote) RedundantWithdrawFeesVote) (\<lambda>_.
     Ok (maybe_trigger_fee_withdrawal P u (db\<lparr>withdraw_fees_votes := AList.update peer_id vote (withdraw_fees_votes db)\<rparr>)))))"

definition process_item_usdt :: "evm_platform \<Rightarrow> Usdt \<Rightarrow> usdt_db \<Rightarrow> UsdtConsensusItem \<Rightarrow> PeerId \<Rightarrow> (usdt_db, ItemError) result" where
  "process_item_usdt P u db item peer_id =
     (case item of
        BlockCount vote \<Rightarrow>
          and_then (ensure (vote > (case map_of (block_count_votes db) peer_id of None \<Rightarrow> 0 | Some v \<Rightarrow> v)) RedundantBlockCount) (\<lambda>_.
            maybe_trigger_withdrawal_batch P u (db\<lparr>block_count_votes := AList.update peer_id vote (block_count_votes db)\<rparr>))
      | MpcRound round_item \<Rightarrow> process_mpc_round u db round_item peer_id
      | RotateSigning session_id \<Rightarrow> process_rotate_signing P u db session_id
      | ReplaceUserOp op_hash \<Rightarrow> process_replace_user_op P u db op_hash
      | MpcSignature session_id signature \<Rightarrow> process_mpc_signature P u db session_id signature
      | UserOpConfirmed op_hash obs \<Rightarrow> process_user_op_confirmed P u db op_hash obs peer_id
      | FeeVoteItem vote \<Rightarrow> process_fee_vote u db vote peer_id
      | BootstrapObservationItem obs \<Rightarrow> process_bootstrap_observation P u db obs peer_id
      | BlockHash obs \<Rightarrow> process_block_hash P u db obs peer_id
      | RecoverResidualItem account deposit_wei \<Rightarrow> process_recover_residual P u db account deposit_wei peer_id
      | WithdrawFeesVoteItem vote \<Rightarrow> process_withdraw_fees_vote P u db vote peer_id
      | ItemDefault _ _ \<Rightarrow> Err UnsupportedItem)"

section \<open>Inputs\<close>

definition new_deposit_record :: "PublicKey \<Rightarrow> DepositRecord" where
  "new_deposit_record claim_pk =
     \<lparr>rec_claim_pk = claim_pk, credited = 0, claimed = 0, last_observed_block = 0, swept = 0, rec_nonce = 0, fees_accrued = 0\<rparr>"

definition deposit_account :: "evm_platform \<Rightarrow> Usdt \<Rightarrow> PublicKey \<Rightarrow> EvmAddress" where
  "deposit_account P u claim_pk = derive_deposit_account P (group_public_key (usdt_cfg u)) (account_factory (usdt_cfg u))
     (simple_account_impl (usdt_cfg u)) claim_pk"

definition process_deposit_proof ::
  "evm_platform \<Rightarrow> Usdt \<Rightarrow> usdt_db \<Rightarrow> PublicKey \<Rightarrow> DepositProof \<Rightarrow> u64 \<Rightarrow>
    (usdt_db \<times> usdt_amounts \<times> PublicKey, UsdtInputError) result" where
  "process_deposit_proof P u db claim_pk proof fee =
     (let account = deposit_account P u claim_pk in
      and_then (ok_or (ring_hash_at db (block_number proof)) (DepositProofNotAnchored (block_number proof))) (\<lambda>expected.
      and_then (map_err DepositProofInvalid (verify_deposit_proof P proof expected (usdt_contract (usdt_cfg u)) account)) (\<lambda>proven.
      let record = (case map_of (deposit_records db) account of Some r \<Rightarrow> r | None \<Rightarrow> new_deposit_record claim_pk);
          delta = saturating_sub proven (credited record)
      in and_then (ensure (delta \<noteq> 0) (DepositProofStale proven (credited record))) (\<lambda>_.
         and_then (ok_or (fee_vote_median P u db) InputNoFeeQuoteAvailable) (\<lambda>median.
         and_then (ok_or (deposit_fee_quote median) InputFeeQuoteOverflow) (\<lambda>quote.
         and_then (ensure (\<not> fee < quote) (DepositFeeInsufficient quote fee)) (\<lambda>_.
         and_then (ensure (\<not> delta \<le> fee) (FeeExceedsAmount delta fee)) (\<lambda>_.
         let record1 = record\<lparr>credited := proven, claimed := saturating_add (claimed record) delta,
               last_observed_block := block_number proof, fees_accrued := saturating_add (fees_accrued record) fee\<rparr>;
             db1 = db\<lparr>deposit_records := AList.update account record1 (deposit_records db)\<rparr>
         in Ok (maybe_trigger_sweep P u db1 account, \<lparr>ta_amount = delta, ta_fees = fee\<rparr>, claim_pk)))))))))"

definition process_input_usdt ::
  "evm_platform \<Rightarrow> Usdt \<Rightarrow> usdt_db \<Rightarrow> UsdtInput \<Rightarrow> (usdt_db \<times> usdt_amounts \<times> PublicKey, UsdtInputError) result" where
  "process_input_usdt P u db input =
     (case input of
        RefundV0 out_point \<Rightarrow>
          and_then (ok_or (map_of (refunds db) out_point) UnknownRefund) (\<lambda>refund.
            Ok (db\<lparr>refunds := AList.delete out_point (refunds db)\<rparr>, \<lparr>ta_amount = rf_amount refund, ta_fees = 0\<rparr>, rf_pubkey refund))
      | DepositProofV0 claim_pk proof fee \<Rightarrow> process_deposit_proof P u db claim_pk proof fee
      | UsdtInputDefault _ _ \<Rightarrow> Err UnsupportedInputVariant)"

section \<open>Outputs and the audit\<close>

definition process_output_usdt ::
  "evm_platform \<Rightarrow> Usdt \<Rightarrow> usdt_db \<Rightarrow> UsdtOutput \<Rightarrow> OutPoint \<Rightarrow> (usdt_db \<times> usdt_amounts, UsdtOutputError) result" where
  "process_output_usdt P u db output_item out_point =
     (case output_item of
        UsdtOutputDefault _ _ \<Rightarrow> Err UnsupportedOutputVariant
      | UsdtV0 withdrawal \<Rightarrow>
          and_then (ok_or (fee_vote_median P u db) NoFeeQuoteAvailable) (\<lambda>median.
          and_then (ok_or (withdrawal_fee_quote median) FeeQuoteOverflow) (\<lambda>quote.
          and_then (ensure (\<not> out_max_fee withdrawal < quote) (FeeQuoteExceeded quote (out_max_fee withdrawal))) (\<lambda>_.
          Ok (db\<lparr>unclaimed_withdrawals := AList.update out_point
                   \<lparr>w_recipient = out_recipient withdrawal, w_amount = out_amount withdrawal, w_max_fee = out_max_fee withdrawal,
                    requested_block = consensus_block_count u db, w_refund_pubkey = out_refund_pubkey withdrawal\<rparr>
                   (unclaimed_withdrawals db),
                 withdrawal_states := AList.update out_point Queued (withdrawal_states db)\<rparr>,
              \<lparr>ta_amount = out_amount withdrawal, ta_fees = out_max_fee withdrawal\<rparr>)))))"

definition output_status_usdt :: "usdt_db \<Rightarrow> OutPoint \<Rightarrow> unit option" where
  "output_status_usdt db out_point = map_option (\<lambda>_. ()) (map_of (withdrawal_states db) out_point)"

definition i64_or_max :: "u64 \<Rightarrow> int" where
  "i64_or_max w = (if uint w < 2 ^ 63 then uint w else 2 ^ 63 - 1)"

definition audit_usdt :: "usdt_db \<Rightarrow> int list" where
  "audit_usdt db =
     map (\<lambda>(_, v). i64_or_max (saturating_sub (credited v) (swept v))) (deposit_records db) @
     (case pool_state_row db of None \<Rightarrow> [] | Some pool \<Rightarrow> [i64_or_max (ps_balance pool)]) @
     map (\<lambda>(_, v). - i64_or_max (w_amount v)) (unclaimed_withdrawals db) @
     map (\<lambda>(_, v). - i64_or_max (rf_amount v)) (refunds db)"

section \<open>Read endpoints\<close>

datatype WithdrawalStatus =
    StatusUnknown
  | StatusQueued
  | StatusSigning bytes
  | StatusSubmitted bytes
  | StatusConfirmed u64
  | StatusFailed string

definition handle_withdrawal_status :: "usdt_db \<Rightarrow> OutPoint \<Rightarrow> WithdrawalStatus" where
  "handle_withdrawal_status db out_point =
     (case map_of (withdrawal_states db) out_point of
        None \<Rightarrow> StatusUnknown
      | Some Queued \<Rightarrow> StatusQueued
      | Some (Signing h) \<Rightarrow> StatusSigning h
      | Some (Submitted h) \<Rightarrow> StatusSubmitted h
      | Some (Confirmed b) \<Rightarrow> StatusConfirmed b
      | Some (Failed r) \<Rightarrow> StatusFailed r)"

record DepositStatusResponse =
  dst_account :: EvmAddress
  dst_credited :: u64
  dst_claimed :: u64
  dst_claimable :: u64

definition handle_deposit_status :: "evm_platform \<Rightarrow> Usdt \<Rightarrow> usdt_db \<Rightarrow> PublicKey \<Rightarrow> DepositStatusResponse" where
  "handle_deposit_status P u db claim_pk =
     (let account = deposit_account P u claim_pk;
          (c, d) = (case map_of (deposit_records db) account of None \<Rightarrow> (0, 0) | Some r \<Rightarrow> (credited r, claimed r))
      in \<lparr>dst_account = account, dst_credited = c, dst_claimed = d, dst_claimable = saturating_sub c d\<rparr>)"

definition handle_refund_status :: "usdt_db \<Rightarrow> OutPoint \<Rightarrow> (u64 \<times> string) option" where
  "handle_refund_status db out_point = map_option (\<lambda>r. (rf_amount r, rf_reason r)) (map_of (refunds db) out_point)"

record FeeQuoteResponse =
  fq_fee :: u64
  fq_valid_blocks :: u64
  fq_available :: bool

definition quote_response :: "u64 option \<Rightarrow> FeeQuoteResponse" where
  "quote_response quote =
     \<lparr>fq_fee = (case quote of None \<Rightarrow> 0 | Some q \<Rightarrow> q), fq_valid_blocks = FEE_QUOTE_VALID_BLOCKS, fq_available = (quote \<noteq> None)\<rparr>"

definition handle_withdraw_fee_quote :: "evm_platform \<Rightarrow> Usdt \<Rightarrow> usdt_db \<Rightarrow> FeeQuoteResponse" where
  "handle_withdraw_fee_quote P u db = quote_response (Option.bind (fee_vote_median P u db) withdrawal_fee_quote)"

definition handle_deposit_fee_quote :: "evm_platform \<Rightarrow> Usdt \<Rightarrow> usdt_db \<Rightarrow> FeeQuoteResponse" where
  "handle_deposit_fee_quote P u db = quote_response (Option.bind (fee_vote_median P u db) deposit_fee_quote)"

record StatusResponse =
  st_state :: BootstrapState
  st_entry_point_ok :: bool
  st_factory_ok :: bool
  st_impl_ok :: bool
  st_funded_guardians :: u16
  st_healthy_guardians :: u16
  st_threshold :: u16

definition u16_or_max :: "nat \<Rightarrow> u16" where
  "u16_or_max n = (if n < 2 ^ 16 then of_nat n else - 1)"

definition handle_status :: "evm_platform \<Rightarrow> Usdt \<Rightarrow> usdt_db \<Rightarrow> StatusResponse" where
  "handle_status P u db =
     (let counts = bootstrap_counts db; t = usdt_threshold P u in
      \<lparr>st_state = bootstrap_state P u db, st_entry_point_ok = (bc_entry_point_ok counts \<ge> t),
       st_factory_ok = (bc_factory_ok counts \<ge> t), st_impl_ok = (bc_impl_ok counts \<ge> t),
       st_funded_guardians = u16_or_max (bc_funded counts), st_healthy_guardians = u16_or_max (bc_rpc_healthy counts),
       st_threshold = u16_or_max t\<rparr>)"

definition handle_latest_anchored_block :: "usdt_db \<Rightarrow> u64 \<times> u64" where
  "handle_latest_anchored_block db =
     ((case ring_latest_height db of None \<Rightarrow> 0 | Some h \<Rightarrow> h), BLOCK_HASH_RING_LEN)"

text \<open>The endpoints that read the configuration, the pool and the tables of operations directly.\<close>

definition group_public_key_endpoint :: "Usdt \<Rightarrow> PublicKey" where
  "group_public_key_endpoint u = group_public_key (usdt_cfg u)"

record PoolStateResponse =
  psr_account :: EvmAddress
  psr_balance :: u64
  psr_accrued_fees :: u64

definition pool_state_endpoint :: "evm_platform \<Rightarrow> Usdt \<Rightarrow> usdt_db \<Rightarrow> PoolStateResponse" where
  "pool_state_endpoint P u db =
     (let pool = pool_or_default P u db in
      \<lparr>psr_account = ps_account pool, psr_balance = ps_balance pool, psr_accrued_fees = ps_accrued_fees pool\<rparr>)"

datatype UserOpStatus = OpPending | OpSubmitted | OpUnknown

definition userop_status_endpoint :: "usdt_db \<Rightarrow> bytes \<Rightarrow> UserOpStatus" where
  "userop_status_endpoint db op_hash =
     (if map_of (pending_user_ops db) op_hash \<noteq> None then OpPending
      else if map_of (submitted_user_ops db) op_hash \<noteq> None then OpSubmitted
      else OpUnknown)"

end
