(* ===== verification/Usdt_Demo.thy ===== *)
theory Usdt_Demo
  imports Usdt_Server
begin

text \<open>
  A concrete platform, configuration and run of the USDT server for the examples: byte strings for the ABI
  encodings, the identity for the hash, one guardian. It shows that the assumptions on the code outside the
  repository can hold together.
\<close>

section \<open>Encodings\<close>

definition demo_seq_enc :: "('a \<Rightarrow> bytes) \<Rightarrow> 'a list \<Rightarrow> bytes" where
  "demo_seq_enc enc xs = map (\<lambda>_. 1) xs @ [0] @ concat (map enc xs)"

fun demo_take_seq :: "(bytes \<Rightarrow> ('a \<times> bytes) option) \<Rightarrow> nat \<Rightarrow> bytes \<Rightarrow> ('a list \<times> bytes) option" where
  "demo_take_seq dec 0 bs = Some ([], bs)"
| "demo_take_seq dec (Suc n) bs =
     Option.bind (dec bs) (\<lambda>(x, rest). Option.bind (demo_take_seq dec n rest) (\<lambda>(xs, rest'). Some (x # xs, rest')))"

definition demo_seq_dec :: "(bytes \<Rightarrow> ('a \<times> bytes) option) \<Rightarrow> bytes \<Rightarrow> ('a list \<times> bytes) option" where
  "demo_seq_dec dec bs = (let n = length (takeWhile (\<lambda>b. b = 1) bs) in demo_take_seq dec n (drop (Suc n) bs))"

lemma demo_seq_law:
  assumes "\<And>x rest. dec (enc x @ rest) = Some (x, rest)"
  shows "demo_seq_dec dec (demo_seq_enc enc xs @ rest) = Some (xs, rest)"
proof -
  have "takeWhile (\<lambda>b. b = 1) (map (\<lambda>_. 1) xs @ 0 # r) = map (\<lambda>_. 1 :: u8) xs" for r :: bytes and xs :: "'a list"
    by (induction xs) auto
  moreover have "demo_take_seq dec (length xs) (concat (map enc xs) @ rest) = Some (xs, rest)"
    by (induction xs) (simp_all add: assms)
  ultimately show ?thesis by (simp add: demo_seq_dec_def demo_seq_enc_def)
qed

definition demo_addr_dec :: "bytes \<Rightarrow> (EvmAddress \<times> bytes) option" where
  "demo_addr_dec bs = Some (addr_of_bytes (take 20 bs), drop 20 bs)"

definition demo_word_enc :: "u256 \<Rightarrow> bytes" where
  "demo_word_enc v = be_bytes 32 (unat v)"

definition demo_word_dec :: "bytes \<Rightarrow> (u256 \<times> bytes) option" where
  "demo_word_dec bs = Some (of_nat (of_be_bytes (take 32 bs)), drop 32 bs)"

lemma demo_fixed_laws [simp]:
  "demo_addr_dec (addr_bytes a @ rest) = Some (a, rest)"
  "demo_word_dec (demo_word_enc v @ rest) = Some (v, rest)"
  using of_be_be_bytes [of "unat v" 32] unat_bound [of v]
  by (simp_all add: demo_addr_dec_def demo_word_dec_def demo_word_enc_def)

definition demo_pair_enc :: "EvmAddress \<Rightarrow> u256 \<Rightarrow> bytes" where
  "demo_pair_enc a v = addr_bytes a @ demo_word_enc v"

definition demo_pair_dec :: "bytes \<Rightarrow> (EvmAddress \<times> u256) option" where
  "demo_pair_dec bs = Option.bind (demo_addr_dec bs) (\<lambda>(a, r). Option.bind (demo_word_dec r) (\<lambda>(v, _). Some (a, v)))"

lemma demo_pair_law: "demo_pair_dec (demo_pair_enc a v) = Some (a, v)"
  using demo_fixed_laws(2) [of v "[]"] by (simp add: demo_pair_dec_def demo_pair_enc_def)

section \<open>The platform\<close>

text \<open>Keys whose first byte is the point: a tweak is added to it.\<close>

fun demo_add_tweak :: "bytes \<Rightarrow> u64 \<Rightarrow> bytes" where
  "demo_add_tweak [] t = []"
| "demo_add_tweak (b # bs) t = (b + ucast t) # bs"

definition demo_evm :: evm_platform where
  "demo_evm =
     \<lparr>keccak256 = (\<lambda>bs. bs), serialize_uncompressed = (\<lambda>pk. pk), add_exp_tweak = (\<lambda>pk t. Some (demo_add_tweak pk t)),
      create2 = (\<lambda>_ salt _. of_nat (length salt)),
      initialize_encode = addr_bytes, ctor_args_encode = (\<lambda>a d. addr_bytes a @ d), createAccount_encode = (\<lambda>a d. addr_bytes a @ d),
      transfer_encode = demo_pair_enc, transfer_decode = demo_pair_dec,
      execute_encode = (\<lambda>d v f. demo_pair_enc d v @ f),
      execute_decode = (\<lambda>bs. Option.bind (demo_pair_dec bs) (\<lambda>(d, v). Some (d, v, drop 52 bs))),
      executeBatch_encode = (\<lambda>ds vs fs. demo_seq_enc addr_bytes ds @ demo_seq_enc demo_word_enc vs @ demo_seq_enc demo_vec_enc fs),
      executeBatch_decode = (\<lambda>bs. Option.bind (demo_seq_dec demo_addr_dec bs) (\<lambda>(ds, r).
        Option.bind (demo_seq_dec demo_word_dec r) (\<lambda>(vs, r'). Option.bind (demo_seq_dec demo_vec_dec r') (\<lambda>(fs, _). Some (ds, vs, fs))))),
      withdrawTo_encode = demo_pair_enc, withdrawTo_decode = demo_pair_dec,
      user_op_params_encode = (\<lambda>a b c d e f g h. addr_bytes a @ demo_word_enc b @ demo_seq_enc demo_vec_enc [c, d, e] @
        demo_word_enc f @ demo_seq_enc demo_vec_enc [g, h]),
      op_domain_params_encode = (\<lambda>h a c. addr_bytes a @ demo_word_enc c @ h),
      recover_ecdsa = (\<lambda>_ _ _. Some [4]), verify_ecdsa = (\<lambda>_ _ _. True), is_compact_signature = (\<lambda>bs. length bs = 64),
      header_state_root = Some, account_storage_root = Some,
      u256_rlp_decode = (\<lambda>bs. Some (of_nat (of_be_bytes bs))), trie_leaf_value = Some,
      verify_proof = (\<lambda>_ _ v _. v \<noteq> None), threshold_of = (\<lambda>n. n - (n - 1) div 3)\<rparr>"

lemma demo_vec_law': "demo_vec_dec (demo_vec_enc v) = Some (v, [])"
  using demo_vec_law [of v "[]"] by simp

lemma demo_seq_law': "(\<And>x rest. dec (enc x @ rest) = Some (x, rest)) \<Longrightarrow> demo_seq_dec dec (demo_seq_enc enc xs) = Some (xs, [])"
  using demo_seq_law [of dec enc xs "[]"] by simp

lemma demo_abi_laws: "abi_laws demo_evm"
proof -
  have "length (demo_pair_enc a v) = 52" for a v by (simp add: demo_pair_enc_def demo_word_enc_def)
  moreover have "demo_pair_dec (demo_pair_enc a v @ f) = Some (a, v)" for a v f
    by (simp add: demo_pair_dec_def demo_pair_enc_def)
  ultimately show ?thesis
    by (simp add: abi_laws_def demo_evm_def demo_pair_law demo_seq_law demo_seq_law' demo_vec_law)
qed

text \<open>The encodings below the hash are injective.\<close>

lemma demo_word_inject: "demo_word_enc v @ r = demo_word_enc v' @ r' \<longleftrightarrow> v = v' \<and> r = r'"
  by (metis demo_fixed_laws(2) option.inject prod.inject)

lemma demo_addr_inject: "addr_bytes v @ r = addr_bytes v' @ r' \<longleftrightarrow> v = v' \<and> r = r'"
  by (metis demo_fixed_laws(1) option.inject prod.inject)

lemma demo_seq_inject: "demo_seq_enc demo_vec_enc xs @ r = demo_seq_enc demo_vec_enc ys @ r' \<longleftrightarrow> xs = ys \<and> r = r'"
  by (metis demo_seq_law [of demo_vec_dec demo_vec_enc, OF demo_vec_law] option.inject prod.inject)

lemma demo_hash_inject:
  "user_op_params_encode demo_evm a b c d e f g h = user_op_params_encode demo_evm a' b' c' d' e' f' g' h' \<longleftrightarrow>
     a = a' \<and> b = b' \<and> c = c' \<and> d = d' \<and> e = e' \<and> f = f' \<and> g = g' \<and> h = h'"
  "op_domain_params_encode demo_evm x y z = op_domain_params_encode demo_evm x' y' z' \<longleftrightarrow> x = x' \<and> y = y' \<and> z = z'"
  using demo_seq_inject [of "[g, h]" "[]" "[g', h']" "[]"]
  by (auto simp: demo_evm_def demo_addr_inject demo_word_inject demo_seq_inject)

theorem user_op_hash_binds_witness:
  "let op = \<lparr>sender = 7, op_nonce = 3, init_code = [1], call_data = [2, 2], verification_gas_limit = 100000,
      call_gas_limit = 140000, pre_verification_gas = 120000, max_priority_fee_per_gas = 1, max_fee_per_gas = 2,
      paymaster_and_data = []\<rparr>
   in op = op \<and> (5 :: EvmAddress) = 5 \<and> (1 :: u64) = 1 \<or> (\<exists>x y. x \<noteq> y \<and> keccak256 demo_evm x = keccak256 demo_evm y)"
  unfolding Let_def
  by (rule user_op_hash_binds [OF iffD1 [OF demo_hash_inject(1)] iffD1 [OF demo_hash_inject(2)] refl]) 

section \<open>A federation of one guardian\<close>

definition demo_usdt :: Usdt where
  "demo_usdt =
     \<lparr>usdt_cfg = \<lparr>group_public_key = [4], mpc_encryption_pks = [], cfg_threshold = 1, usdt_contract = 8, chain_id = 1,
        confirmation_depth = 12, entry_point = 5, account_factory = 6, simple_account_impl = 7,
        broadcaster_min_balance_wei = 0, eth_usd_price_feed = 0, price_feed_max_staleness_secs = 0,
        residual_recovery_recipient = 9\<rparr>,
      usdt_num_peers = 1, usdt_our_peer_id = 0, running_in_test_env = False\<rparr>"

lemma demo_accounts:
  "pool_account demo_evm demo_usdt = 21" "deposit_account demo_evm demo_usdt pk = of_nat (24 + length pk)"
  by (simp_all add: pool_account_def deposit_account_def derive_pool_account_def derive_deposit_account_def
      create2_simple_account_def pool_salt_def deposit_salt_def demo_evm_def demo_usdt_def
      POOL_ACCOUNT_DOMAIN_def DEPOSIT_ADDRESS_DOMAIN_def)

lemma demo_threshold: "usdt_threshold demo_evm demo_usdt = 1"
  by (simp add: usdt_threshold_def demo_evm_def demo_usdt_def)

end
