(* ===== verification/Usdt_Scan.thy ===== *)
theory Usdt_Scan
  imports Usdt_Demo
begin

text \<open>
  The deposit scanner of a guardian, from \<open>modules/usdt/fedimint-usdt-server/src/scan.rs\<close> and
  \<open>lib.rs\<close>: planning the next range of blocks, filtering the transfers found there, and the log of
  candidates it serves to clients in pages. The node behind the RPC is the argument
  \<open>get_transfer_logs\<close>; \<open>None\<close> stands for a failed call. A failed \<open>debug_assert!\<close> is \<open>Panic\<close>.
\<close>

section \<open>The log of candidates\<close>

record TransferCandidate =
  tc_block_number :: u64
  tc_to :: EvmAddress
  tc_value :: u64

record TransferLog =
  tl_block_number :: u64
  tl_to :: EvmAddress
  tl_value :: u128

record CandidateLog =
  entries :: "TransferCandidate list"
  scanned_to :: u64

definition CandidateLog_default :: CandidateLog where
  "CandidateLog_default = \<lparr>entries = [], scanned_to = 0\<rparr>"

definition CANDIDATE_RETENTION_BLOCKS :: u64 where
  "CANDIDATE_RETENTION_BLOCKS = 50400"

definition MAX_CANDIDATE_ENTRIES :: nat where
  "MAX_CANDIDATE_ENTRIES = 4096"

definition MAX_TRANSFER_CANDIDATES_PER_RESPONSE :: nat where
  "MAX_TRANSFER_CANDIDATES_PER_RESPONSE = 512"

text \<open>The two loops that pop the oldest entries.\<close>

definition prune_retention :: "u64 \<Rightarrow> TransferCandidate list \<Rightarrow> TransferCandidate list" where
  "prune_retention floor = dropWhile (\<lambda>c. tc_block_number c < floor)"

definition prune_cap :: "'a list \<Rightarrow> 'a list" where
  "prune_cap es = drop (length es - MAX_CANDIDATE_ENTRIES) es"

definition record_scan :: "CandidateLog \<Rightarrow> u64 \<Rightarrow> TransferCandidate list \<Rightarrow> (CandidateLog, 'e) result" where
  "record_scan log up_to found =
     (if \<not> up_to \<ge> scanned_to log then Panic
      else
        let mark = max (scanned_to log) up_to;
            floor = saturating_sub mark CANDIDATE_RETENTION_BLOCKS
        in Ok \<lparr>entries = prune_cap (prune_retention floor (entries log @ found)), scanned_to = mark\<rparr>)"

definition since :: "CandidateLog \<Rightarrow> u64 \<Rightarrow> nat \<Rightarrow> TransferCandidate list \<times> u64" where
  "since log since_block limit =
     (let matching = filter (\<lambda>c. tc_block_number c > since_block) (entries log)
      in (take limit matching,
          case drop limit matching of
            first_omitted # _ \<Rightarrow> min (scanned_to log) (saturating_sub (tc_block_number first_omitted) 1)
          | [] \<Rightarrow> scanned_to log))"

definition filter_scan_candidates :: "evm_platform \<Rightarrow> TransferLog list \<Rightarrow> PublicKey \<Rightarrow> TransferCandidate list" where
  "filter_scan_candidates P logs gpk =
     map (\<lambda>l. \<lparr>tc_block_number = tl_block_number l, tc_to = tl_to l,
               tc_value = (case try_into (tl_value l) of Some v \<Rightarrow> v | None \<Rightarrow> - 1)\<rparr>)
       (filter (\<lambda>l. tl_value l > 0 \<and> is_potential_deposit P gpk (tl_to l)) logs)"

text \<open>The endpoint \<open>transfer_candidates\<close>.\<close>

definition transfer_candidates_endpoint :: "CandidateLog \<Rightarrow> u64 \<Rightarrow> TransferCandidate list \<times> u64" where
  "transfer_candidates_endpoint log since_block = since log since_block MAX_TRANSFER_CANDIDATES_PER_RESPONSE"

section \<open>Planning a scan\<close>

definition SCAN_GRID_BLOCKS :: u64 where
  "SCAN_GRID_BLOCKS = 5"

definition scan_grid_blocks :: "Usdt \<Rightarrow> u64" where
  "scan_grid_blocks u = (if running_in_test_env u then 1 else SCAN_GRID_BLOCKS)"

definition align_down_to_grid :: "u64 \<Rightarrow> u64 \<Rightarrow> u64" where
  "align_down_to_grid value grid = (if grid \<le> 1 then value else value - value mod grid)"

definition effective_grid :: "u64 \<Rightarrow> u64 \<Rightarrow> u64" where
  "effective_grid scan_batch_blocks grid = max (min grid (max scan_batch_blocks 1)) 1"

text \<open>The block after which the next scan starts.\<close>

definition scan_floor :: "u64 \<Rightarrow> u64 \<Rightarrow> u64 \<Rightarrow> u64" where
  "scan_floor cursor target grid =
     (if cursor = 0
      then align_down_to_grid (saturating_sub (max (saturating_sub target CANDIDATE_RETENTION_BLOCKS) 1) 1) grid
      else cursor)"

text \<open>Durations are in seconds.\<close>

definition plan_scan_range :: "u64 \<Rightarrow> u64 \<Rightarrow> u64 \<Rightarrow> u64 \<Rightarrow> nat \<Rightarrow> nat \<Rightarrow> (u64 \<times> u64) option" where
  "plan_scan_range cursor target scan_batch_blocks grid since_last_scan max_lag =
     (if target = 0 then None
      else
        let batch = max scan_batch_blocks 1;
            grid = effective_grid scan_batch_blocks grid;
            floor = scan_floor cursor target grid;
            pending = saturating_sub target floor
        in if pending = 0 then None
           else if pending < batch \<and> since_last_scan < max_lag then None
           else
             let to = align_down_to_grid (min target (saturating_add floor batch)) grid
             in if to \<le> floor then None else Some (saturating_add floor 1, to))"

datatype ScanOutcome = Scanned bool | Idle

record scan_config =
  sc_contract :: EvmAddress
  sc_group_public_key :: PublicKey
  sc_batch_blocks :: u64
  sc_max_lag :: nat

definition scan_step ::
  "evm_platform \<Rightarrow> Usdt \<Rightarrow> (EvmAddress \<Rightarrow> u64 \<Rightarrow> u64 \<Rightarrow> TransferLog list option) \<Rightarrow> scan_config \<Rightarrow>
    CandidateLog \<Rightarrow> u64 \<Rightarrow> nat \<Rightarrow> (CandidateLog \<times> ScanOutcome, 'e) result" where
  "scan_step P u get_transfer_logs c log target since_last_scan =
     (case plan_scan_range (scanned_to log) target (sc_batch_blocks c) (scan_grid_blocks u) since_last_scan (sc_max_lag c) of
        None \<Rightarrow> Ok (log, Idle)
      | Some (from_block, to_block) \<Rightarrow>
          (case get_transfer_logs (sc_contract c) from_block to_block of
             None \<Rightarrow> Ok (log, Idle)
           | Some logs \<Rightarrow>
               let found = filter_scan_candidates P logs (sc_group_public_key c) in
               if \<not> sorted (map tc_block_number found) then Panic
               else and_then (record_scan log to_block found) (\<lambda>log'.
                 Ok (log', Scanned (saturating_sub target to_block \<ge> max (sc_batch_blocks c) 1)))))"

section \<open>Pages are honest\<close>

abbreviation blocks_sorted :: "TransferCandidate list \<Rightarrow> bool" where
  "blocks_sorted es \<equiv> sorted (map tc_block_number es)"

lemma since_complete:
  assumes "blocks_sorted (entries log)" and "c \<in> set (entries log)"
    and "s < tc_block_number c" and "tc_block_number c \<le> snd (since log s limit)"
  shows "c \<in> set (fst (since log s limit))"
proof -
  let ?m = "filter (\<lambda>c. tc_block_number c > s) (entries log)"
  have sorted: "blocks_sorted (take limit ?m @ drop limit ?m)" using sorted_filter [OF assms(1)] by simp
  have c: "c \<in> set (take limit ?m) \<or> c \<in> set (drop limit ?m)"
    using assms(2,3) set_append [of "take limit ?m" "drop limit ?m"] by (auto simp del: set_append)
  show ?thesis
  proof (cases "drop limit ?m")
    case Nil
    then show ?thesis using c by (simp add: since_def Let_def)
  next
    case (Cons f rest)
    have "f \<in> set ?m" using Cons by (metis in_set_dropD list.set_intros(1))
    then have "s < tc_block_number f" by simp
    moreover have "tc_block_number f \<le> tc_block_number c" if "c \<in> set (drop limit ?m)"
      using sorted that unfolding Cons by (auto simp: sorted_append)
    ultimately have "c \<notin> set (drop limit ?m)"
      using assms(4) Cons by (auto simp: since_def Let_def word_order)
    then show ?thesis using c by (simp add: since_def Let_def)
  qed
qed

section \<open>What the log holds\<close>

text \<open>
  The newest entries of a list ordered by block: pruning by age and pruning by number each keep a suffix,
  so doing it batch by batch keeps what doing it once at the end would keep.
\<close>

lemma dropWhile_sorted:
  assumes "blocks_sorted es"
  shows "prune_retention floor es = filter (\<lambda>c. floor \<le> tc_block_number c) es"
  using assms
proof (induction es)
  case (Cons e es)
  show ?case
  proof (cases "tc_block_number e < floor")
    case True
    then show ?thesis using Cons by (simp add: prune_retention_def)
  next
    case False
    then have "floor \<le> tc_block_number c" if "c \<in> set (e # es)" for c using Cons.prems that by force
    then have "filter (\<lambda>c. floor \<le> tc_block_number c) (e # es) = e # es" unfolding filter_id_conv by blast
    then show ?thesis using False by (simp only: prune_retention_def dropWhile.simps if_False)
  qed
qed (simp add: prune_retention_def)

lemma prune_sorted: "blocks_sorted es \<Longrightarrow> blocks_sorted (prune_cap (prune_retention floor es))"
  by (simp add: dropWhile_sorted prune_cap_def drop_map [symmetric] sorted_filter)

lemma prune_again:
  assumes "blocks_sorted (xs @ ys)"
  shows "prune_cap (prune_retention floor (prune_cap xs @ ys)) = prune_cap (prune_retention floor (xs @ ys))"
proof -
  let ?k = "length xs - MAX_CANDIDATE_ENTRIES"
  let ?p = "\<lambda>c. floor \<le> tc_block_number c"
  have xs: "xs @ ys = take ?k xs @ (drop ?k xs @ ys)" by (metis append.assoc append_take_drop_id)
  have s: "blocks_sorted (take ?k xs @ (drop ?k xs @ ys))" using assms unfolding xs [symmetric] .
  have s': "blocks_sorted (drop ?k xs @ ys)" using s by (simp add: sorted_append)
  show ?thesis
  proof (cases "\<exists>c\<in>set (take ?k xs). ?p c")
    case False
    then have "filter ?p (xs @ ys) = filter ?p (drop ?k xs @ ys)" by (subst xs) (simp add: filter_empty_conv)
    then show ?thesis using dropWhile_sorted [OF assms, of floor] dropWhile_sorted [OF s', of floor] by (simp add: prune_cap_def)
  next
    case True
    then obtain c where c: "c \<in> set (take ?k xs)" "?p c" by blast
    have late: "?p d" if "d \<in> set (drop ?k xs @ ys)" for d
    proof -
      have "tc_block_number c \<le> tc_block_number d" using s c that unfolding map_append sorted_append by auto
      then show ?thesis using c(2) by (rule order_trans [rotated])
    qed
    then have f: "filter ?p (drop ?k xs @ ys) = drop ?k xs @ ys" by (simp add: filter_id_conv)
    have len: "length (drop ?k xs) = MAX_CANDIDATE_ENTRIES" using c(1) by (cases "?k = 0") auto
    have "filter ?p (xs @ ys) = filter ?p (take ?k xs) @ (drop ?k xs @ ys)"
      using arg_cong [OF xs, of "filter ?p"] f by (simp only: filter_append [of ?p "take ?k xs" "drop ?k xs @ ys"])
    then show ?thesis
      using dropWhile_sorted [OF assms, of floor] dropWhile_sorted [OF s', of floor] f len by (simp add: prune_cap_def)
  qed
qed

lemma prune_twice:
  assumes "blocks_sorted (xs @ ys)" and "f \<le> floor"
  shows "prune_cap (prune_retention floor (prune_cap (prune_retention f xs) @ ys)) = prune_cap (prune_retention floor (xs @ ys))"
proof -
  have xs: "blocks_sorted xs" using assms(1) by (simp add: sorted_append)
  have s: "blocks_sorted (prune_retention f xs @ ys)"
    using assms(1) by (auto simp: dropWhile_sorted [OF xs] sorted_append sorted_filter)
  have "filter (\<lambda>c. floor \<le> tc_block_number c) (prune_retention f xs) = filter (\<lambda>c. floor \<le> tc_block_number c) xs"
    unfolding dropWhile_sorted [OF xs] filter_filter by (rule filter_cong) (use assms(2) in auto)
  then have "prune_retention floor (prune_retention f xs @ ys) = prune_retention floor (xs @ ys)"
    unfolding dropWhile_sorted [OF s] dropWhile_sorted [OF assms(1)] by simp
  then show ?thesis using prune_again [OF s, of floor] by simp
qed

section \<open>Scanning the chain\<close>

text \<open>
  A node that answers a query for one token, answers with the transfers of that token in the range, oldest
  first; the blocks asked for are confirmed and do not change. Nothing is said of other tokens.
\<close>

definition reads_chain :: "(EvmAddress \<Rightarrow> u64 \<Rightarrow> u64 \<Rightarrow> TransferLog list option) \<Rightarrow> EvmAddress \<Rightarrow> TransferLog list \<Rightarrow> bool" where
  "reads_chain get_transfer_logs token chain \<longleftrightarrow> sorted (map tl_block_number chain) \<and>
     (\<forall>a b logs. get_transfer_logs token a b = Some logs \<longrightarrow>
        logs = filter (\<lambda>l. a \<le> tl_block_number l \<and> tl_block_number l \<le> b) chain)"

text \<open>The candidates among the transfers of the chain after one block and up to another.\<close>

definition chain_candidates :: "evm_platform \<Rightarrow> PublicKey \<Rightarrow> TransferLog list \<Rightarrow> u64 \<Rightarrow> u64 \<Rightarrow> TransferCandidate list" where
  "chain_candidates P gpk chain a b =
     filter_scan_candidates P (filter (\<lambda>l. a < tl_block_number l \<and> tl_block_number l \<le> b) chain) gpk"

lemma chain_candidates_sorted: "sorted (map tl_block_number chain) \<Longrightarrow> blocks_sorted (chain_candidates P gpk chain a b)"
  by (simp add: chain_candidates_def filter_scan_candidates_def comp_def sorted_filter)

lemma filter_split_range:
  fixes a b c :: u64
  assumes "sorted (map f xs)" and "a \<le> b" and "b \<le> c"
  shows "filter (\<lambda>x. a < f x \<and> f x \<le> c) xs = filter (\<lambda>x. a < f x \<and> f x \<le> b) xs @ filter (\<lambda>x. b < f x \<and> f x \<le> c) xs"
  using assms(1)
proof (induction xs)
  case (Cons x xs)
  have ge: "f x \<le> f y" if "y \<in> set xs" for y using Cons.prems that by simp
  show ?case
  proof (cases "b < f x")
    case True
    then have "filter (\<lambda>x. a < f x \<and> f x \<le> b) xs = []" unfolding filter_empty_conv using ge by force
    then show ?thesis using Cons True assms(2) by auto
  next
    case False
    then show ?thesis using Cons assms(2,3) by auto
  qed
qed simp

lemma chain_candidates_append:
  assumes "sorted (map tl_block_number chain)" and "a \<le> b" and "b \<le> c"
  shows "chain_candidates P gpk chain a c = chain_candidates P gpk chain a b @ chain_candidates P gpk chain b c"
  by (simp add: chain_candidates_def filter_split_range [OF assms] filter_scan_candidates_def)

lemma plan_scan_range_Some:
  assumes "plan_scan_range cursor target batch grid d lag = Some (from_block, to_block)"
  shows "unat from_block = unat (scan_floor cursor target (effective_grid batch grid)) + 1"
    and "scan_floor cursor target (effective_grid batch grid) < to_block" and "to_block \<le> target"
proof -
  let ?g = "effective_grid batch grid"
  let ?f = "scan_floor cursor target ?g"
  have p: "to_block = align_down_to_grid (min target (saturating_add ?f (max batch 1))) ?g" "\<not> to_block \<le> ?f"
    "from_block = saturating_add ?f 1"
    using assms by (auto simp: plan_scan_range_def Let_def split: if_splits)
  have "align_down_to_grid v g \<le> v" for v g
    by (simp add: align_down_to_grid_def word_order unat_sub_if' unat_mod)
  from this [of "min target (saturating_add ?f (max batch 1))" ?g] show le: "to_block \<le> target"
    unfolding p(1) by (simp add: min_le_iff_disj)
  show lt: "?f < to_block" using p(2) by simp
  have "unat ?f < unat to_block" using lt by (simp add: word_order)
  then have "unat ?f + 1 < 2 ^ 64" using unat_bound [of to_block] by simp
  then show "unat from_block = unat ?f + 1" unfolding p(3) using sat_add_exact [of ?f 1] by simp
qed

text \<open>
  The scanner over time. The second component of the state is the block after which the scan of this
  process began; a log that has scanned nothing has no such block yet.
\<close>

inductive scan_reach ::
  "evm_platform \<Rightarrow> Usdt \<Rightarrow> (EvmAddress \<Rightarrow> u64 \<Rightarrow> u64 \<Rightarrow> TransferLog list option) \<Rightarrow> scan_config \<Rightarrow> u64 \<Rightarrow> CandidateLog \<Rightarrow> bool"
  for P u get_transfer_logs c where
  scan_empty: "scan_reach P u get_transfer_logs c start CandidateLog_default"
| scan_first: "scan_reach P u get_transfer_logs c start' log \<Longrightarrow> scanned_to log = 0 \<Longrightarrow>
    scan_step P u get_transfer_logs c log target d = (Ok (log', out) :: (CandidateLog \<times> ScanOutcome, unit) result) \<Longrightarrow>
    start = scan_floor 0 target (effective_grid (sc_batch_blocks c) (scan_grid_blocks u)) \<Longrightarrow>
    scan_reach P u get_transfer_logs c start log'"
| scan_next: "scan_reach P u get_transfer_logs c start log \<Longrightarrow> scanned_to log \<noteq> 0 \<Longrightarrow>
    scan_step P u get_transfer_logs c log target d = (Ok (log', out) :: (CandidateLog \<times> ScanOutcome, unit) result) \<Longrightarrow>
    scan_reach P u get_transfer_logs c start log'"

definition scan_holds :: "evm_platform \<Rightarrow> PublicKey \<Rightarrow> TransferLog list \<Rightarrow> u64 \<Rightarrow> CandidateLog \<Rightarrow> bool" where
  "scan_holds P gpk chain start log \<longleftrightarrow>
     (if scanned_to log = 0 then entries log = []
      else start \<le> scanned_to log \<and>
        entries log = prune_cap (prune_retention (saturating_sub (scanned_to log) CANDIDATE_RETENTION_BLOCKS)
          (chain_candidates P gpk chain start (scanned_to log))))"

lemma scan_step_cases:
  assumes "scan_step P u get_transfer_logs c log target d = (Ok (log', out) :: (CandidateLog \<times> ScanOutcome, 'e) result)" and chain: "reads_chain get_transfer_logs (sc_contract c) chain"
  obtains "log' = log" | from_block to_block where
    "plan_scan_range (scanned_to log) target (sc_batch_blocks c) (scan_grid_blocks u) d (sc_max_lag c) = Some (from_block, to_block)"
    "record_scan log to_block (chain_candidates P (sc_group_public_key c) chain
       (scan_floor (scanned_to log) target (effective_grid (sc_batch_blocks c) (scan_grid_blocks u))) to_block) =
       (Ok log' :: (CandidateLog, 'e) result)"
proof (cases "plan_scan_range (scanned_to log) target (sc_batch_blocks c) (scan_grid_blocks u) d (sc_max_lag c)")
  case None
  then show ?thesis using assms(1) that(1) by (simp add: scan_step_def)
next
  case (Some r)
  obtain f t where r: "r = (f, t)" by (cases r)
  let ?fl = "scan_floor (scanned_to log) target (effective_grid (sc_batch_blocks c) (scan_grid_blocks u))"
  show ?thesis
  proof (cases "get_transfer_logs (sc_contract c) f t")
    case None
    then show ?thesis using assms(1) that(1) Some r by (simp add: scan_step_def)
  next
    case (Some logs)
    have f: "f \<le> x \<longleftrightarrow> ?fl < x" for x
      using plan_scan_range_Some(1) [OF \<open>plan_scan_range _ _ _ _ _ _ = Some r\<close> [unfolded r]] by (simp add: word_order Suc_le_eq)
    have logs: "logs = filter (\<lambda>l. ?fl < tl_block_number l \<and> tl_block_number l \<le> t) chain"
      using chain Some unfolding reads_chain_def f [symmetric] by blast
    show ?thesis
      using assms(1) that(2) [of f t] Some \<open>plan_scan_range _ _ _ _ _ _ = Some r\<close> r
      by (auto simp: scan_step_def Let_def and_then_eq_Ok logs chain_candidates_def split: if_splits)
  qed
qed

lemma record_scan_holds:
  assumes holds: "scan_holds P gpk chain start log" and "sorted (map tl_block_number chain)" and start: "scanned_to log = 0 \<or> start \<le> scanned_to log"
    and ok: "record_scan log to_block (chain_candidates P gpk chain (if scanned_to log = 0 then start else scanned_to log) to_block) =
      (Ok log' :: (CandidateLog, 'e) result)"
    and to_block: "0 < to_block" "start \<le> to_block"
  shows "scan_holds P gpk chain start log'"
proof -
  let ?keep = "\<lambda>m. saturating_sub m CANDIDATE_RETENTION_BLOCKS"
  have up: "scanned_to log \<le> to_block" using ok unfolding record_scan_def by (rule contrapos_pp) (simp only: if_True not_False_eq_True, simp)
  have m: "max (scanned_to log) to_block = to_block" using up by (rule max_absorb2)
  have log': "log' = \<lparr>entries = prune_cap (prune_retention (?keep to_block) (entries log @
      chain_candidates P gpk chain (if scanned_to log = 0 then start else scanned_to log) to_block)), scanned_to = to_block\<rparr>"
    using ok unfolding record_scan_def Let_def m not_not if_not_P [of "\<not> scanned_to log \<le> to_block", unfolded not_not, OF up]
      result.inject by (rule sym)
  have "entries log' = prune_cap (prune_retention (?keep to_block) (chain_candidates P gpk chain start to_block))"
  proof (cases "scanned_to log = 0")
    case True
    then have "entries log = []" using holds unfolding scan_holds_def by (simp only: if_True)
    then show ?thesis using True unfolding log' by (simp only: if_True append_Nil CandidateLog.select_convs refl)
  next
    case False
    have h: "start \<le> scanned_to log \<and>
        entries log = prune_cap (prune_retention (?keep (scanned_to log)) (chain_candidates P gpk chain start (scanned_to log)))"
      using holds False unfolding scan_holds_def by (simp only: if_False)
    note e = conjunct2 [OF h] and app = chain_candidates_append [OF assms(2) conjunct1 [OF h] up, of P gpk]
    have "?keep (scanned_to log) \<le> ?keep to_block" using up by (simp add: word_order)
    from prune_twice [OF _ this, of "chain_candidates P gpk chain start (scanned_to log)" "chain_candidates P gpk chain (scanned_to log) to_block"]
      chain_candidates_sorted [OF assms(2), of P gpk start to_block]
    show ?thesis using False unfolding log' app by (simp only: if_False CandidateLog.select_convs e)
  qed
  moreover have "scanned_to log' = to_block" by (simp add: log')
  moreover have "to_block \<noteq> 0" using to_block(1) by auto
  ultimately show ?thesis using to_block(2) unfolding scan_holds_def by (simp only: if_False)
qed

lemma scan_reach_holds:
  assumes "scan_reach P u get_transfer_logs c start log" and chain: "reads_chain get_transfer_logs (sc_contract c) chain"
  shows "scan_holds P (sc_group_public_key c) chain start log"
  using assms(1)
proof (induction rule: scan_reach.induct)
  case (scan_empty start)
  then show ?case by (simp add: scan_holds_def CandidateLog_default_def)
next
  case (scan_first start' log target d log' out start)
  have h: "scan_holds P (sc_group_public_key c) chain start log" using scan_first.IH scan_first.hyps(2) by (simp add: scan_holds_def)
  from scan_first.hyps(3) chain show ?case
  proof (cases rule: scan_step_cases)
    case (2 f t)
    have fl: "scan_floor (scanned_to log) target (effective_grid (sc_batch_blocks c) (scan_grid_blocks u)) = start"
      using scan_first.hyps(2,4) by simp
    have lt: "start < t" using plan_scan_range_Some(2) [OF 2(1)] by (simp only: fl)
    show ?thesis
      by (rule record_scan_holds [OF h _ _ _ _ _, where to_block = t and 'e = unit])
        (use 2(2) [unfolded fl] chain lt le_less_trans [OF word_zero_le lt] scan_first.hyps(2) in \<open>simp_all add: reads_chain_def\<close>)
  qed (use h in simp)
next
  case (scan_next start log target d log' out)
  have le: "start \<le> scanned_to log" using scan_next.IH scan_next.hyps(2) by (simp add: scan_holds_def)
  from scan_next.hyps(3) chain show ?case
  proof (cases rule: scan_step_cases)
    case (2 f t)
    have fl: "scan_floor (scanned_to log) target g = scanned_to log" for g using scan_next.hyps(2) by (simp add: scan_floor_def)
    have lt: "scanned_to log < t" using plan_scan_range_Some(2) [OF 2(1)] by (simp add: fl)
    show ?thesis
      by (rule record_scan_holds [OF scan_next.IH _ _ _ _ _, where to_block = t and 'e = unit])
        (use 2(2) [unfolded fl] chain le lt le_less_trans [OF word_zero_le lt] scan_next.hyps(2) in \<open>simp_all add: reads_chain_def\<close>)
  qed (use scan_next.IH in simp)
qed

lemma scan_step_total:
  assumes "scan_reach P u get_transfer_logs c start log" and chain: "reads_chain get_transfer_logs (sc_contract c) chain"
  shows "\<exists>log' out. scan_step P u get_transfer_logs c log target d = (Ok (log', out) :: (CandidateLog \<times> ScanOutcome, 'e) result)"
proof (cases "plan_scan_range (scanned_to log) target (sc_batch_blocks c) (scan_grid_blocks u) d (sc_max_lag c)")
  case (Some r)
  obtain f t where r: "r = (f, t)" by (cases r)
  have fl: "scanned_to log \<le> scan_floor (scanned_to log) target g" for g by (simp add: scan_floor_def)
  have t: "\<not> t < scanned_to log"
    using plan_scan_range_Some(2) [OF Some [unfolded r]] fl [of "effective_grid (sc_batch_blocks c) (scan_grid_blocks u)"] by (simp add: not_less)
  have "blocks_sorted (filter_scan_candidates P logs (sc_group_public_key c))"
    if "get_transfer_logs (sc_contract c) f t = Some logs" for logs
  proof -
    have "logs = filter (\<lambda>l. f \<le> tl_block_number l \<and> tl_block_number l \<le> t) chain" and s: "sorted (map tl_block_number chain)"
      using chain that unfolding reads_chain_def by blast+
    then have "sorted (map tl_block_number logs)" using sorted_filter [OF s] by (simp only:)
    then show ?thesis by (simp add: filter_scan_candidates_def comp_def sorted_filter)
  qed
  then show ?thesis
    using t Some r by (simp add: scan_step_def record_scan_def Let_def not_less split: option.split)
qed (simp add: scan_step_def)

text \<open>
  C8. What a guardian's log holds. The node is assumed to answer queries for the configured token with the
  transfers of that token. Whenever and however often the scanner ran, a log that has scanned something is
  exactly the newest 4096 among the candidate transfers of the token in the blocks it has scanned that are
  not older than the retention window, in the order of the chain; no range is skipped and none is read
  twice, and a step never panics: the debug assertions of the source hold.
\<close>

theorem scan_log_exact:
  assumes "scan_reach P u get_transfer_logs c start log" and "reads_chain get_transfer_logs (sc_contract c) chain" and "scanned_to log \<noteq> 0"
  shows "entries log = prune_cap (filter (\<lambda>e. saturating_sub (scanned_to log) CANDIDATE_RETENTION_BLOCKS \<le> tc_block_number e)
      (chain_candidates P (sc_group_public_key c) chain start (scanned_to log))) \<and>
    (\<forall>target d. scan_step P u get_transfer_logs c log target d \<noteq> (Panic :: (CandidateLog \<times> ScanOutcome, unit) result))"
proof -
  have "sorted (map tl_block_number chain)" using assms(2) by (simp add: reads_chain_def)
  note s = dropWhile_sorted [OF chain_candidates_sorted [OF this, of P "sc_group_public_key c" start "scanned_to log"]]
  have "scan_step P u get_transfer_logs c log target d \<noteq> (Panic :: (CandidateLog \<times> ScanOutcome, unit) result)" for target d
    using scan_step_total [OF assms(1,2), of target d] by (metis result.distinct(3))
  moreover have "entries log = prune_cap (prune_retention (saturating_sub (scanned_to log) CANDIDATE_RETENTION_BLOCKS)
      (chain_candidates P (sc_group_public_key c) chain start (scanned_to log)))"
    using scan_reach_holds [OF assms(1,2)] assms(3) unfolding scan_holds_def by (simp only: if_False)
  ultimately show ?thesis unfolding s by blast
qed

section \<open>A scan\<close>

text \<open>A platform under whose hash every address is a potential deposit, and a chain of two transfers.\<close>

definition scan_evm :: evm_platform where
  "scan_evm = demo_evm\<lparr>keccak256 := (\<lambda>_. [0, 0])\<rparr>"

definition demo_chain :: "TransferLog list" where
  "demo_chain = [\<lparr>tl_block_number = 100, tl_to = 25, tl_value = 10000000\<rparr>, \<lparr>tl_block_number = 120, tl_to = 31, tl_value = 5\<rparr>]"

definition demo_node :: "EvmAddress \<Rightarrow> u64 \<Rightarrow> u64 \<Rightarrow> TransferLog list option" where
  "demo_node token a b = Some (if token = 8 then filter (\<lambda>l. a \<le> tl_block_number l \<and> tl_block_number l \<le> b) demo_chain else [])"

definition demo_scan :: scan_config where
  "demo_scan = \<lparr>sc_contract = 8, sc_group_public_key = [4], sc_batch_blocks = 1000, sc_max_lag = 60\<rparr>"

definition demo_log :: CandidateLog where
  "demo_log = \<lparr>entries = [\<lparr>tc_block_number = 100, tc_to = 25, tc_value = 10000000\<rparr>, \<lparr>tc_block_number = 120, tc_to = 31, tc_value = 5\<rparr>],
     scanned_to = 200\<rparr>"

lemma demo_node_reads: "reads_chain demo_node (sc_contract demo_scan) demo_chain"
  by (simp add: reads_chain_def demo_node_def demo_chain_def demo_scan_def)

lemma demo_potential: "is_potential_deposit scan_evm gpk a"
  by (simp add: is_potential_deposit_def scan_evm_def has_leading_zero_bits_def DEPOSIT_SCAN_TAG_BITS_def)

lemma demo_scan_step:
  "scan_step scan_evm demo_usdt demo_node demo_scan CandidateLog_default 200 60 = (Ok (demo_log, Scanned False) :: (CandidateLog \<times> ScanOutcome, unit) result)"
proof -
  have "plan_scan_range 0 200 1000 5 60 60 = Some (1, 200)"
    by (simp add: plan_scan_range_def effective_grid_def scan_floor_def align_down_to_grid_def CANDIDATE_RETENTION_BLOCKS_def eval_ops Let_def)
  moreover have "scan_grid_blocks demo_usdt = 5" by (simp add: scan_grid_blocks_def demo_usdt_def SCAN_GRID_BLOCKS_def)
  ultimately show ?thesis
    by (simp add: scan_step_def demo_scan_def CandidateLog_default_def demo_node_def demo_chain_def filter_scan_candidates_def demo_potential
        record_scan_def prune_retention_def prune_cap_def MAX_CANDIDATE_ENTRIES_def CANDIDATE_RETENTION_BLOCKS_def demo_log_def eval_ops Let_def)
qed

lemma demo_log_reach: "scan_reach scan_evm demo_usdt demo_node demo_scan 0 demo_log"
  by (rule scan_first [OF scan_empty _ demo_scan_step])
    (simp_all add: CandidateLog_default_def scan_floor_def effective_grid_def align_down_to_grid_def demo_scan_def scan_grid_blocks_def
      demo_usdt_def SCAN_GRID_BLOCKS_def CANDIDATE_RETENTION_BLOCKS_def eval_ops)

theorem scan_log_exact_witness:
  "scan_reach scan_evm demo_usdt demo_node demo_scan 0 demo_log \<and> reads_chain demo_node (sc_contract demo_scan) demo_chain \<and> scanned_to demo_log \<noteq> 0 \<and>
   entries demo_log = prune_cap (filter (\<lambda>e. saturating_sub (scanned_to demo_log) CANDIDATE_RETENTION_BLOCKS \<le> tc_block_number e)
      (chain_candidates scan_evm (sc_group_public_key demo_scan) demo_chain 0 (scanned_to demo_log)))"
proof -
  have "scanned_to demo_log \<noteq> 0" by (simp add: demo_log_def)
  with scan_log_exact [OF demo_log_reach demo_node_reads this] demo_log_reach demo_node_reads show ?thesis by blast
qed

end
