(* ===== verification/Usdt_Client.thy ===== *)
theory Usdt_Client
  imports Usdt_Scan
begin

text \<open>
  The USDT client module, from \<open>modules/usdt/fedimint-usdt-client/src/lib.rs\<close>, \<open>states.rs\<close> and
  \<open>db.rs\<close>: its database, the derivation of claim and refund keys, allocating a deposit address,
  discovering and claiming deposits, recovery from the seed, withdrawing, and the state machine that
  collects refunds. The keys of the seed, the guardians' answers and the EVM node are arguments; the
  transaction a method submits is part of its result.
\<close>

section \<open>Keys, database and configuration\<close>

text \<open>
  Key pairs belong to secp256k1: the child keys of the module secret, the public key, and the key pair
  moved by a scan tweak, \<open>None\<close> when the sum is not a valid secret key.
\<close>

record 'k key_platform =
  claim_keypair :: "u64 \<Rightarrow> 'k"
  refund_keypair :: "u64 \<Rightarrow> 'k"
  public_key :: "'k \<Rightarrow> PublicKey"
  add_tweak :: "'k \<Rightarrow> u64 \<Rightarrow> 'k option"

record 'k usdt_client_db =
  claim_keys :: "(EvmAddress, 'k) table"
  next_deposit_index :: "u64 option"
  refund_keys :: "(OutPoint, 'k) table"
  next_refund_index :: "u64 option"
  evm_rpc_url :: "string option"
  scan_cursor :: "u64 option"

record UsdtClientConfig =
  cc_group_public_key :: PublicKey
  cc_network :: string
  cc_usdt_contract :: EvmAddress
  cc_chain_id :: u64
  cc_confirmation_depth :: u64
  cc_entry_point :: EvmAddress
  cc_account_factory :: EvmAddress
  cc_simple_account_impl :: EvmAddress

datatype UsdtClientError =
    ApiFailed
  | RpcFailed
  | NotReadyForDeposits BootstrapState
  | FeeQuoteUnavailable
  | FeeAboveCap u64 u64
  | FeeAboveSanity u128
  | NothingNewToCredit EvmAddress u64 u64
  | DeltaBelowFee u64 u64
  | NothingAnchored
  | NoClaimKey EvmAddress
  | ScanTweak ScanError
  | ClaimKeyTweak
  | NoScanTweak
  | LegacyFallbackFailed
  | SubmitFailed
  | WithdrawalRejected
  | WithdrawalFailed string
  | DeadlinePassed

definition deposit_address :: "evm_platform \<Rightarrow> UsdtClientConfig \<Rightarrow> PublicKey \<Rightarrow> EvmAddress" where
  "deposit_address P cfg claim_pk =
     derive_deposit_account P (cc_group_public_key cfg) (cc_account_factory cfg) (cc_simple_account_impl cfg) claim_pk"

section \<open>Discoverable claim keys\<close>

definition SCAN_GRIND_CHUNK :: u64 where
  "SCAN_GRIND_CHUNK = 256"

text \<open>
  The key pair of a tweak. The source also asserts, in debug builds only, that its public key is the one
  the scan found; the model is of the release build, which goes on without the check.
\<close>

definition ground_key :: "'k key_platform \<Rightarrow> 'k \<Rightarrow> u64 \<Rightarrow> ('k, UsdtClientError) result" where
  "ground_key K base tweak = (if tweak = 0 then Ok base else ok_or (add_tweak K base tweak) ClaimKeyTweak)"

function ground_loop ::
  "evm_platform \<Rightarrow> 'k key_platform \<Rightarrow> UsdtClientConfig \<Rightarrow> 'k \<Rightarrow> u64 \<Rightarrow> (u64 \<times> 'k \<times> EvmAddress, UsdtClientError) result" where
  "ground_loop P K cfg base start_at =
     (if start_at < MAX_SCAN_GRIND_ITERATIONS then
        let end_at = saturating_add start_at SCAN_GRIND_CHUNK in
        (case find_scan_tweak P (cc_group_public_key cfg) (cc_account_factory cfg) (cc_simple_account_impl cfg)
            (public_key K base) start_at end_at of
           Ok (Some (tweak, pk, account)) \<Rightarrow>
             and_then (ground_key K base tweak) (\<lambda>keypair. Ok (tweak, keypair, account))
         | Ok None \<Rightarrow> ground_loop P K cfg base end_at
         | Err e \<Rightarrow> Err (ScanTweak e)
         | Panic \<Rightarrow> Panic)
      else Err NoScanTweak)"
  by pat_completeness auto

lemma ground_chunk_advances:
  assumes "start_at < MAX_SCAN_GRIND_ITERATIONS"
  shows "unat (saturating_add start_at SCAN_GRIND_CHUNK) = unat start_at + 256"
proof -
  have "unat start_at < 4194304" using assms by (simp add: MAX_SCAN_GRIND_ITERATIONS_def word_order)
  then show ?thesis using sat_add_exact [of start_at SCAN_GRIND_CHUNK] by (simp add: SCAN_GRIND_CHUNK_def)
qed

termination ground_loop
  by (relation "measure (\<lambda>(P, K, cfg, base, start_at). unat MAX_SCAN_GRIND_ITERATIONS - unat start_at)")
    (auto simp: ground_chunk_advances word_order)

declare ground_loop.simps [simp del]

definition ground_claim_keypair ::
  "evm_platform \<Rightarrow> 'k key_platform \<Rightarrow> UsdtClientConfig \<Rightarrow> 'k \<Rightarrow> (u64 \<times> 'k \<times> EvmAddress, UsdtClientError) result" where
  "ground_claim_keypair P K cfg base = ground_loop P K cfg base 0"

definition allocate_refund_index :: "'k usdt_client_db \<Rightarrow> 'k usdt_client_db \<times> u64" where
  "allocate_refund_index db =
     (let index = (case next_refund_index db of None \<Rightarrow> 0 | Some i \<Rightarrow> i)
      in (db\<lparr>next_refund_index := Some (saturating_add index 1)\<rparr>, index))"

definition allocate_deposit ::
  "evm_platform \<Rightarrow> 'k key_platform \<Rightarrow> UsdtClientConfig \<Rightarrow> StatusResponse option \<Rightarrow> 'k usdt_client_db \<Rightarrow>
    'k usdt_client_db \<times> ('k \<times> EvmAddress, UsdtClientError) result" where
  "allocate_deposit P K cfg status db =
     (case status of
        None \<Rightarrow> (db, Err ApiFailed)
      | Some st \<Rightarrow>
          if st_state st \<noteq> Ready then (db, Err (NotReadyForDeposits (st_state st)))
          else
            let index = (case next_deposit_index db of None \<Rightarrow> 0 | Some i \<Rightarrow> i) in
            (case ground_claim_keypair P K cfg (claim_keypair K index) of
               Ok (_, keypair, account) \<Rightarrow>
                 (db\<lparr>next_deposit_index := Some (saturating_add index 1), claim_keys := AList.update account keypair (claim_keys db)\<rparr>,
                  Ok (keypair, account))
             | Err e \<Rightarrow> (db, Err e)
             | Panic \<Rightarrow> (db, Panic)))"

section \<open>Fees\<close>

definition FEE_SANITY_PERCENT :: u64 where
  "FEE_SANITY_PERCENT = 25"

definition ensure_fee_quote_available :: "FeeQuoteResponse \<Rightarrow> (FeeQuoteResponse, UsdtClientError) result" where
  "ensure_fee_quote_available quote = (if \<not> fq_available quote then Err FeeQuoteUnavailable else Ok quote)"

definition check_fee_cap :: "u64 \<Rightarrow> u64 \<Rightarrow> u64 option \<Rightarrow> bool \<Rightarrow> (unit, UsdtClientError) result" where
  "check_fee_cap quote_fee amount explicit_cap accept_high_fee =
     (case explicit_cap of
        Some cap \<Rightarrow> if quote_fee > cap then Err (FeeAboveCap quote_fee cap) else Ok ()
      | None \<Rightarrow>
          if accept_high_fee then Ok ()
          else
            and_then (mul_p (ucast amount :: u128) (ucast FEE_SANITY_PERCENT)) (\<lambda>product.
            let threshold = product div 100 in
            if (ucast quote_fee :: u128) > threshold
            then and_then (if amount = 0 then Ok (saturating_mul (ucast quote_fee) 100)
                   else and_then (mul_p (ucast quote_fee :: u128) 100) (\<lambda>p. Ok (p div ucast amount))) (\<lambda>pct.
                 Err (FeeAboveSanity pct))
            else Ok ()))"

section \<open>Discovering deposits\<close>

text \<open>
  A guardian may answer differently each time it is asked, so the answer depends on the number of the
  request; \<open>None\<close> is a failed request.
\<close>

type_synonym candidate_source = "nat \<Rightarrow> u64 \<Rightarrow> (TransferCandidate list \<times> u64) option"

definition safe_scan_cursor :: "u64 list \<Rightarrow> nat \<Rightarrow> u64 option" where
  "safe_scan_cursor scanned_tos max_evil =
     (let sorted = rev (sort scanned_tos) in if max_evil < length sorted then Some (sorted ! max_evil) else None)"

definition MAX_CATCHUP_PAGES :: nat where
  "MAX_CATCHUP_PAGES = 32"

text \<open>The loop of \<open>page_peer_candidates\<close> with \<open>n\<close> iterations left.\<close>

fun page_loop ::
  "nat \<Rightarrow> nat \<Rightarrow> candidate_source \<Rightarrow> u64 \<Rightarrow> TransferCandidate list \<Rightarrow> u64 \<Rightarrow> (TransferCandidate list \<times> u64) option" where
  "page_loop 0 iteration fetch peer_since candidates mark = Some (candidates, mark)"
| "page_loop (Suc n) iteration fetch peer_since candidates mark =
     (case fetch iteration peer_since of
        None \<Rightarrow> if iteration = 0 then None else Some (candidates, mark)
      | Some (page, mark') \<Rightarrow>
          let full_page = (length page = MAX_TRANSFER_CANDIDATES_PER_RESPONSE);
              made_progress = (mark' > peer_since)
          in if \<not> full_page \<or> \<not> made_progress then Some (candidates @ page, mark')
             else page_loop n (Suc iteration) fetch mark' (candidates @ page) mark')"

definition page_peer_candidates :: "u64 \<Rightarrow> candidate_source \<Rightarrow> (TransferCandidate list \<times> u64) option" where
  "page_peer_candidates since_block fetch = page_loop MAX_CATCHUP_PAGES 0 fetch since_block [] since_block"

record DiscoveredDeposit =
  dd_account :: EvmAddress
  dd_claim_pk :: PublicKey
  dd_block_number :: u64
  dd_value :: u64

record DiscoverySummary =
  ds_matches :: "DiscoveredDeposit list"
  ds_cursor :: u64
  ds_peers_answering :: nat

text \<open>The candidates not seen before, by block, recipient and value, whose recipient has a stored claim key.\<close>

fun match_candidates ::
  "'k key_platform \<Rightarrow> (EvmAddress, 'k) table \<Rightarrow> (u64 \<times> EvmAddress \<times> u64) list \<Rightarrow> TransferCandidate list \<Rightarrow> DiscoveredDeposit list" where
  "match_candidates K keys seen [] = []"
| "match_candidates K keys seen (c # cs) =
     (let key = (tc_block_number c, tc_to c, tc_value c) in
      if key \<in> set seen then match_candidates K keys seen cs
      else (case map_of keys (tc_to c) of
              None \<Rightarrow> match_candidates K keys (key # seen) cs
            | Some keypair \<Rightarrow>
                \<lparr>dd_account = tc_to c, dd_claim_pk = public_key K keypair, dd_block_number = tc_block_number c, dd_value = tc_value c\<rparr> #
                match_candidates K keys (key # seen) cs))"

text \<open>\<open>max_evil\<close> of the federation size belongs to fedimint-core.\<close>

definition discover_deposits ::
  "'k key_platform \<Rightarrow> (nat \<Rightarrow> nat) \<Rightarrow> PeerId list \<Rightarrow> (PeerId \<Rightarrow> candidate_source) \<Rightarrow> 'k usdt_client_db \<Rightarrow>
    'k usdt_client_db \<times> DiscoverySummary" where
  "discover_deposits K max_evil peers transfer_candidates db =
     (let since_block = (case scan_cursor db of None \<Rightarrow> 0 | Some c \<Rightarrow> c);
          responses = List.map_filter (\<lambda>peer. page_peer_candidates since_block (transfer_candidates peer)) peers;
          cursor = max (case safe_scan_cursor (map snd responses) (max_evil (length peers)) of None \<Rightarrow> since_block | Some c \<Rightarrow> c) since_block;
          matches = match_candidates K (claim_keys db) [] (concat (map fst responses));
          db' = (if cursor > since_block then db\<lparr>scan_cursor := Some cursor\<rparr> else db)
      in (db', \<lparr>ds_matches = matches, ds_cursor = cursor, ds_peers_answering = length responses\<rparr>))"

section \<open>Claiming deposits\<close>

text \<open>The answers of the federation and of the EVM node during one call.\<close>

record usdt_api =
  api_deposit_status :: "PublicKey \<Rightarrow> DepositStatusResponse option"
  api_deposit_fee_quote :: "FeeQuoteResponse option"
  api_latest_anchored_block :: "u64 option"
  fetch_deposit_proof :: "string list \<Rightarrow> EvmAddress \<Rightarrow> EvmAddress \<Rightarrow> u64 \<Rightarrow> (DepositProof \<times> u64) option"

record 'k ClientInput =
  ci_input :: UsdtInput
  ci_keys :: "'k list"
  ci_amounts :: u64

definition DEFAULT_EVM_RPC_URLS :: "string list" where
  "DEFAULT_EVM_RPC_URLS = [''https://ethereum-rpc.publicnode.com'', ''https://1rpc.io/eth'', ''https://eth.drpc.org'']"

definition set_evm_rpc_url :: "string option \<Rightarrow> 'k usdt_client_db \<Rightarrow> 'k usdt_client_db" where
  "set_evm_rpc_url url db = db\<lparr>evm_rpc_url := url\<rparr>"

definition resolve_evm_rpc_urls :: "'k usdt_client_db \<Rightarrow> string option \<Rightarrow> string list" where
  "resolve_evm_rpc_urls db given =
     (case given of Some url \<Rightarrow> [url]
      | None \<Rightarrow> (case evm_rpc_url db of Some url \<Rightarrow> [url] | None \<Rightarrow> DEFAULT_EVM_RPC_URLS))"

definition deposit_proof_input ::
  "'k key_platform \<Rightarrow> 'k \<Rightarrow> DepositProof \<Rightarrow> u64 \<Rightarrow> u64 \<Rightarrow> ('k ClientInput, UsdtClientError) result" where
  "deposit_proof_input K keypair proof delta fee =
     (if delta \<le> fee then Err (DeltaBelowFee delta fee)
      else and_then (sub_p delta fee) (\<lambda>amount.
        Ok \<lparr>ci_input = DepositProofV0 (public_key K keypair) proof fee, ci_keys = [keypair], ci_amounts = amount\<rparr>))"

text \<open>\<open>submit\<close> stands for building and submitting the transaction and waiting for its outputs.\<close>

definition submit_prebuilt_deposit_proof ::
  "evm_platform \<Rightarrow> 'k key_platform \<Rightarrow> UsdtClientConfig \<Rightarrow> usdt_api \<Rightarrow> ('k ClientInput \<Rightarrow> bool) \<Rightarrow> 'k \<Rightarrow> DepositProof \<Rightarrow> u64 \<Rightarrow>
    u64 option \<Rightarrow> bool \<Rightarrow> 'k usdt_client_db \<Rightarrow> 'k usdt_client_db \<times> ('k ClientInput, UsdtClientError) result" where
  "submit_prebuilt_deposit_proof P K cfg api submit keypair proof proven max_deposit_fee accept_high_fee db =
     (let claim_pk = public_key K keypair;
          account = deposit_address P cfg claim_pk;
          db' = db\<lparr>claim_keys := AList.update account keypair (claim_keys db)\<rparr>
      in (db',
          and_then (ok_or (api_deposit_status api claim_pk) ApiFailed) (\<lambda>status.
          let delta = saturating_sub proven (dst_credited status) in
          if delta = 0 then Err (NothingNewToCredit account proven (dst_credited status))
          else
            and_then (ok_or (api_deposit_fee_quote api) ApiFailed) (\<lambda>quote.
            and_then (ensure_fee_quote_available quote) (\<lambda>quote.
            and_then (check_fee_cap (fq_fee quote) delta max_deposit_fee accept_high_fee) (\<lambda>_.
            and_then (deposit_proof_input K keypair proof delta (fq_fee quote)) (\<lambda>client_input.
            if submit client_input then Ok client_input else Err SubmitFailed)))))))"

definition submit_deposit_proof_with_keypair ::
  "evm_platform \<Rightarrow> 'k key_platform \<Rightarrow> UsdtClientConfig \<Rightarrow> usdt_api \<Rightarrow> ('k ClientInput \<Rightarrow> bool) \<Rightarrow> 'k \<Rightarrow> string option \<Rightarrow>
    u64 option \<Rightarrow> bool \<Rightarrow> 'k usdt_client_db \<Rightarrow> 'k usdt_client_db \<times> ('k ClientInput, UsdtClientError) result" where
  "submit_deposit_proof_with_keypair P K cfg api submit keypair url max_deposit_fee accept_high_fee db =
     (case api_latest_anchored_block api of
        None \<Rightarrow> (db, Err ApiFailed)
      | Some block \<Rightarrow>
          if block = 0 then (db, Err NothingAnchored)
          else (case fetch_deposit_proof api (resolve_evm_rpc_urls db url) (cc_usdt_contract cfg)
                   (deposit_address P cfg (public_key K keypair)) block of
                  None \<Rightarrow> (db, Err RpcFailed)
                | Some (proof, proven) \<Rightarrow>
                    submit_prebuilt_deposit_proof P K cfg api submit keypair proof proven max_deposit_fee accept_high_fee db))"

definition submit_deposit_proof_for_account ::
  "evm_platform \<Rightarrow> 'k key_platform \<Rightarrow> UsdtClientConfig \<Rightarrow> usdt_api \<Rightarrow> ('k ClientInput \<Rightarrow> bool) \<Rightarrow> EvmAddress \<Rightarrow> string option \<Rightarrow>
    u64 option \<Rightarrow> bool \<Rightarrow> 'k usdt_client_db \<Rightarrow> 'k usdt_client_db \<times> ('k ClientInput, UsdtClientError) result" where
  "submit_deposit_proof_for_account P K cfg api submit account url max_deposit_fee accept_high_fee db =
     (case map_of (claim_keys db) account of
        None \<Rightarrow> (db, Err (NoClaimKey account))
      | Some keypair \<Rightarrow> submit_deposit_proof_with_keypair P K cfg api submit keypair url max_deposit_fee accept_high_fee db)"

record 'k DepositClaimOutcome =
  dc_submitted :: "'k ClientInput"
  dc_claim_pk :: PublicKey
  dc_account :: EvmAddress
  used_legacy_key :: bool

definition is_nothing_new_to_credit_error :: "UsdtClientError \<Rightarrow> bool" where
  "is_nothing_new_to_credit_error err = (case err of NothingNewToCredit _ _ _ \<Rightarrow> True | _ \<Rightarrow> False)"

text \<open>Claim the deposit of an index: with the discoverable key first, then with the untweaked one.\<close>

definition submit_deposit_proof ::
  "evm_platform \<Rightarrow> 'k key_platform \<Rightarrow> UsdtClientConfig \<Rightarrow> usdt_api \<Rightarrow> ('k ClientInput \<Rightarrow> bool) \<Rightarrow> u64 \<Rightarrow> string option \<Rightarrow>
    u64 option \<Rightarrow> bool \<Rightarrow> 'k usdt_client_db \<Rightarrow> 'k usdt_client_db \<times> ('k DepositClaimOutcome, UsdtClientError) result" where
  "submit_deposit_proof P K cfg api submit index url max_deposit_fee accept_high_fee db =
     (case ground_claim_keypair P K cfg (claim_keypair K index) of
        Err e \<Rightarrow> (db, Err e)
      | Panic \<Rightarrow> (db, Panic)
      | Ok (tweak, ground, account) \<Rightarrow>
          (case submit_deposit_proof_with_keypair P K cfg api submit ground url max_deposit_fee accept_high_fee db of
             (db1, Ok inp) \<Rightarrow> (db1, Ok \<lparr>dc_submitted = inp, dc_claim_pk = public_key K ground, dc_account = account, used_legacy_key = False\<rparr>)
           | (db1, Panic) \<Rightarrow> (db1, Panic)
           | (db1, Err err) \<Rightarrow>
               if tweak = 0 \<or> \<not> is_nothing_new_to_credit_error err then (db1, Err err)
               else
                 let legacy = claim_keypair K index in
                 (case submit_deposit_proof_with_keypair P K cfg api submit legacy url max_deposit_fee accept_high_fee db1 of
                    (db2, Ok inp) \<Rightarrow> (db2, Ok \<lparr>dc_submitted = inp, dc_claim_pk = public_key K legacy,
                       dc_account = deposit_address P cfg (public_key K legacy), used_legacy_key = True\<rparr>)
                  | (db2, Err _) \<Rightarrow> (db2, Err LegacyFallbackFailed)
                  | (db2, Panic) \<Rightarrow> (db2, Panic))))"

fun claim_matches ::
  "evm_platform \<Rightarrow> 'k key_platform \<Rightarrow> UsdtClientConfig \<Rightarrow> usdt_api \<Rightarrow> ('k ClientInput \<Rightarrow> bool) \<Rightarrow> string option \<Rightarrow>
    u64 option \<Rightarrow> bool \<Rightarrow> DiscoveredDeposit list \<Rightarrow> 'k usdt_client_db \<Rightarrow>
    'k usdt_client_db \<times> (DiscoveredDeposit \<times> ('k ClientInput, UsdtClientError) result) list" where
  "claim_matches P K cfg api submit url cap high [] db = (db, [])"
| "claim_matches P K cfg api submit url cap high (d # ds) db =
     (let (db1, res) = submit_deposit_proof_for_account P K cfg api submit (dd_account d) url cap high db;
          (db2, rest) = claim_matches P K cfg api submit url cap high ds db1
      in (db2, (d, res) # rest))"

definition discover_and_claim_deposits ::
  "evm_platform \<Rightarrow> 'k key_platform \<Rightarrow> UsdtClientConfig \<Rightarrow> (nat \<Rightarrow> nat) \<Rightarrow> PeerId list \<Rightarrow> (PeerId \<Rightarrow> candidate_source) \<Rightarrow> usdt_api \<Rightarrow>
    ('k ClientInput \<Rightarrow> bool) \<Rightarrow> string option \<Rightarrow> u64 option \<Rightarrow> bool \<Rightarrow> 'k usdt_client_db \<Rightarrow>
    'k usdt_client_db \<times> (DiscoveredDeposit \<times> ('k ClientInput, UsdtClientError) result) list" where
  "discover_and_claim_deposits P K cfg max_evil peers transfer_candidates api submit url cap high db =
     (let (db1, summary) = discover_deposits K max_evil peers transfer_candidates db
      in claim_matches P K cfg api submit url cap high (ds_matches summary) db1)"

section \<open>Recovery from the seed\<close>

record RecoveredAccount =
  ra_index :: u64
  ra_account :: EvmAddress
  ra_claim_pk :: PublicKey
  ra_credited :: u64
  ra_claimable :: u64

record CheckedAccount =
  ch_index :: u64
  ch_account :: EvmAddress
  ch_claim_pk :: PublicKey

text \<open>What the scan has gathered: the database and the parts of the summary.\<close>

record 'k recovery =
  rv_db :: "'k usdt_client_db"
  rv_accounts :: "RecoveredAccount list"
  rv_checked :: "CheckedAccount list"
  rv_total_credited :: u64
  rv_total_claimable :: u64
  rv_highest_used_index :: "u64 option"

fun probe_keys ::
  "'k key_platform \<Rightarrow> (PublicKey \<Rightarrow> DepositStatusResponse option) \<Rightarrow> bool \<Rightarrow> u64 \<Rightarrow> 'k list \<Rightarrow> 'k recovery \<Rightarrow> bool \<Rightarrow>
    'k recovery \<times> (bool, UsdtClientError) result" where
  "probe_keys K deposit_status check_uncredited index [] rv hit = (rv, Ok hit)"
| "probe_keys K deposit_status check_uncredited index (keypair # probes) rv hit =
     (let claim_pk = public_key K keypair in
      case deposit_status claim_pk of
        None \<Rightarrow> (rv, Err ApiFailed)
      | Some status \<Rightarrow>
          let stored = (rv_db rv)\<lparr>claim_keys := AList.update (dst_account status) keypair (claim_keys (rv_db rv))\<rparr> in
          if dst_credited status > 0
          then probe_keys K deposit_status check_uncredited index probes
                 (rv\<lparr>rv_db := stored,
                     rv_total_credited := saturating_add (rv_total_credited rv) (dst_credited status),
                     rv_total_claimable := saturating_add (rv_total_claimable rv) (dst_claimable status),
                     rv_accounts := rv_accounts rv @ [\<lparr>ra_index = index, ra_account = dst_account status, ra_claim_pk = claim_pk,
                       ra_credited = dst_credited status, ra_claimable = dst_claimable status\<rparr>]\<rparr>) True
          else if check_uncredited
          then probe_keys K deposit_status check_uncredited index probes
                 (rv\<lparr>rv_db := stored,
                     rv_checked := rv_checked rv @ [\<lparr>ch_index = index, ch_account = dst_account status, ch_claim_pk = claim_pk\<rparr>]\<rparr>) hit
          else probe_keys K deposit_status check_uncredited index probes rv hit)"

text \<open>
  The walk over the indices. Adding one to the number of misses cannot overflow, for it is below the
  limit; adding one to the index can.
\<close>

function recover_loop ::
  "evm_platform \<Rightarrow> 'k key_platform \<Rightarrow> UsdtClientConfig \<Rightarrow> (PublicKey \<Rightarrow> DepositStatusResponse option) \<Rightarrow> u64 \<Rightarrow> bool \<Rightarrow>
    u64 \<Rightarrow> u64 \<Rightarrow> 'k recovery \<Rightarrow> 'k recovery \<times> (unit, UsdtClientError) result" where
  "recover_loop P K cfg deposit_status gap_limit check_uncredited consecutive_misses index rv =
     (if consecutive_misses < gap_limit then
        (case ground_claim_keypair P K cfg (claim_keypair K index) of
           Err e \<Rightarrow> (rv, Err e)
         | Panic \<Rightarrow> (rv, Panic)
         | Ok (tweak, ground, _) \<Rightarrow>
             (case probe_keys K deposit_status check_uncredited index
                 (if tweak \<noteq> 0 then [ground, claim_keypair K index] else [ground]) rv False of
                (rv1, Err e) \<Rightarrow> (rv1, Err e)
              | (rv1, Panic) \<Rightarrow> (rv1, Panic)
              | (rv1, Ok hit) \<Rightarrow>
                  if unat index + 1 < 2 ^ 64
                  then recover_loop P K cfg deposit_status gap_limit check_uncredited
                         (if hit then 0 else consecutive_misses + 1) (index + 1)
                         (if hit then rv1\<lparr>rv_highest_used_index := Some index\<rparr> else rv1)
                  else (rv1, Panic)))
      else (rv, Ok ()))"
  by pat_completeness auto

termination recover_loop
  by (relation "measure (\<lambda>(P, K, cfg, st, gap, chk, misses, index, rv). 2 ^ 64 - unat index)")
    (auto simp: unat_word_ariths)

declare recover_loop.simps [simp del]

record RecoverySummary =
  rs_recovered :: nat
  rs_total_credited :: u64
  rs_total_claimable :: u64
  rs_accounts :: "RecoveredAccount list"
  rs_checked :: "CheckedAccount list"

definition recover_deposits_scan ::
  "evm_platform \<Rightarrow> 'k key_platform \<Rightarrow> UsdtClientConfig \<Rightarrow> (PublicKey \<Rightarrow> DepositStatusResponse option) \<Rightarrow> u64 \<Rightarrow> bool \<Rightarrow>
    'k usdt_client_db \<Rightarrow> 'k usdt_client_db \<times> (RecoverySummary, UsdtClientError) result" where
  "recover_deposits_scan P K cfg deposit_status gap_limit check_uncredited db =
     (case recover_loop P K cfg deposit_status gap_limit check_uncredited 0 0
         \<lparr>rv_db = db, rv_accounts = [], rv_checked = [], rv_total_credited = 0, rv_total_claimable = 0, rv_highest_used_index = None\<rparr> of
        (rv, Err e) \<Rightarrow> (rv_db rv, Err e)
      | (rv, Panic) \<Rightarrow> (rv_db rv, Panic)
      | (rv, Ok ()) \<Rightarrow>
          let existing = (case next_deposit_index (rv_db rv) of None \<Rightarrow> 0 | Some i \<Rightarrow> i);
              db' = (case rv_highest_used_index rv of
                  None \<Rightarrow> rv_db rv
                | Some highest \<Rightarrow> (rv_db rv)\<lparr>next_deposit_index := Some (max existing (saturating_add highest 1))\<rparr>)
          in (db', Ok \<lparr>rs_recovered = length (rv_accounts rv), rs_total_credited = rv_total_credited rv,
                rs_total_claimable = rv_total_claimable rv, rs_accounts = rv_accounts rv, rs_checked = rv_checked rv\<rparr>))"

section \<open>Withdrawing\<close>

record 'k WithdrawalRefundCommon =
  wr_operation_id :: u256
  wr_txid :: u256
  wr_out_point :: OutPoint
  wr_refund_keypair :: 'k

datatype WithdrawalRefundState =
    RefundPending
  | RefundPaid u64
  | RefundRejected string
  | Refunding u256 u64 string
  | Refunded u64 string

record 'k UsdtStateMachine =
  sm_common :: "'k WithdrawalRefundCommon"
  sm_state :: WithdrawalRefundState

definition usdt_input_fee :: "UsdtInput \<Rightarrow> u64 option" where
  "usdt_input_fee inp = Some 0"

definition usdt_output_fee :: "UsdtOutput \<Rightarrow> u64 option" where
  "usdt_output_fee out_item = (case out_item of UsdtV0 withdrawal \<Rightarrow> Some (out_max_fee withdrawal) | UsdtOutputDefault _ _ \<Rightarrow> None)"

definition withdrawal_out_point :: "u256 \<Rightarrow> OutPoint" where
  "withdrawal_out_point txid = OutPoint txid 0"

text \<open>The output of a withdrawal and the machine that comes with it.\<close>

definition withdraw_output :: "'k key_platform \<Rightarrow> 'k \<Rightarrow> EvmAddress \<Rightarrow> u64 \<Rightarrow> u64 \<Rightarrow> UsdtOutput" where
  "withdraw_output K keypair recipient amount max_fee =
     UsdtV0 \<lparr>out_recipient = recipient, out_amount = amount, out_max_fee = max_fee, out_refund_pubkey = public_key K keypair\<rparr>"

definition withdraw_machine :: "u256 \<Rightarrow> 'k \<Rightarrow> u256 \<Rightarrow> 'k UsdtStateMachine" where
  "withdraw_machine operation_id keypair txid =
     \<lparr>sm_common = \<lparr>wr_operation_id = operation_id, wr_txid = txid, wr_out_point = withdrawal_out_point txid, wr_refund_keypair = keypair\<rparr>,
      sm_state = RefundPending\<rparr>"

definition withdraw ::
  "'k key_platform \<Rightarrow> EvmAddress \<Rightarrow> u64 \<Rightarrow> u64 \<Rightarrow> u256 \<Rightarrow> (UsdtOutput \<Rightarrow> u256 option) \<Rightarrow> (u256 \<Rightarrow> bool) \<Rightarrow> 'k usdt_client_db \<Rightarrow>
    'k usdt_client_db \<times> 'k UsdtStateMachine option \<times> (u256, UsdtClientError) result" where
  "withdraw K recipient amount max_fee operation_id submit accepted db =
     (let (db1, index) = allocate_refund_index db;
          keypair = refund_keypair K index
      in (case submit (withdraw_output K keypair recipient amount max_fee) of
            None \<Rightarrow> (db1, None, Err SubmitFailed)
          | Some txid \<Rightarrow>
              (db1\<lparr>refund_keys := AList.update (withdrawal_out_point txid) keypair (refund_keys db1)\<rparr>,
               Some (withdraw_machine operation_id keypair txid),
               if accepted txid then Ok txid else Err WithdrawalRejected)))"

section \<open>The refund machine\<close>

datatype RefundOutcome =
    OutcomePaid u64
  | OutcomeRejected string
  | OutcomeRefundable u64 string
  | OutcomeAlreadyRefunded string

text \<open>One poll: the withdrawal's status and, when that is a failure, its refund. \<open>None\<close> means poll again.\<close>

definition poll_outcome :: "WithdrawalStatus option \<Rightarrow> (u64 \<times> string) option option \<Rightarrow> RefundOutcome option" where
  "poll_outcome status refund =
     (case status of
        Some (StatusConfirmed block) \<Rightarrow> Some (OutcomePaid block)
      | Some (StatusFailed reason) \<Rightarrow>
          (case refund of
             Some (Some (amount, why)) \<Rightarrow> Some (OutcomeRefundable amount why)
           | Some None \<Rightarrow> Some (OutcomeAlreadyRefunded reason)
           | None \<Rightarrow> None)
      | _ \<Rightarrow> None)"

partial_function (option) await_polls :: "(nat \<Rightarrow> RefundOutcome option) \<Rightarrow> nat \<Rightarrow> RefundOutcome option" where
  "await_polls poll n = (case poll n of Some outcome \<Rightarrow> Some outcome | None \<Rightarrow> await_polls poll (n + 1))"

definition await_outcome :: "(unit, string) result \<Rightarrow> (nat \<Rightarrow> RefundOutcome option) \<Rightarrow> RefundOutcome option" where
  "await_outcome tx_accepted poll =
     (case tx_accepted of Err e \<Rightarrow> Some (OutcomeRejected e) | _ \<Rightarrow> await_polls poll 0)"

definition refund_input :: "'k UsdtStateMachine \<Rightarrow> u64 \<Rightarrow> 'k ClientInput" where
  "refund_input sm amount =
     \<lparr>ci_input = RefundV0 (wr_out_point (sm_common sm)), ci_keys = [wr_refund_keypair (sm_common sm)], ci_amounts = amount\<rparr>"

definition transition_outcome :: "('k ClientInput \<Rightarrow> u256 option) \<Rightarrow> RefundOutcome \<Rightarrow> 'k UsdtStateMachine \<Rightarrow> 'k UsdtStateMachine" where
  "transition_outcome claim_inputs outcome old_state =
     old_state\<lparr>sm_state := (case outcome of
         OutcomePaid block \<Rightarrow> RefundPaid block
       | OutcomeRejected e \<Rightarrow> RefundRejected e
       | OutcomeAlreadyRefunded reason \<Rightarrow> Refunded 0 reason
       | OutcomeRefundable amount reason \<Rightarrow>
           (case claim_inputs (refund_input old_state amount) of
              Some txid \<Rightarrow> Refunding txid amount reason
            | None \<Rightarrow> RefundPending))\<rparr>"

definition transition_refund_accepted :: "(unit, string) result \<Rightarrow> 'k UsdtStateMachine \<Rightarrow> 'k UsdtStateMachine" where
  "transition_refund_accepted res old_state =
     (let (amount, reason) = (case sm_state old_state of Refunding _ a r \<Rightarrow> (a, r) | _ \<Rightarrow> (0, []))
      in old_state\<lparr>sm_state := (case res of Ok () \<Rightarrow> Refunded amount reason | _ \<Rightarrow> RefundPending)\<rparr>)"

text \<open>Waiting in the foreground; \<open>n\<close> polls fit before the deadline, the first is made in any case.\<close>

fun await_withdrawal_confirmed :: "nat \<Rightarrow> (nat \<Rightarrow> WithdrawalStatus option) \<Rightarrow> nat \<Rightarrow> (u64, UsdtClientError) result" where
  "await_withdrawal_confirmed n status i =
     (case status i of
        None \<Rightarrow> Err ApiFailed
      | Some (StatusConfirmed block) \<Rightarrow> Ok block
      | Some (StatusFailed reason) \<Rightarrow> Err (WithdrawalFailed reason)
      | Some _ \<Rightarrow> (case n of 0 \<Rightarrow> Err DeadlinePassed | Suc m \<Rightarrow> await_withdrawal_confirmed m status (Suc i)))"

datatype WithdrawalOutcome = Paid u64 | RefundedOutcome "u64 option" string

fun await_withdrawal_outcome ::
  "nat \<Rightarrow> (nat \<Rightarrow> WithdrawalStatus option) \<Rightarrow> (nat \<Rightarrow> (u64 \<times> string) option option) \<Rightarrow> nat \<Rightarrow> (WithdrawalOutcome, UsdtClientError) result" where
  "await_withdrawal_outcome n status refund i =
     (case status i of
        None \<Rightarrow> Err ApiFailed
      | Some (StatusConfirmed block) \<Rightarrow> Ok (Paid block)
      | Some (StatusFailed reason) \<Rightarrow>
          and_then (ok_or (refund i) ApiFailed) (\<lambda>r. Ok (RefundedOutcome (map_option fst r) reason))
      | Some _ \<Rightarrow> (case n of 0 \<Rightarrow> Err DeadlinePassed | Suc m \<Rightarrow> await_withdrawal_outcome m status refund (Suc i)))"

declare await_withdrawal_confirmed.simps [simp del] await_withdrawal_outcome.simps [simp del]

end
