(* ===== verification/Usdt_Ledger.thy ===== *)
theory Usdt_Ledger
  imports Usdt_Server
begin

text \<open>
  The invariant of the USDT server: what the module holds on chain covers, to the last unit, the
  e-cash it issued, the fees it recorded and what it still owes; and every operation in flight moves
  exactly what the database expects of it. Every handler is shown to keep it.
\<close>

section \<open>What the steps leave alone\<close>

lemma start_session_fields [simp]:
  "deposit_records (start_session P u db p d a) = deposit_records db"
  "pending_user_ops (start_session P u db p d a) = pending_user_ops db"
  "submitted_user_ops (start_session P u db p d a) = submitted_user_ops db"
  "pool_state_row (start_session P u db p d a) = pool_state_row db"
  "unclaimed_withdrawals (start_session P u db p d a) = unclaimed_withdrawals db"
  "withdrawal_states (start_session P u db p d a) = withdrawal_states db"
  "refunds (start_session P u db p d a) = refunds db"
  by (simp_all add: start_session_def Let_def)

lemma remove_session_chunks_fields [simp]:
  "deposit_records (remove_session_chunks i db) = deposit_records db"
  "pending_user_ops (remove_session_chunks i db) = pending_user_ops db"
  "submitted_user_ops (remove_session_chunks i db) = submitted_user_ops db"
  "pool_state_row (remove_session_chunks i db) = pool_state_row db"
  "unclaimed_withdrawals (remove_session_chunks i db) = unclaimed_withdrawals db"
  "withdrawal_states (remove_session_chunks i db) = withdrawal_states db"
  "refunds (remove_session_chunks i db) = refunds db"
  by (simp_all add: remove_session_chunks_def)

lemma remove_confirmed_votes_fields [simp]:
  "deposit_records (remove_confirmed_votes h db) = deposit_records db"
  "pending_user_ops (remove_confirmed_votes h db) = pending_user_ops db"
  "submitted_user_ops (remove_confirmed_votes h db) = submitted_user_ops db"
  "pool_state_row (remove_confirmed_votes h db) = pool_state_row db"
  "unclaimed_withdrawals (remove_confirmed_votes h db) = unclaimed_withdrawals db"
  "withdrawal_states (remove_confirmed_votes h db) = withdrawal_states db"
  "refunds (remove_confirmed_votes h db) = refunds db"
  by (simp_all add: remove_confirmed_votes_def)

lemma remove_signing_sessions_fields [simp]:
  "deposit_records (remove_signing_sessions_for_op h db) = deposit_records db"
  "pending_user_ops (remove_signing_sessions_for_op h db) = pending_user_ops db"
  "submitted_user_ops (remove_signing_sessions_for_op h db) = submitted_user_ops db"
  "pool_state_row (remove_signing_sessions_for_op h db) = pool_state_row db"
  "unclaimed_withdrawals (remove_signing_sessions_for_op h db) = unclaimed_withdrawals db"
  "withdrawal_states (remove_signing_sessions_for_op h db) = withdrawal_states db"
  "refunds (remove_signing_sessions_for_op h db) = refunds db"
  by (simp_all add: remove_signing_sessions_for_op_def Let_def)

lemma set_states_fields [simp]:
  "deposit_records (set_states os st db) = deposit_records db"
  "pending_user_ops (set_states os st db) = pending_user_ops db"
  "submitted_user_ops (set_states os st db) = submitted_user_ops db"
  "pool_state_row (set_states os st db) = pool_state_row db"
  "unclaimed_withdrawals (set_states os st db) = unclaimed_withdrawals db"
  "refunds (set_states os st db) = refunds db"
  by (simp_all add: set_states_def)

lemma purge_submitted_fields [simp]:
  "deposit_records (purge_submitted s n h db) = deposit_records db"
  "pending_user_ops (purge_submitted s n h db) = pending_user_ops db"
  "pool_state_row (purge_submitted s n h db) = pool_state_row db"
  "unclaimed_withdrawals (purge_submitted s n h db) = unclaimed_withdrawals db"
  "withdrawal_states (purge_submitted s n h db) = withdrawal_states db"
  "refunds (purge_submitted s n h db) = refunds db"
proof -
  let ?f = "\<lambda>d h. remove_confirmed_votes h (d\<lparr>submitted_user_ops := AList.delete h (submitted_user_ops d)\<rparr>)"
  have "deposit_records (foldl ?f d hs) = deposit_records d \<and> pending_user_ops (foldl ?f d hs) = pending_user_ops d \<and>
      pool_state_row (foldl ?f d hs) = pool_state_row d \<and>
      unclaimed_withdrawals (foldl ?f d hs) = unclaimed_withdrawals d \<and>
      withdrawal_states (foldl ?f d hs) = withdrawal_states d \<and> refunds (foldl ?f d hs) = refunds d" for d hs
    by (induction hs arbitrary: d) simp_all
  then show "deposit_records (purge_submitted s n h db) = deposit_records db"
    "pending_user_ops (purge_submitted s n h db) = pending_user_ops db"
    "pool_state_row (purge_submitted s n h db) = pool_state_row db"
    "unclaimed_withdrawals (purge_submitted s n h db) = unclaimed_withdrawals db"
    "withdrawal_states (purge_submitted s n h db) = withdrawal_states db"
    "refunds (purge_submitted s n h db) = refunds db"
    by (simp_all add: purge_submitted_def Let_def)
qed

lemma purge_pending_fields [simp]:
  "deposit_records (purge_pending s n h db) = deposit_records db"
  "submitted_user_ops (purge_pending s n h db) = submitted_user_ops db"
  "pool_state_row (purge_pending s n h db) = pool_state_row db"
  "unclaimed_withdrawals (purge_pending s n h db) = unclaimed_withdrawals db"
  "withdrawal_states (purge_pending s n h db) = withdrawal_states db"
  "refunds (purge_pending s n h db) = refunds db"
proof -
  let ?f = "\<lambda>d h. remove_signing_sessions_for_op h (d\<lparr>pending_user_ops := AList.delete h (pending_user_ops d)\<rparr>)"
  have "deposit_records (foldl ?f d hs) = deposit_records d \<and> submitted_user_ops (foldl ?f d hs) = submitted_user_ops d \<and>
      pool_state_row (foldl ?f d hs) = pool_state_row d \<and>
      unclaimed_withdrawals (foldl ?f d hs) = unclaimed_withdrawals d \<and>
      withdrawal_states (foldl ?f d hs) = withdrawal_states d \<and> refunds (foldl ?f d hs) = refunds d" for d hs
    by (induction hs arbitrary: d) simp_all
  then show "deposit_records (purge_pending s n h db) = deposit_records db"
    "submitted_user_ops (purge_pending s n h db) = submitted_user_ops db"
    "pool_state_row (purge_pending s n h db) = pool_state_row db"
    "unclaimed_withdrawals (purge_pending s n h db) = unclaimed_withdrawals db"
    "withdrawal_states (purge_pending s n h db) = withdrawal_states db"
    "refunds (purge_pending s n h db) = refunds db"
    by (simp_all add: purge_pending_def Let_def)
qed

text \<open>Deleting the rows that satisfy a predicate, one key after the other, is a filter.\<close>

lemma foldl_delete: "foldl (\<lambda>t k. AList.delete k t) t ks = filter (\<lambda>(k, _). k \<notin> set ks) t"
  by (induction ks arbitrary: t) (auto simp: AList.delete_eq intro!: filter_cong)

lemma filter_keys_out:
  assumes "wf_table t"
  shows "filter (\<lambda>(k, _). k \<notin> set (map fst (filter (\<lambda>(k, v). Q k v) t))) t = filter (\<lambda>(k, v). \<not> Q k v) t"
proof (rule filter_cong [OF refl], clarify)
  fix k v assume kv: "(k, v) \<in> set t"
  have "(k, w) \<in> set t \<longleftrightarrow> w = v" for w
    using assms kv by (auto simp: wf_table_def eq_key_imp_eq_value)
  then show "(k \<notin> set (map fst (filter (\<lambda>(k, v). Q k v) t))) = (\<not> Q k v)" using kv by force
qed

lemma purge_submitted_rows:
  assumes "wf_table (submitted_user_ops db)"
  shows "submitted_user_ops (purge_submitted a n h db) =
    filter (\<lambda>(h', s). \<not> (h' \<noteq> h \<and> sender (unsigned_op (s_signed s)) = a \<and> op_nonce (unsigned_op (s_signed s)) = n))
      (submitted_user_ops db)"
proof -
  let ?f = "\<lambda>d h. remove_confirmed_votes h (d\<lparr>submitted_user_ops := AList.delete h (submitted_user_ops d)\<rparr>)"
  have "submitted_user_ops (foldl ?f d hs) = foldl (\<lambda>t k. AList.delete k t) (submitted_user_ops d) hs" for d hs
    by (induction hs arbitrary: d) simp_all
  then show ?thesis by (simp add: purge_submitted_def Let_def foldl_delete filter_keys_out [OF assms] del: set_map set_filter)
qed

lemma purge_pending_rows:
  assumes "wf_table (pending_user_ops db)"
  shows "pending_user_ops (purge_pending a n h db) =
    filter (\<lambda>(h', p). \<not> (h' \<noteq> h \<and> sender (p_op p) = a \<and> op_nonce (p_op p) = n)) (pending_user_ops db)"
proof -
  let ?f = "\<lambda>d h. remove_signing_sessions_for_op h (d\<lparr>pending_user_ops := AList.delete h (pending_user_ops d)\<rparr>)"
  have "pending_user_ops (foldl ?f d hs) = foldl (\<lambda>t k. AList.delete k t) (pending_user_ops d) hs" for d hs
    by (induction hs arbitrary: d) simp_all
  then show ?thesis by (simp add: purge_pending_def Let_def foldl_delete filter_keys_out [OF assms] del: set_map set_filter)
qed

section \<open>The invariant\<close>

text \<open>The operations that are being signed or wait for their confirmation.\<close>

definition flights :: "usdt_db \<Rightarrow> (UnsignedUserOp \<times> UserOpPurpose) set" where
  "flights db =
     (\<lambda>(_, p). (p_op p, p_purpose p)) ` set (pending_user_ops db) \<union>
     (\<lambda>(_, s). (unsigned_op (s_signed s), s_purpose s)) ` set (submitted_user_ops db)"

definition withdrawal_amount :: "usdt_db \<Rightarrow> OutPoint \<Rightarrow> nat" where
  "withdrawal_amount db out = (case map_of (unclaimed_withdrawals db) out of None \<Rightarrow> 0 | Some w \<Rightarrow> unat (w_amount w))"

text \<open>
  What an operation in flight commits to: it belongs to the current nonce of its account, and moves no
  more than is there.
\<close>

definition flight_ok :: "evm_platform \<Rightarrow> Usdt \<Rightarrow> usdt_db \<Rightarrow> UnsignedUserOp \<Rightarrow> UserOpPurpose \<Rightarrow> bool" where
  "flight_ok P u db op purpose =
     (let pool = pool_or_default P u db in
      case purpose of
        DeployAndSweep a \<Rightarrow>
          sender op = a \<and> (\<exists>r moved. map_of (deposit_records db) a = Some r \<and> op_nonce op = ucast (rec_nonce r) \<and>
            decode_transfer_amount P op = Ok moved \<and> unat (swept r) + unat moved \<le> unat (credited r))
      | RecoverResidual a \<Rightarrow>
          sender op = a \<and> (\<exists>r. map_of (deposit_records db) a = Some r \<and> op_nonce op = ucast (rec_nonce r))
      | Withdraw outs \<Rightarrow>
          sender op = pool_account P u \<and> op_nonce op = ucast (ps_nonce pool) \<and> distinct outs \<and>
          (\<forall>out\<in>set outs. map_of (unclaimed_withdrawals db) out \<noteq> None) \<and>
          (\<exists>paid. decode_batch_transfer_total P op = Ok paid \<and>
            unat paid = sum_list (map (withdrawal_amount db) outs) \<and> unat paid \<le> unat (ps_balance pool))
      | WithdrawFees recipient amount \<Rightarrow>
          sender op = pool_account P u \<and> op_nonce op = ucast (ps_nonce pool) \<and>
          decode_batch_transfer_total P op = Ok amount \<and>
          unat amount \<le> unat (ps_accrued_fees pool) \<and> unat amount \<le> unat (ps_balance pool))"

text \<open>The token units the module holds on chain, the fees it recorded, and what it owes.\<close>

definition holdings :: "evm_platform \<Rightarrow> Usdt \<Rightarrow> usdt_db \<Rightarrow> nat" where
  "holdings P u db =
     tally (\<lambda>_ r. unat (credited r) - unat (swept r)) (deposit_records db) + unat (ps_balance (pool_or_default P u db))"

definition recorded_fees :: "evm_platform \<Rightarrow> Usdt \<Rightarrow> usdt_db \<Rightarrow> nat" where
  "recorded_fees P u db =
     tally (\<lambda>_ r. unat (fees_accrued r)) (deposit_records db) + unat (ps_accrued_fees (pool_or_default P u db))"

definition owed :: "usdt_db \<Rightarrow> nat" where
  "owed db =
     tally (\<lambda>_ w. unat (w_amount w) + unat (w_max_fee w)) (unclaimed_withdrawals db) +
     tally (\<lambda>_ r. unat (rf_amount r)) (refunds db)"

definition usdt_tables_ok :: "evm_platform \<Rightarrow> Usdt \<Rightarrow> usdt_db \<Rightarrow> bool" where
  "usdt_tables_ok P u db \<longleftrightarrow>
     wf_table (deposit_records db) \<and> wf_table (pending_user_ops db) \<and> wf_table (submitted_user_ops db) \<and>
     wf_table (unclaimed_withdrawals db) \<and> wf_table (refunds db) \<and>
     fst ` set (pending_user_ops db) \<inter> fst ` set (submitted_user_ops db) = {} \<and>
     (\<forall>(h, p)\<in>set (pending_user_ops db). h = op_hash_of P u (p_op p)) \<and>
     (\<forall>(h, s)\<in>set (submitted_user_ops db). h = op_hash_of P u (unsigned_op (s_signed s))) \<and>
     (\<forall>(a, r)\<in>set (deposit_records db). a \<noteq> pool_account P u \<and> claimed r = credited r \<and> unat (swept r) \<le> unat (credited r)) \<and>
     (\<forall>pool. pool_state_row db = Some pool \<longrightarrow> ps_account pool = pool_account P u) \<and>
     dom (map_of (unclaimed_withdrawals db)) \<union> dom (map_of (refunds db)) \<subseteq> dom (map_of (withdrawal_states db)) \<and>
     dom (map_of (unclaimed_withdrawals db)) \<inter> dom (map_of (refunds db)) = {}"

definition usdt_inv :: "evm_platform \<Rightarrow> Usdt \<Rightarrow> usdt_db \<Rightarrow> nat \<Rightarrow> bool" where
  "usdt_inv P u db issued \<longleftrightarrow>
     usdt_tables_ok P u db \<and>
     (\<forall>(op, purpose)\<in>flights db. flight_ok P u db op purpose) \<and>
     holdings P u db = issued + recorded_fees P u db + owed db \<and> holdings P u db < 2 ^ 63"

lemma usdt_invD:
  assumes "usdt_inv P u db issued"
  shows inv_tables: "usdt_tables_ok P u db"
    and inv_wf: "wf_table (deposit_records db)" "wf_table (pending_user_ops db)" "wf_table (submitted_user_ops db)"
      "wf_table (unclaimed_withdrawals db)" "wf_table (refunds db)"
    and inv_disjoint: "fst ` set (pending_user_ops db) \<inter> fst ` set (submitted_user_ops db) = {}"
    and inv_hashes: "\<And>h p. (h, p) \<in> set (pending_user_ops db) \<Longrightarrow> h = op_hash_of P u (p_op p)"
      "\<And>h s. (h, s) \<in> set (submitted_user_ops db) \<Longrightarrow> h = op_hash_of P u (unsigned_op (s_signed s))"
    and inv_record: "\<And>a r. (a, r) \<in> set (deposit_records db) \<Longrightarrow>
      a \<noteq> pool_account P u \<and> claimed r = credited r \<and> unat (swept r) \<le> unat (credited r)"
    and inv_pool: "\<And>pool. pool_state_row db = Some pool \<Longrightarrow> ps_account pool = pool_account P u"
    and inv_states: "dom (map_of (unclaimed_withdrawals db)) \<union> dom (map_of (refunds db)) \<subseteq> dom (map_of (withdrawal_states db))"
    and inv_exclusive: "dom (map_of (unclaimed_withdrawals db)) \<inter> dom (map_of (refunds db)) = {}"
    and inv_flight: "\<And>op purpose. (op, purpose) \<in> flights db \<Longrightarrow> flight_ok P u db op purpose"
    and inv_ledger: "holdings P u db = issued + recorded_fees P u db + owed db"
    and inv_bound: "holdings P u db < 2 ^ 63"
  using assms unfolding usdt_inv_def usdt_tables_ok_def by auto

text \<open>No two operations in flight with different senders share a hash.\<close>

definition hash_clear :: "evm_platform \<Rightarrow> Usdt \<Rightarrow> usdt_db \<Rightarrow> bool" where
  "hash_clear P u db \<longleftrightarrow>
     (\<forall>(op, _)\<in>flights db. \<forall>(op', _)\<in>flights db. op_hash_of P u op = op_hash_of P u op' \<longrightarrow> sender op = sender op')"

text \<open>The part of the database the invariant reads.\<close>

definition same_ledger :: "usdt_db \<Rightarrow> usdt_db \<Rightarrow> bool" where
  "same_ledger db db' \<longleftrightarrow>
     deposit_records db' = deposit_records db \<and> pool_state_row db' = pool_state_row db \<and>
     unclaimed_withdrawals db' = unclaimed_withdrawals db \<and> refunds db' = refunds db"

lemma same_ledger_pool: "same_ledger db db' \<Longrightarrow> pool_or_default P u db' = pool_or_default P u db"
  by (simp add: same_ledger_def pool_or_default_def)

lemma same_ledger_flight:
  assumes "same_ledger db db'"
  shows "flight_ok P u db' = flight_ok P u db"
proof -
  have e: "deposit_records db' = deposit_records db" "unclaimed_withdrawals db' = unclaimed_withdrawals db"
    using assms by (simp_all add: same_ledger_def)
  have w: "withdrawal_amount db' = withdrawal_amount db" by (intro ext) (simp only: withdrawal_amount_def e)
  show ?thesis by (intro ext) (simp only: flight_ok_def same_ledger_pool [OF assms] e w)
qed

lemma same_ledger_sums:
  assumes "same_ledger db db'"
  shows "holdings P u db' = holdings P u db" "recorded_fees P u db' = recorded_fees P u db" "owed db' = owed db"
  using assms by (simp_all add: holdings_def recorded_fees_def owed_def same_ledger_pool) (simp_all add: same_ledger_def)

lemma usdt_inv_same:
  assumes "usdt_inv P u db issued" and "same_ledger db db'"
    and "pending_user_ops db' = pending_user_ops db" and "submitted_user_ops db' = submitted_user_ops db"
    and "dom (map_of (withdrawal_states db)) \<subseteq> dom (map_of (withdrawal_states db'))"
  shows "usdt_inv P u db' issued"
proof -
  have "dom (map_of (unclaimed_withdrawals db)) \<union> dom (map_of (refunds db)) \<subseteq> dom (map_of (withdrawal_states db'))"
    using assms(1,5) unfolding usdt_inv_def usdt_tables_ok_def by (elim conjE) (rule order_trans)
  then have "usdt_tables_ok P u db'"
    using assms(1-4) unfolding usdt_inv_def usdt_tables_ok_def same_ledger_def by simp
  moreover have "flights db' = flights db" using assms(3,4) by (simp add: flights_def)
  ultimately show ?thesis
    using assms(1) same_ledger_flight [OF assms(2), of P u] same_ledger_sums [OF assms(2)]
    by (simp add: usdt_inv_def)
qed

text \<open>Storing an operation that fits keeps the invariant.\<close>

lemma usdt_inv_add_pending:
  assumes inv: "usdt_inv P u db issued" and "flight_ok P u db op purpose"
    and hash: "h = op_hash_of P u op" and new: "h \<notin> fst ` set (submitted_user_ops db)"
  shows "usdt_inv P u (db\<lparr>pending_user_ops := AList.update h \<lparr>p_op = op, p_purpose = purpose, created_block = b\<rparr>
      (pending_user_ops db)\<rparr>) issued" (is "usdt_inv P u ?db' issued")
proof -
  note wf = inv_wf(2) [OF inv]
  have rows: "set (pending_user_ops ?db') =
      insert (h, \<lparr>p_op = op, p_purpose = purpose, created_block = b\<rparr>) {kv \<in> set (pending_user_ops db). fst kv \<noteq> h}"
    using tbl.rows_insert [OF wf] by simp
  have same: "same_ledger db ?db'" by (simp add: same_ledger_def)
  have "flights ?db' \<subseteq> insert (op, purpose) (flights db)" using rows by (auto simp: flights_def image_iff)
  then have "\<forall>(op, purpose)\<in>flights ?db'. flight_ok P u ?db' op purpose"
    using inv_flight [OF inv] assms(2) unfolding same_ledger_flight [OF same, of P u] by blast
  moreover have "usdt_tables_ok P u ?db'"
  proof -
    have "wf_table (pending_user_ops ?db')" using tbl.wf_insert [OF wf] by simp
    moreover have "fst ` set (pending_user_ops ?db') \<subseteq> insert h (fst ` set (pending_user_ops db))" using rows by auto
    then have "fst ` set (pending_user_ops ?db') \<inter> fst ` set (submitted_user_ops db) = {}"
      using inv_disjoint [OF inv] new by blast
    moreover have "\<forall>(h', p)\<in>set (pending_user_ops ?db'). h' = op_hash_of P u (p_op p)"
      using inv_hashes(1) [OF inv] hash rows by auto
    ultimately show ?thesis using inv_tables [OF inv] by (simp add: usdt_tables_ok_def)
  qed
  ultimately show ?thesis using inv same_ledger_sums [OF same] by (simp add: usdt_inv_def)
qed

text \<open>Dropping operations keeps the invariant.\<close>

lemma usdt_inv_drop:
  assumes inv: "usdt_inv P u db issued" and "same_ledger db db'" and "withdrawal_states db' = withdrawal_states db"
    and "wf_table (pending_user_ops db')" "wf_table (submitted_user_ops db')"
    and "set (pending_user_ops db') \<subseteq> set (pending_user_ops db)"
    and "set (submitted_user_ops db') \<subseteq> set (submitted_user_ops db)"
  shows "usdt_inv P u db' issued"
proof -
  have "flights db' \<subseteq> flights db" using assms(6,7) by (auto simp: flights_def)
  moreover have "usdt_tables_ok P u db'"
  proof -
    have "fst ` set (pending_user_ops db') \<inter> fst ` set (submitted_user_ops db') = {}"
      using inv_disjoint [OF inv] assms(6,7) by blast
    moreover have "\<forall>(h, p)\<in>set (pending_user_ops db'). h = op_hash_of P u (p_op p)"
      "\<forall>(h, s)\<in>set (submitted_user_ops db'). h = op_hash_of P u (unsigned_op (s_signed s))"
      using inv_hashes [OF inv] assms(6,7) by blast+
    ultimately show ?thesis using inv_tables [OF inv] assms(2-5) by (simp add: usdt_tables_ok_def same_ledger_def)
  qed
  ultimately show ?thesis
    using inv same_ledger_flight [OF assms(2), of P u] same_ledger_sums [OF assms(2)]
    by (auto simp: usdt_inv_def)
qed

section \<open>Triggers keep the invariant\<close>

lemma start_session_inv: "usdt_inv P u db issued \<Longrightarrow> usdt_inv P u (start_session P u db p d a) issued"
  by (erule usdt_inv_same) (simp_all add: same_ledger_def)

lemma enqueue_inv:
  assumes "usdt_inv P u db issued" and "flight_ok P u db op purpose" and "\<not> op_known db (op_hash_of P u op)"
  shows "usdt_inv P u (enqueue_op P u db (op_hash_of P u op) op purpose b) issued"
proof -
  have "op_hash_of P u op \<notin> fst ` set (submitted_user_ops db)"
    using assms(3) by (auto simp: op_known_def map_of_eq_None_iff)
  from start_session_inv [OF usdt_inv_add_pending [OF assms(1,2) refl this]] show ?thesis
    by (simp add: enqueue_op_def)
qed

lemma record_row:
  assumes "usdt_inv P u db issued" and "map_of (deposit_records db) a = Some r"
  shows "a \<noteq> pool_account P u" "claimed r = credited r" "unat (swept r) \<le> unat (credited r)"
  using inv_record [OF assms(1) map_of_SomeD [OF assms(2)]] by simp_all

lemma sweep_inv:
  assumes env: "abi_laws P" and inv: "usdt_inv P u db issued"
  shows "usdt_inv P u (maybe_trigger_sweep P u db a) issued"
proof (cases "map_of (deposit_records db) a")
  case None
  then show ?thesis using inv by (simp add: maybe_trigger_sweep_def)
next
  case (Some r)
  have "flight_ok P u db (build_deploy_and_sweep_userop P (sweep_params P u a r (saturating_sub (credited r) (swept r)) m))
      (DeployAndSweep a)" for m
    using Some record_row [OF inv Some] env
    by (simp add: flight_ok_def decode_built_sweep)
      (simp add: build_deploy_and_sweep_userop_def sweep_params_def)
  then show ?thesis using Some inv enqueue_inv [OF inv]
    by (auto simp: maybe_trigger_sweep_def Let_def split: option.split)
qed

lemma accelerate_inv:
  assumes "abi_laws P" and "usdt_inv P u db issued"
  shows "usdt_inv P u (accelerate_sweeps_for_withdrawals P u db) issued"
proof -
  have "usdt_inv P u (foldl (\<lambda>d (account, record). if credited record > swept record
      then maybe_trigger_sweep P u d account else d) d rows) issued" if "usdt_inv P u d issued" for d rows
    using that by (induction rows arbitrary: d) (simp_all add: sweep_inv [OF assms(1)] split: prod.split)
  then show ?thesis using assms(2) by (simp add: accelerate_sweeps_for_withdrawals_def)
qed

lemma residual_inv:
  assumes "usdt_inv P u db issued"
  shows "usdt_inv P u (maybe_trigger_residual_recovery P u db a) issued"
proof (cases "map_of (deposit_records db) a")
  case None
  then show ?thesis using assms by (simp add: maybe_trigger_residual_recovery_def)
next
  case (Some r)
  have "flight_ok P u db (build_recover_residual_userop P \<lparr>rr_deposit_account = a, rr_entry_point = e, rr_recipient = c,
      rr_amount_wei = w, rr_nonce = ucast (rec_nonce r), rr_paymaster_and_data = [], rr_gas_bounds = g\<rparr>) (RecoverResidual a)"
    for e c w g
    using Some by (simp add: flight_ok_def build_recover_residual_userop_def)
  then show ?thesis using Some assms enqueue_inv [OF assms]
    by (auto simp: maybe_trigger_residual_recovery_def Let_def split: option.split)
qed

lemma pool_account_of_pool:
  "usdt_inv P u db issued \<Longrightarrow> ps_account (pool_or_default P u db) = pool_account P u"
  using inv_pool by (auto simp: pool_or_default_def split: option.split)

lemma fee_withdrawal_inv:
  assumes env: "abi_laws P" and inv: "usdt_inv P u db issued"
  shows "usdt_inv P u (maybe_trigger_fee_withdrawal P u db) issued"
proof (cases "agreed_fee_withdrawal P u db")
  case None
  then show ?thesis using inv by (simp add: maybe_trigger_fee_withdrawal_def)
next
  case (Some ra)
  obtain recipient amount where ra: "ra = (recipient, amount)" by fastforce
  let ?pool = "pool_or_default P u db"
  have "flight_ok P u db (build_withdrawal_batch_userop P (batch_params P u ?pool [(recipient, amount)] m)) (WithdrawFees recipient amount)"
    if "\<not> amount > ps_accrued_fees ?pool" "\<not> amount > ps_balance ?pool" for m
  proof -
    obtain t where "decode_batch_transfer_total P (build_withdrawal_batch_userop P (batch_params P u ?pool [(recipient, amount)] m)) = Ok t"
      "unat t = unat amount"
      using decode_built_batch [of P "batch_params P u ?pool [(recipient, amount)] m"] env unat_bound [of amount]
      by (auto simp: batch_params_def)
    then show ?thesis using that pool_account_of_pool [OF inv]
      by (simp add: flight_ok_def word_eq_unat word_order)
        (simp add: build_withdrawal_batch_userop_def batch_params_def)
  qed
  then show ?thesis using Some ra inv enqueue_inv [OF inv]
    by (auto simp: maybe_trigger_fee_withdrawal_def Let_def)
qed

section \<open>The withdrawal batch\<close>

lemma tally_subset:
  assumes "wf_table rows" and "wf_table t" and "set rows \<subseteq> set t"
  shows "tally g rows \<le> tally g t"
  unfolding tbl.tally_rows [OF assms(1)] tbl.tally_rows [OF assms(2)]
  by (rule sum_mono2) (use assms(3) in auto)

lemma dom_update_subset: "dom (map_of t) \<subseteq> dom (map_of (AList.update k v t))"
  by (simp add: update_conv' subset_insertI)

lemma set_states_dom: "dom (map_of (withdrawal_states db)) \<subseteq> dom (map_of (withdrawal_states (set_states os st db)))"
proof -
  have "dom (map_of t) \<subseteq> dom (map_of (foldl (\<lambda>t out. AList.update out st t) t os))" for t
    by (induction os arbitrary: t) (simp_all, meson dom_update_subset order_trans)
  then show ?thesis by (simp add: set_states_def)
qed

lemma set_states_inv: "usdt_inv P u db issued \<Longrightarrow> usdt_inv P u (set_states os st db) issued"
  by (erule usdt_inv_same) (simp_all add: same_ledger_def set_states_dom)

lemma next_batch_rows:
  assumes "wf_table (unclaimed_withdrawals db)"
  shows "wf_table (next_batch db)" and "set (next_batch db) \<subseteq> set (unclaimed_withdrawals db)"
    and "\<And>out w. (out, w) \<in> set (next_batch db) \<Longrightarrow> map_of (withdrawal_states db) out = Some Queued"
proof -
  let ?q = "sort_key fst (queued_withdrawals db)"
  have q: "distinct (map fst ?q)" "set ?q \<subseteq> set (unclaimed_withdrawals db)"
    using assms by (auto simp: queued_withdrawals_def wf_table_def distinct_map distinct_filter inj_on_def)
  obtain n where n: "next_batch db = take n ?q"
    by (auto simp: next_batch_def Let_def min_def intro: that)
  have sub: "set (next_batch db) \<subseteq> set ?q" unfolding n by (rule set_take_subset)
  show "wf_table (next_batch db)" using q(1) unfolding n wf_table_def take_map [symmetric] by (rule distinct_take)
  show "set (next_batch db) \<subseteq> set (unclaimed_withdrawals db)" using sub q(2) by blast
  show "map_of (withdrawal_states db) out = Some Queued" if "(out, w) \<in> set (next_batch db)" for out w
    using that sub by (auto simp: queued_withdrawals_def)
qed

lemma batch_amount_eq:
  assumes "tally (\<lambda>_ w. unat (w_amount w)) rows < 2 ^ 64"
  shows "unat (batch_amount rows) = tally (\<lambda>_ w. unat (w_amount w)) rows"
proof -
  have "unat (foldl (\<lambda>acc (_, w). saturating_add acc (w_amount w)) acc rows) = unat acc + tally (\<lambda>_ w. unat (w_amount w)) rows"
    if "unat acc + tally (\<lambda>_ w. unat (w_amount w)) rows < 2 ^ 64" for acc
    using that
  proof (induction rows arbitrary: acc)
    case (Cons row rows)
    obtain k w where row: "row = (k, w)" by fastforce
    have "unat (saturating_add acc (w_amount w)) = unat acc + unat (w_amount w)"
      using Cons.prems by (simp add: row saturating_add_def unat_word_ariths)
    then show ?case using Cons.IH [of "saturating_add acc (w_amount w)"] Cons.prems by (simp add: row)
  qed simp
  from this [of 0] assms show ?thesis by (simp add: batch_amount_def)
qed

lemma batch_amounts_bound:
  assumes "usdt_inv P u db issued" and "wf_table rows" and "set rows \<subseteq> set (unclaimed_withdrawals db)"
  shows "tally (\<lambda>_ w. unat (w_amount w) + unat (w_max_fee w)) rows \<le> owed db"
    and "tally (\<lambda>_ w. unat (w_amount w)) rows < 2 ^ 63"
proof -
  show o: "tally (\<lambda>_ w. unat (w_amount w) + unat (w_max_fee w)) rows \<le> owed db"
    using tally_subset [OF assms(2) inv_wf(4) [OF assms(1)] assms(3),
        of "\<lambda>_ w. unat (w_amount w) + unat (w_max_fee w)"]
    by (simp add: owed_def)
  have "tally (\<lambda>_ w. unat (w_amount w)) rows \<le> tally (\<lambda>_ w. unat (w_amount w) + unat (w_max_fee w)) rows"
    by (rule tally_mono) simp
  with o show "tally (\<lambda>_ w. unat (w_amount w)) rows < 2 ^ 63"
    using inv_ledger [OF assms(1)] inv_bound [OF assms(1)] by linarith
qed

lemma tally_rows_amount:
  assumes "wf_table (unclaimed_withdrawals db)" and "set rows \<subseteq> set (unclaimed_withdrawals db)"
  shows "sum_list (map (withdrawal_amount db) (map fst rows)) = tally (\<lambda>_ w. unat (w_amount w)) rows"
    and "\<forall>out\<in>set (map fst rows). map_of (unclaimed_withdrawals db) out \<noteq> None"
proof -
  have m: "map_of (unclaimed_withdrawals db) out = Some w" if "(out, w) \<in> set rows" for out w
    using that assms tbl.get_rows by fastforce
  then show "sum_list (map (withdrawal_amount db) (map fst rows)) = tally (\<lambda>_ w. unat (w_amount w)) rows"
    unfolding tally_def map_map
    by (intro arg_cong [of _ _ sum_list] map_cong) (auto simp: withdrawal_amount_def)
  show "\<forall>out\<in>set (map fst rows). map_of (unclaimed_withdrawals db) out \<noteq> None" using m by auto
qed

lemma batch_flight_ok:
  assumes env: "abi_laws P" and inv: "usdt_inv P u db issued" and wf: "wf_table rows"
    and sub: "set rows \<subseteq> set (unclaimed_withdrawals db)" and bal: "\<not> ps_balance (pool_or_default P u db) < batch_amount rows"
  shows "flight_ok P u db (build_withdrawal_batch_userop P (batch_params P u (pool_or_default P u db)
      (map (\<lambda>(_, w). (w_recipient w, w_amount w)) rows) m)) (Withdraw (map fst rows))"
proof -
  let ?ps = "batch_params P u (pool_or_default P u db) (map (\<lambda>(_, w). (w_recipient w, w_amount w)) rows) m"
  have t: "tally (\<lambda>_ w. unat (w_amount w)) rows < 2 ^ 64" using batch_amounts_bound(2) [OF inv wf sub] by simp
  have ws: "sum_list (map (\<lambda>(_, a). unat a) (wb_withdrawals ?ps)) = tally (\<lambda>_ w. unat (w_amount w)) rows"
    by (simp add: batch_params_def tally_def comp_def split_def)
  obtain paid where "decode_batch_transfer_total P (build_withdrawal_batch_userop P ?ps) = Ok paid"
      "unat paid = tally (\<lambda>_ w. unat (w_amount w)) rows"
    using decode_built_batch [of P ?ps] env t unfolding ws by blast
  moreover have "distinct (map fst rows)" using wf by (simp add: wf_table_def)
  moreover have "unat paid \<le> unat (ps_balance (pool_or_default P u db))"
    using bal calculation(2) batch_amount_eq [OF t] by (simp add: word_order)
  ultimately show ?thesis
    using tally_rows_amount [OF inv_wf(4) [OF inv] sub] pool_account_of_pool [OF inv]
    by (simp add: flight_ok_def del: map_map) (simp add: build_withdrawal_batch_userop_def batch_params_def)
qed

lemma pool_op_hash_new:
  assumes inv: "usdt_inv P u db issued" and idle: "\<not> withdraw_batch_in_flight db" and pool: "sender op = pool_account P u"
    and clear: "hash_clear P u db'" and "(op, purpose) \<in> flights db'" and sub: "submitted_user_ops db' = submitted_user_ops db"
  shows "op_hash_of P u op \<notin> fst ` set (submitted_user_ops db)"
proof
  assume "op_hash_of P u op \<in> fst ` set (submitted_user_ops db)"
  then obtain s where s: "(op_hash_of P u op, s) \<in> set (submitted_user_ops db)" by auto
  then have fl: "(unsigned_op (s_signed s), s_purpose s) \<in> flights db" "(unsigned_op (s_signed s), s_purpose s) \<in> flights db'"
    using sub by (force simp: flights_def)+
  have np: "\<not> is_pool_purpose (s_purpose s)"
    using idle s by (auto simp: withdraw_batch_in_flight_def purpose_in_flight_def list_ex_iff)
  have "sender (unsigned_op (s_signed s)) \<noteq> pool_account P u"
    using inv_flight [OF inv fl(1)] np record_row(1) [OF inv]
    by (auto simp: flight_ok_def is_pool_purpose_def split: UserOpPurpose.splits)
  moreover have "sender op = sender (unsigned_op (s_signed s))"
    using clear assms(5) fl(2) inv_hashes(2) [OF inv s] unfolding hash_clear_def by blast
  ultimately show False using pool by simp
qed

lemma batch_inv:
  assumes env: "abi_laws P" and inv: "usdt_inv P u db issued"
    and ok: "maybe_trigger_withdrawal_batch P u db = Ok db'" and clear: "hash_clear P u db'"
  shows "usdt_inv P u db' issued"
proof -
  let ?b = "next_batch db" and ?pool = "pool_or_default P u db"
  have enq: "usdt_inv P u (build_and_enqueue_withdrawal_batch P u db ?b ?pool blk) issued"
    if idle: "\<not> withdraw_batch_in_flight db" and fits: "\<not> ps_balance ?pool < batch_amount ?b"
      and clear: "hash_clear P u (build_and_enqueue_withdrawal_batch P u db ?b ?pool blk)" for blk
  proof -
    note b = next_batch_rows(1,2) [OF inv_wf(4) [OF inv]]
    let ?db' = "build_and_enqueue_withdrawal_batch P u db ?b ?pool blk"
    let ?op = "build_withdrawal_batch_userop P (batch_params P u ?pool (map (\<lambda>(_, w). (w_recipient w, w_amount w)) ?b) (fee_vote_median P u db))"
    have rows: "pending_user_ops ?db' = AList.update (op_hash_of P u ?op)
        \<lparr>p_op = ?op, p_purpose = Withdraw (map fst ?b), created_block = blk\<rparr> (pending_user_ops db)"
      "submitted_user_ops ?db' = submitted_user_ops db"
      by (simp_all add: build_and_enqueue_withdrawal_batch_def Let_def)
    have fl: "(?op, Withdraw (map fst ?b)) \<in> flights ?db'"
      using tbl.rows_insert [OF inv_wf(2) [OF inv]] by (force simp: flights_def rows)
    have pool: "sender ?op = pool_account P u"
      using pool_account_of_pool [OF inv] by (simp add: build_withdrawal_batch_userop_def batch_params_def)
    note new = pool_op_hash_new [OF inv idle pool clear fl rows(2)]
    from start_session_inv [OF set_states_inv [OF usdt_inv_add_pending [OF inv batch_flight_ok [OF env inv b fits] refl new]]]
    show ?thesis by (simp add: build_and_enqueue_withdrawal_batch_def Let_def)
  qed
  show ?thesis using ok clear inv accelerate_inv [OF env inv] enq
    by (auto simp: maybe_trigger_withdrawal_batch_def Let_def and_then_eq_Ok split: if_splits)
qed

end
