(* ===== verification/Usdt_Conserve.thy ===== *)
theory Usdt_Conserve
  imports Usdt_Ledger
begin

text \<open>
  Every consensus item, input and output keeps the invariant of the USDT server; in every reachable
  state the audit therefore balances.
\<close>

section \<open>Signing and replacement\<close>

lemma flight_ok_core:
  assumes "sender op' = sender op" "op_nonce op' = op_nonce op" "call_data op' = call_data op"
  shows "flight_ok P u db op' purpose = flight_ok P u db op purpose"
  by (simp only: flight_ok_def assms(1,2) decode_call_data [OF assms(3), of P])

lemma pending_flight: "map_of (pending_user_ops db) h = Some p \<Longrightarrow> (p_op p, p_purpose p) \<in> flights db"
  unfolding flights_def by (rule UnI1) (force dest: map_of_SomeD)

lemma submitted_flight: "map_of (submitted_user_ops db) h = Some s \<Longrightarrow> (unsigned_op (s_signed s), s_purpose s) \<in> flights db"
  unfolding flights_def by (rule UnI2) (force dest: map_of_SomeD)

text \<open>Writing a submitted row whose operation fits keeps the invariant.\<close>

lemma usdt_inv_put_submitted:
  assumes inv: "usdt_inv P u db issued" and ok: "flight_ok P u db (unsigned_op (s_signed s)) (s_purpose s)"
    and hash: "h = op_hash_of P u (unsigned_op (s_signed s))" and new: "h \<notin> fst ` set (pending_user_ops db)"
  shows "usdt_inv P u (db\<lparr>submitted_user_ops := AList.update h s (submitted_user_ops db)\<rparr>) issued"
    (is "usdt_inv P u ?db' issued")
proof -
  note wf = inv_wf(3) [OF inv]
  have rows: "set (submitted_user_ops ?db') = insert (h, s) {kv \<in> set (submitted_user_ops db). fst kv \<noteq> h}"
    using tbl.rows_insert [OF wf] by simp
  have same: "same_ledger db ?db'" by (simp add: same_ledger_def)
  have "flights ?db' \<subseteq> insert (unsigned_op (s_signed s), s_purpose s) (flights db)"
    using rows by (auto simp: flights_def image_iff)
  then have "\<forall>(op, purpose)\<in>flights ?db'. flight_ok P u ?db' op purpose"
    using inv_flight [OF inv] ok unfolding same_ledger_flight [OF same, of P u] by blast
  moreover have "usdt_tables_ok P u ?db'"
  proof -
    have "wf_table (submitted_user_ops ?db')" using tbl.wf_insert [OF wf] by simp
    moreover have "fst ` set (submitted_user_ops ?db') \<subseteq> insert h (fst ` set (submitted_user_ops db))" using rows by auto
    then have "fst ` set (pending_user_ops db) \<inter> fst ` set (submitted_user_ops ?db') = {}"
      using inv_disjoint [OF inv] new by blast
    moreover have "\<forall>(h', s)\<in>set (submitted_user_ops ?db'). h' = op_hash_of P u (unsigned_op (s_signed s))"
      using inv_hashes(2) [OF inv] hash rows by auto
    ultimately show ?thesis using inv_tables [OF inv] by (simp add: usdt_tables_ok_def)
  qed
  ultimately show ?thesis using inv same_ledger_sums [OF same] by (simp add: usdt_inv_def)
qed

lemma if_step_frame:
  "(if b then and_then m (\<lambda>n. Ok (f n)) else Ok d) = Ok d' \<Longrightarrow> (\<exists>n. d' = f n) \<or> d' = d"
  by (auto simp: and_then_eq_Ok split: if_split_asm)

lemma mpc_round_frame:
  assumes "process_mpc_round u db item peer = Ok db'"
  shows "same_ledger db db' \<and> pending_user_ops db' = pending_user_ops db \<and> submitted_user_ops db' = submitted_user_ops db \<and>
    withdrawal_states db' = withdrawal_states db"
  using assms unfolding process_mpc_round_def Let_def and_then_eq_Ok
  by (elim exE conjE) (drule if_step_frame, elim disjE exE; hypsubst; simp (no_asm) add: same_ledger_def)

lemma mpc_round_inv:
  assumes "usdt_inv P u db issued" and "process_mpc_round u db item peer = Ok db'"
  shows "usdt_inv P u db' issued"
  using assms(1) by (rule usdt_inv_same) (use mpc_round_frame [OF assms(2)] in simp_all)

lemma rotate_inv:
  assumes "usdt_inv P u db issued" and "process_rotate_signing P u db i = Ok db'"
  shows "usdt_inv P u db' issued"
  using assms(1) by (rule usdt_inv_same)
    (use assms(2) in \<open>auto simp: process_rotate_signing_def Let_def and_then_eq_Ok same_ledger_def\<close>)

text \<open>An accepted signature moves its operation from the pending to the submitted ones.\<close>

lemma signature_result:
  assumes ok: "process_mpc_signature P u db i sig = Ok db'"
  obtains h pending s where "map_of (pending_user_ops db) h = Some pending"
    "unsigned_op (s_signed s) = p_op pending" "s_purpose s = p_purpose pending"
    "same_ledger db db'" "withdrawal_states db' = withdrawal_states db"
    "pending_user_ops db' = AList.delete h (pending_user_ops db)"
    "submitted_user_ops db' = AList.update h s (submitted_user_ops db)"
proof -
  obtain session where session: "map_of (signing_sessions db) i = Some session"
    using ok by (cases "map_of (signing_sessions db) i") (simp_all add: process_mpc_signature_def)
  obtain h where h: "ss_purpose session = PurposeUserOp h" by (cases "ss_purpose session")
  let ?db1 = "db\<lparr>signing_sessions := AList.update i (session\<lparr>ss_state := Completed sig\<rparr>) (signing_sessions db)\<rparr>"
  obtain pending eth_sig where p: "map_of (pending_user_ops db) h = Some pending"
    and db': "db' = remove_session_chunks i (?db1\<lparr>
        submitted_user_ops := AList.update h \<lparr>s_signed = \<lparr>unsigned_op = p_op pending, op_signature = eth_sig\<rparr>, s_purpose = p_purpose pending,
          submitted_block = consensus_block_count u ?db1, superseded = False\<rparr> (submitted_user_ops db),
        pending_user_ops := AList.delete h (pending_user_ops db)\<rparr>)"
    using ok by (auto simp: process_mpc_signature_def session h Let_def and_then_eq_Ok)
  show ?thesis
    by (rule that [OF p, of "\<lparr>s_signed = \<lparr>unsigned_op = p_op pending, op_signature = eth_sig\<rparr>, s_purpose = p_purpose pending,
        submitted_block = consensus_block_count u ?db1, superseded = False\<rparr>"]) (simp_all add: db' same_ledger_def)
qed

lemma signature_inv:
  assumes inv: "usdt_inv P u db issued" and "process_mpc_signature P u db i sig = Ok db'"
  shows "usdt_inv P u db' issued"
proof -
  obtain h pending s where p: "map_of (pending_user_ops db) h = Some pending"
    and s: "unsigned_op (s_signed s) = p_op pending" "s_purpose s = p_purpose pending"
    and db': "same_ledger db db'" "withdrawal_states db' = withdrawal_states db"
      "pending_user_ops db' = AList.delete h (pending_user_ops db)"
      "submitted_user_ops db' = AList.update h s (submitted_user_ops db)"
    using signature_result [OF assms(2)] .
  let ?m = "db'\<lparr>pending_user_ops := AList.delete h (pending_user_ops db), submitted_user_ops := submitted_user_ops db\<rparr>"
  have rows: "set (pending_user_ops ?m) = {kv \<in> set (pending_user_ops db). fst kv \<noteq> h}"
    using tbl.rows_remove [OF inv_wf(2) [OF inv]] by simp
  have "usdt_inv P u ?m issued"
    using inv by (rule usdt_inv_drop)
      (use db' inv_wf [OF inv] rows in \<open>simp_all add: same_ledger_def tbl.wf_remove subset_iff\<close>)
  moreover have "flight_ok P u ?m (unsigned_op (s_signed s)) (s_purpose s)"
    using inv_flight [OF inv pending_flight [OF p]] same_ledger_flight [of db ?m P u] db'(1) s
    by (simp add: same_ledger_def)
  moreover have "h = op_hash_of P u (unsigned_op (s_signed s))"
    using inv_hashes(1) [OF inv map_of_SomeD [OF p]] s by simp
  moreover have "h \<notin> fst ` set (pending_user_ops ?m)" unfolding rows by auto
  ultimately have "usdt_inv P u (?m\<lparr>submitted_user_ops := AList.update h s (submitted_user_ops ?m)\<rparr>) issued"
    by (rule usdt_inv_put_submitted)
  then show ?thesis by (rule usdt_inv_same) (use db' in \<open>simp_all add: same_ledger_def\<close>)
qed

text \<open>A replacement raises the two fee fields of a submitted operation and keeps everything else of it.\<close>

lemma replace_result:
  assumes ok: "process_replace_user_op P u db h = Ok db'"
  obtains s f g new_op where "map_of (submitted_user_ops db) h = Some s"
    "new_op = (unsigned_op (s_signed s))\<lparr>max_fee_per_gas := f, max_priority_fee_per_gas := g\<rparr>"
    "\<not> op_known db (op_hash_of P u new_op)" "same_ledger db db'"
    "withdrawal_states db' = (case s_purpose s of
        Withdraw outs \<Rightarrow> withdrawal_states (set_states outs (Signing (op_hash_of P u new_op)) db) | _ \<Rightarrow> withdrawal_states db)"
    "pending_user_ops db' = AList.update (op_hash_of P u new_op)
        \<lparr>p_op = new_op, p_purpose = s_purpose s, created_block = consensus_block_count u db\<rparr> (pending_user_ops db)"
    "submitted_user_ops db' = AList.update h (s\<lparr>superseded := True\<rparr>) (submitted_user_ops db)"
proof -
  obtain s where s: "map_of (submitted_user_ops db) h = Some s"
    using ok by (cases "map_of (submitted_user_ops db) h") (simp_all add: process_replace_user_op_def)
  obtain median where median: "fee_vote_median P u db = Some median"
    using ok by (auto simp: process_replace_user_op_def and_then_eq_Ok)
  define new_op where "new_op = (unsigned_op (s_signed s))\<lparr>
      max_fee_per_gas := rp_max_fee_per_gas (repriced_user_op_fees (unsigned_op (s_signed s)) median),
      max_priority_fee_per_gas := rp_max_priority_fee_per_gas (repriced_user_op_fees (unsigned_op (s_signed s)) median)\<rparr>"
  note unfold = process_replace_user_op_def s median and_then_eq_Ok Let_def new_op_def [symmetric]
  have new: "\<not> op_known db (op_hash_of P u new_op)"
    using ok by (simp add: unfold)
  have db': "same_ledger db db'"
    "withdrawal_states db' = (case s_purpose s of
        Withdraw outs \<Rightarrow> withdrawal_states (set_states outs (Signing (op_hash_of P u new_op)) db) | _ \<Rightarrow> withdrawal_states db)"
    "pending_user_ops db' = AList.update (op_hash_of P u new_op)
        \<lparr>p_op = new_op, p_purpose = s_purpose s, created_block = consensus_block_count u db\<rparr> (pending_user_ops db)"
    "submitted_user_ops db' = AList.update h (s\<lparr>superseded := True\<rparr>) (submitted_user_ops db)"
    using ok by (cases "s_purpose s"; simp add: unfold same_ledger_def set_states_def; elim conjE; hypsubst; simp)+
  show ?thesis by (rule that [OF s new_op_def new db'])
qed

lemma set_states_dom_purpose:
  "dom (map_of (withdrawal_states db)) \<subseteq> dom (map_of (case p of
     Withdraw outs \<Rightarrow> withdrawal_states (set_states outs st db) | _ \<Rightarrow> withdrawal_states db))"
  by (cases p) (simp_all add: set_states_dom)

lemma replace_inv:
  assumes inv: "usdt_inv P u db issued" and "process_replace_user_op P u db h = Ok db'"
  shows "usdt_inv P u db' issued"
proof -
  obtain s f g new_op where s: "map_of (submitted_user_ops db) h = Some s"
    and new_op: "new_op = (unsigned_op (s_signed s))\<lparr>max_fee_per_gas := f, max_priority_fee_per_gas := g\<rparr>"
    and new: "\<not> op_known db (op_hash_of P u new_op)"
    and db': "same_ledger db db'" "withdrawal_states db' = (case s_purpose s of
        Withdraw outs \<Rightarrow> withdrawal_states (set_states outs (Signing (op_hash_of P u new_op)) db) | _ \<Rightarrow> withdrawal_states db)"
      "pending_user_ops db' = AList.update (op_hash_of P u new_op)
        \<lparr>p_op = new_op, p_purpose = s_purpose s, created_block = consensus_block_count u db\<rparr> (pending_user_ops db)"
      "submitted_user_ops db' = AList.update h (s\<lparr>superseded := True\<rparr>) (submitted_user_ops db)"
    using replace_result [OF assms(2)] .
  have row: "(h, s) \<in> set (submitted_user_ops db)" using s by (rule map_of_SomeD)
  let ?m = "db\<lparr>submitted_user_ops := AList.update h (s\<lparr>superseded := True\<rparr>) (submitted_user_ops db)\<rparr>"
  have m: "usdt_inv P u ?m issued"
    using inv by (rule usdt_inv_put_submitted)
      (use inv_flight [OF inv submitted_flight [OF s]] inv_hashes(2) [OF inv row] inv_disjoint [OF inv] row in \<open>simp_all, force\<close>)
  have "flight_ok P u ?m new_op (s_purpose s)"
    using inv_flight [OF inv submitted_flight [OF s]] flight_ok_core [of new_op "unsigned_op (s_signed s)" P u db]
      same_ledger_flight [of db ?m P u]
    by (simp add: new_op same_ledger_def)
  moreover have "op_hash_of P u new_op \<notin> fst ` set (submitted_user_ops ?m)"
    using new row s by (auto simp: op_known_def dom_map_of_conv_image_fst [symmetric] update_conv')
  ultimately show ?thesis
    using usdt_inv_same [OF usdt_inv_add_pending [OF m _ refl]] db' set_states_dom_purpose by (simp add: same_ledger_def)
qed

section \<open>Confirmed operations\<close>

lemma wf_table_filter: "wf_table t \<Longrightarrow> wf_table (filter Q t)"
  unfolding wf_table_def by (rule distinct_map_filter)

lemma flights_iff:
  "(op, purpose) \<in> flights db \<longleftrightarrow>
     (\<exists>h p. (h, p) \<in> set (pending_user_ops db) \<and> op = p_op p \<and> purpose = p_purpose p) \<or>
     (\<exists>h s. (h, s) \<in> set (submitted_user_ops db) \<and> op = unsigned_op (s_signed s) \<and> purpose = s_purpose s)"
  unfolding flights_def by force

text \<open>
  The handlers of a confirmed operation all change the books of one account, whose operations in flight
  are then dropped: they carry the same sender and nonce as the confirmed one.
\<close>

lemma flight_nonce:
  assumes "flight_ok P u db op purpose" and "flight_ok P u db op' purpose'" and "sender op = sender op'"
    and "\<And>a r. map_of (deposit_records db) a = Some r \<Longrightarrow> a \<noteq> pool_account P u"
  shows "op_nonce op = op_nonce op'"
  using assms by (auto simp: flight_ok_def Let_def split: UserOpPurpose.splits)

text \<open>The database once a confirmed operation is settled and every operation of its account is dropped.\<close>

definition settled_db :: "UnsignedUserOp \<Rightarrow> bytes \<Rightarrow> usdt_db \<Rightarrow> usdt_db" where
  "settled_db op h db1 = purge_user_op_nonce_chain (sender op) (op_nonce op) h (remove_confirmed_votes h
      (db1\<lparr>submitted_user_ops := AList.delete h (submitted_user_ops db1)\<rparr>))"

lemma settled_frame:
  "same_ledger db1 (settled_db op h db1)" "withdrawal_states (settled_db op h db1) = withdrawal_states db1"
  by (simp_all add: settled_db_def same_ledger_def purge_user_op_nonce_chain_def)

lemma settled_rows:
  assumes inv: "usdt_inv P u db issued" and s: "map_of (submitted_user_ops db) h = Some s"
    and ops: "pending_user_ops db1 = pending_user_ops db" "submitted_user_ops db1 = submitted_user_ops db"
  shows "wf_table (pending_user_ops (settled_db op h db1))" "wf_table (submitted_user_ops (settled_db op h db1))"
    and "\<And>h' p. (h', p) \<in> set (pending_user_ops (settled_db op h db1)) \<Longrightarrow>
      (h', p) \<in> set (pending_user_ops db) \<and> \<not> (sender (p_op p) = sender op \<and> op_nonce (p_op p) = op_nonce op)"
    and "\<And>h' s'. (h', s') \<in> set (submitted_user_ops (settled_db op h db1)) \<Longrightarrow> (h', s') \<in> set (submitted_user_ops db) \<and>
      \<not> (sender (unsigned_op (s_signed s')) = sender op \<and> op_nonce (unsigned_op (s_signed s')) = op_nonce op)"
proof -
  have hp: "h \<notin> fst ` set (pending_user_ops db)" using inv_disjoint [OF inv] map_of_SomeD [OF s] by force
  have sub: "submitted_user_ops (settled_db op h db1) = filter (\<lambda>(h', s). \<not> (h' \<noteq> h \<and> sender (unsigned_op (s_signed s)) = sender op \<and>
      op_nonce (unsigned_op (s_signed s)) = op_nonce op)) (AList.delete h (submitted_user_ops db))"
    using inv_wf(3) [OF inv] ops by (simp add: settled_db_def purge_user_op_nonce_chain_def purge_submitted_rows tbl.wf_remove)
  have pend: "pending_user_ops (settled_db op h db1) = filter (\<lambda>(h', p). \<not> (h' \<noteq> h \<and> sender (p_op p) = sender op \<and>
      op_nonce (p_op p) = op_nonce op)) (pending_user_ops db)"
    using inv_wf(2) [OF inv] ops by (simp add: settled_db_def purge_user_op_nonce_chain_def purge_pending_rows)
  show "wf_table (pending_user_ops (settled_db op h db1))" "wf_table (submitted_user_ops (settled_db op h db1))"
    unfolding pend sub using inv_wf(2,3) [OF inv] by (simp_all add: wf_table_filter tbl.wf_remove)
  show "(h', p) \<in> set (pending_user_ops db) \<and> \<not> (sender (p_op p) = sender op \<and> op_nonce (p_op p) = op_nonce op)"
    if "(h', p) \<in> set (pending_user_ops (settled_db op h db1))" for h' p using that hp by (force simp: pend)
  show "(h', s') \<in> set (submitted_user_ops db) \<and>
      \<not> (sender (unsigned_op (s_signed s')) = sender op \<and> op_nonce (unsigned_op (s_signed s')) = op_nonce op)"
    if "(h', s') \<in> set (submitted_user_ops (settled_db op h db1))" for h' s' using that by (auto simp: sub AList.delete_eq)
qed

lemma settled_flights:
  assumes inv: "usdt_inv P u db issued" and s: "map_of (submitted_user_ops db) h = Some s"
    and op: "op = unsigned_op (s_signed s)"
    and ops: "pending_user_ops db1 = pending_user_ops db" "submitted_user_ops db1 = submitted_user_ops db"
    and fl: "(op', purpose') \<in> flights (settled_db op h db1)"
  shows "(op', purpose') \<in> flights db" "sender op' \<noteq> sender op"
proof -
  note here = inv_flight [OF inv submitted_flight [OF s], folded op]
  show "(op', purpose') \<in> flights db" using fl settled_rows [OF inv s ops] unfolding flights_iff by blast
  have "sender op' = sender op \<Longrightarrow> op_nonce op' = op_nonce op"
    by (rule flight_nonce [OF inv_flight [OF inv \<open>(op', purpose') \<in> flights db\<close>] here]) (use record_row(1) [OF inv] in auto)
  then show "sender op' \<noteq> sender op" using fl settled_rows(3,4) [OF inv s ops] unfolding flights_iff by blast
qed

text \<open>The books after a confirmed operation and the removal of every other operation of its account.\<close>

lemma settle_books:
  assumes inv: "usdt_inv P u db issued" and s: "map_of (submitted_user_ops db) h = Some s"
    and op: "op = unsigned_op (s_signed s)"
    and ops: "pending_user_ops db1 = pending_user_ops db" "submitted_user_ops db1 = submitted_user_ops db"
    and others: "\<And>op' purpose'. flight_ok P u db op' purpose' \<Longrightarrow> sender op' \<noteq> sender op \<Longrightarrow> flight_ok P u db1 op' purpose'"
    and tables: "usdt_tables_ok P u db1"
    and sums: "holdings P u db1 = issued + recorded_fees P u db1 + owed db1" "holdings P u db1 < 2 ^ 63"
  shows "usdt_inv P u (settled_db op h db1) issued" (is "usdt_inv P u ?db' issued")
proof -
  note rows = settled_rows [OF inv s ops, where op = op]
  note same = settled_frame [where ?db1.0 = db1 and op = op and h = h]
  have "\<forall>(op', purpose')\<in>flights ?db'. flight_ok P u ?db' op' purpose'"
    using others inv_flight [OF inv] settled_flights [OF inv s op ops] unfolding same_ledger_flight [OF same(1), of P u] by blast
  moreover have "usdt_tables_ok P u ?db'"
  proof -
    have "set (pending_user_ops ?db') \<subseteq> set (pending_user_ops db)" "set (submitted_user_ops ?db') \<subseteq> set (submitted_user_ops db)"
      using rows(3,4) by auto
    then have "fst ` set (pending_user_ops ?db') \<inter> fst ` set (submitted_user_ops ?db') = {}"
      using inv_disjoint [OF inv] by blast
    moreover have "\<forall>(h, p)\<in>set (pending_user_ops ?db'). h = op_hash_of P u (p_op p)"
      "\<forall>(h, s)\<in>set (submitted_user_ops ?db'). h = op_hash_of P u (unsigned_op (s_signed s))"
      using inv_hashes [OF inv] rows(3,4) by blast+
    ultimately show ?thesis using tables same rows(1,2) by (simp add: usdt_tables_ok_def same_ledger_def)
  qed
  ultimately show ?thesis using sums same_ledger_sums [OF same(1)] by (simp add: usdt_inv_def)
qed

lemma flight_ok_transfer:
  assumes "flight_ok P u db op purpose"
    and "map_of (deposit_records db1) (sender op) = map_of (deposit_records db) (sender op)"
    and "sender op = pool_account P u \<Longrightarrow> ps_nonce (pool_or_default P u db1) = ps_nonce (pool_or_default P u db) \<and>
      unat (ps_balance (pool_or_default P u db)) \<le> unat (ps_balance (pool_or_default P u db1)) \<and>
      unat (ps_accrued_fees (pool_or_default P u db)) \<le> unat (ps_accrued_fees (pool_or_default P u db1)) \<and>
      unclaimed_withdrawals db1 = unclaimed_withdrawals db"
  shows "flight_ok P u db1 op purpose"
proof (cases "sender op = pool_account P u")
  case True
  note pool = assms(3) [OF this]
  have "withdrawal_amount db1 = withdrawal_amount db" using pool by (intro ext) (simp add: withdrawal_amount_def)
  then show ?thesis using assms(1,2) pool by (auto simp: flight_ok_def Let_def split: UserOpPurpose.splits)
next
  case False
  then show ?thesis using assms(1,2) by (auto simp: flight_ok_def Let_def split: UserOpPurpose.splits)
qed

text \<open>A change of one deposit record and of the pool, with the fees moved along.\<close>

lemma tally_at:
  assumes "wf_table t" and "map_of t k = Some v"
  shows "tally g (AList.update k v' t) + g k v = tally g t + g k v'"
  using tbl.tally_insert [OF assms(1), of g k v'] assms(2) by simp

lemma record_books:
  assumes inv: "usdt_inv P u db issued" and r: "map_of (deposit_records db) a = Some r"
    and "claimed r' = credited r'" "unat (swept r') \<le> unat (credited r')" "credited r' = credited r"
    and moved: "unat (swept r') = unat (swept r) + moved"
    and pool': "ps_account pool' = pool_account P u" "ps_nonce pool' = ps_nonce (pool_or_default P u db)"
      "unat (ps_balance pool') = unat (ps_balance (pool_or_default P u db)) + moved"
      "unat (ps_accrued_fees pool') + unat (fees_accrued r') = unat (ps_accrued_fees (pool_or_default P u db)) + unat (fees_accrued r)"
      "unat (ps_accrued_fees (pool_or_default P u db)) \<le> unat (ps_accrued_fees pool')"
    and db1: "deposit_records db1 = AList.update a r' (deposit_records db)" "pool_or_default P u db1 = pool'"
      "pool_state_row db1 = Some pool' \<or> pool_state_row db1 = pool_state_row db"
      "pending_user_ops db1 = pending_user_ops db" "submitted_user_ops db1 = submitted_user_ops db"
      "unclaimed_withdrawals db1 = unclaimed_withdrawals db" "refunds db1 = refunds db" "withdrawal_states db1 = withdrawal_states db"
  shows "usdt_tables_ok P u db1" "holdings P u db1 = issued + recorded_fees P u db1 + owed db1" "holdings P u db1 < 2 ^ 63"
    "flight_ok P u db op purpose \<Longrightarrow> sender op \<noteq> a \<Longrightarrow> flight_ok P u db1 op purpose"
proof -
  note wf = inv_wf(1) [OF inv]
  have "\<forall>(a, r)\<in>set (deposit_records db1). a \<noteq> pool_account P u \<and> claimed r = credited r \<and> unat (swept r) \<le> unat (credited r)"
    unfolding db1(1) by (rule tbl.all_rows_insert [OF wf]) (use inv_record [OF inv] record_row [OF inv r] assms(3-5) in auto)
  moreover have "\<forall>pool. pool_state_row db1 = Some pool \<longrightarrow> ps_account pool = pool_account P u"
    using db1(3) pool'(1) inv_pool [OF inv] by auto
  ultimately show "usdt_tables_ok P u db1"
    using inv_tables [OF inv] tbl.wf_insert [OF wf, of a r'] by (simp add: usdt_tables_ok_def db1(1,4-8))
  have h: "holdings P u db1 = holdings P u db"
    using tally_at [OF wf r, of "\<lambda>_ r. unat (credited r) - unat (swept r)" r'] moved pool'(3) assms(4,5)
    by (simp add: holdings_def db1)
  have f: "recorded_fees P u db1 = recorded_fees P u db"
    using tally_at [OF wf r, of "\<lambda>_ r. unat (fees_accrued r)" r'] pool'(4) by (simp add: recorded_fees_def db1)
  show "holdings P u db1 = issued + recorded_fees P u db1 + owed db1" "holdings P u db1 < 2 ^ 63"
    using inv_ledger [OF inv] inv_bound [OF inv] h f by (simp_all add: owed_def db1)
  show "flight_ok P u db op purpose \<Longrightarrow> sender op \<noteq> a \<Longrightarrow> flight_ok P u db1 op purpose"
    by (erule flight_ok_transfer) (use pool' db1 in \<open>simp_all add: update_conv'\<close>)
qed

lemma ledger_bounds:
  assumes inv: "usdt_inv P u db issued"
  shows "unat (ps_balance (pool_or_default P u db)) \<le> holdings P u db"
    and "unat (ps_accrued_fees (pool_or_default P u db)) \<le> recorded_fees P u db"
    and "recorded_fees P u db < 2 ^ 63" and "owed db < 2 ^ 63" and "recorded_fees P u db + owed db < 2 ^ 63"
    and "map_of (deposit_records db) a = Some r \<Longrightarrow>
      unat (ps_balance (pool_or_default P u db)) + (unat (credited r) - unat (swept r)) < 2 ^ 63"
    and "map_of (deposit_records db) a = Some r \<Longrightarrow>
      unat (ps_accrued_fees (pool_or_default P u db)) + unat (fees_accrued r) < 2 ^ 63"
  using inv_ledger [OF inv] inv_bound [OF inv]
    tbl.tally_ge [OF inv_wf(1) [OF inv], of a r "\<lambda>_ r. unat (credited r) - unat (swept r)"]
    tbl.tally_ge [OF inv_wf(1) [OF inv], of a r "\<lambda>_ r. unat (fees_accrued r)"]
  by (simp_all add: holdings_def recorded_fees_def)

lemma sweep_confirmed_inv:
  assumes inv: "usdt_inv P u db issued" and s: "map_of (submitted_user_ops db) h = Some s"
    and purpose: "s_purpose s = DeployAndSweep a" and op: "op = unsigned_op (s_signed s)"
    and eff: "effective_swept P op (s_purpose s) obs = Some moved"
  shows "usdt_inv P u (settled_db op h (apply_sweep_confirmed P u db (sender op) (obs_success obs) moved)) issued"
proof -
  from inv_flight [OF inv submitted_flight [OF s]] obtain r amount where a: "sender op = a"
    and r: "map_of (deposit_records db) a = Some r" and amount: "decode_transfer_amount P op = Ok amount"
    and le: "unat (swept r) + unat amount \<le> unat (credited r)"
    by (auto simp: flight_ok_def purpose op)
  let ?pool = "pool_or_default P u db"
  let ?m = "if obs_success obs then unat moved else 0"
  let ?pool' = "if obs_success obs then ?pool\<lparr>ps_balance := saturating_add (ps_balance ?pool) moved,
      ps_accrued_fees := saturating_add (ps_accrued_fees ?pool) (fees_accrued r)\<rparr> else ?pool"
  let ?r' = "if obs_success obs then r\<lparr>rec_nonce := saturating_add (rec_nonce r) 1,
      swept := min (saturating_add (swept r) moved) (credited r), fees_accrued := 0\<rparr>
    else r\<lparr>rec_nonce := saturating_add (rec_nonce r) 1\<rparr>"
  define db1 where "db1 = apply_sweep_confirmed P u db (sender op) (obs_success obs) moved"
  have moved: "obs_success obs \<Longrightarrow> moved = amount"
    using eff amount by (auto simp: effective_swept_def committed_amount_def purpose split: if_splits)
  have db1: "deposit_records db1 = AList.update a ?r' (deposit_records db)" "pool_or_default P u db1 = ?pool'"
      "pool_state_row db1 = Some ?pool' \<or> pool_state_row db1 = pool_state_row db"
      "pending_user_ops db1 = pending_user_ops db" "submitted_user_ops db1 = submitted_user_ops db"
      "unclaimed_withdrawals db1 = unclaimed_withdrawals db" "refunds db1 = refunds db" "withdrawal_states db1 = withdrawal_states db"
    using r by (simp_all add: db1_def apply_sweep_confirmed_def Let_def a pool_or_default_def)
  have sums: "unat (saturating_add (ps_balance ?pool) amount) = unat (ps_balance ?pool) + unat amount"
    "unat (saturating_add (ps_accrued_fees ?pool) (fees_accrued r)) = unat (ps_accrued_fees ?pool) + unat (fees_accrued r)"
    "unat (saturating_add (swept r) amount) = unat (swept r) + unat amount"
    using ledger_bounds(6,7) [OF inv r] le unat_bound [of "credited r"] by (simp_all add: sat_add_exact)
  have min: "unat (min (saturating_add (swept r) amount) (credited r)) = unat (swept r) + unat amount"
    using sums(3) le by (simp add: min_def word_order)
  have books: "usdt_tables_ok P u db1" "holdings P u db1 = issued + recorded_fees P u db1 + owed db1" "holdings P u db1 < 2 ^ 63"
    "flight_ok P u db op' purpose' \<Longrightarrow> sender op' \<noteq> a \<Longrightarrow> flight_ok P u db1 op' purpose'" for op' purpose'
    by (rule record_books [OF inv r _ _ _ _ _ _ _ _ _ db1, of ?m]; 
        use record_row [OF inv r] pool_account_of_pool [OF inv] moved sums min le in \<open>simp\<close>)+
  show ?thesis unfolding db1_def [symmetric]
    by (rule settle_books [OF inv s op db1(4,5)]) (use books a in auto)
qed

lemma recovery_confirmed_inv:
  assumes inv: "usdt_inv P u db issued" and s: "map_of (submitted_user_ops db) h = Some s"
    and purpose: "s_purpose s = RecoverResidual a" and op: "op = unsigned_op (s_signed s)"
  shows "usdt_inv P u (settled_db op h (apply_recovery_confirmed db a)) issued"
proof -
  from inv_flight [OF inv submitted_flight [OF s]] obtain r where a: "sender op = a" and r: "map_of (deposit_records db) a = Some r"
    by (auto simp: flight_ok_def purpose op)
  define db1 where "db1 = apply_recovery_confirmed db a"
  have db1: "deposit_records db1 = AList.update a (r\<lparr>rec_nonce := saturating_add (rec_nonce r) 1\<rparr>) (deposit_records db)"
      "pool_or_default P u db1 = pool_or_default P u db"
      "pool_state_row db1 = Some (pool_or_default P u db) \<or> pool_state_row db1 = pool_state_row db"
      "pending_user_ops db1 = pending_user_ops db" "submitted_user_ops db1 = submitted_user_ops db"
      "unclaimed_withdrawals db1 = unclaimed_withdrawals db" "refunds db1 = refunds db" "withdrawal_states db1 = withdrawal_states db"
    using r by (simp_all add: db1_def apply_recovery_confirmed_def Let_def pool_or_default_def)
  have books: "usdt_tables_ok P u db1" "holdings P u db1 = issued + recorded_fees P u db1 + owed db1" "holdings P u db1 < 2 ^ 63"
    "flight_ok P u db op' purpose' \<Longrightarrow> sender op' \<noteq> a \<Longrightarrow> flight_ok P u db1 op' purpose'" for op' purpose'
    by (rule record_books [OF inv r _ _ _ _ _ _ _ _ _ db1, of 0];
        use record_row [OF inv r] pool_account_of_pool [OF inv] in \<open>simp\<close>)+
  show ?thesis unfolding db1_def [symmetric]
    by (rule settle_books [OF inv s op db1(4,5)]) (use books a in auto)
qed

section \<open>Confirmed pool operations\<close>

text \<open>A change of the pool, the withdrawals and the refunds that moves nothing between them but what is paid out.\<close>

lemma pool_books:
  assumes inv: "usdt_inv P u db issued"
    and db1: "deposit_records db1 = deposit_records db" "pool_or_default P u db1 = pool'" "pool_state_row db1 = Some pool'"
      "pending_user_ops db1 = pending_user_ops db" "submitted_user_ops db1 = submitted_user_ops db"
    and pool': "ps_account pool' = pool_account P u" "unat (ps_balance pool') \<le> unat (ps_balance (pool_or_default P u db))"
    and wf: "wf_table (unclaimed_withdrawals db1)" "wf_table (refunds db1)"
    and doms: "dom (map_of (unclaimed_withdrawals db1)) \<union> dom (map_of (refunds db1)) \<subseteq> dom (map_of (withdrawal_states db1))"
      "dom (map_of (unclaimed_withdrawals db1)) \<inter> dom (map_of (refunds db1)) = {}"
    and sums: "unat (ps_balance (pool_or_default P u db)) + unat (ps_accrued_fees pool') + owed db1 =
      unat (ps_balance pool') + unat (ps_accrued_fees (pool_or_default P u db)) + owed db"
  shows "usdt_tables_ok P u db1" "holdings P u db1 = issued + recorded_fees P u db1 + owed db1" "holdings P u db1 < 2 ^ 63"
    "flight_ok P u db op purpose \<Longrightarrow> sender op \<noteq> pool_account P u \<Longrightarrow> flight_ok P u db1 op purpose"
proof -
  show "usdt_tables_ok P u db1"
    using inv_tables [OF inv] pool'(1) wf doms by (simp add: usdt_tables_ok_def db1(1,3-5))
  show "holdings P u db1 = issued + recorded_fees P u db1 + owed db1" "holdings P u db1 < 2 ^ 63"
    using inv_ledger [OF inv] inv_bound [OF inv] sums pool'(2) by (simp_all add: holdings_def recorded_fees_def db1(1,2))
  show "flight_ok P u db op purpose \<Longrightarrow> sender op \<noteq> pool_account P u \<Longrightarrow> flight_ok P u db1 op purpose"
    by (erule flight_ok_transfer) (simp_all add: db1(1))
qed

lemma fee_withdrawal_confirmed_inv:
  assumes inv: "usdt_inv P u db issued" and s: "map_of (submitted_user_ops db) h = Some s"
    and purpose: "s_purpose s = WithdrawFees recipient amount" and op: "op = unsigned_op (s_signed s)"
    and eff: "effective_swept P op (s_purpose s) obs = Some moved"
    and ok: "apply_fee_withdrawal_confirmed P u db obs moved = Ok db1"
  shows "usdt_inv P u (settled_db op h db1) issued"
proof -
  from inv_flight [OF inv submitted_flight [OF s]] have a: "sender op = pool_account P u"
    and amount: "decode_batch_transfer_total P op = Ok amount"
    and le: "unat amount \<le> unat (ps_accrued_fees (pool_or_default P u db))" "unat amount \<le> unat (ps_balance (pool_or_default P u db))"
    by (auto simp: flight_ok_def purpose op Let_def)
  have moved: "obs_success obs \<Longrightarrow> moved = amount"
    using eff amount by (auto simp: effective_swept_def committed_amount_def purpose split: if_splits)
  obtain nonce where db1_eq: "db1 = db\<lparr>pool_state_row := Some (if obs_success obs
      then (pool_or_default P u db)\<lparr>ps_nonce := nonce, ps_balance := saturating_sub (ps_balance (pool_or_default P u db)) moved,
        ps_accrued_fees := saturating_sub (ps_accrued_fees (pool_or_default P u db)) moved\<rparr>
      else (pool_or_default P u db)\<lparr>ps_nonce := nonce\<rparr>), withdraw_fees_votes := []\<rparr>" (is "_ = db\<lparr>pool_state_row := Some ?pool', withdraw_fees_votes := _\<rparr>")
    using ok by (auto simp: apply_fee_withdrawal_confirmed_def Let_def and_then_eq_Ok cong del: if_weak_cong)
  have db1: "deposit_records db1 = deposit_records db" "pool_or_default P u db1 = ?pool'" "pool_state_row db1 = Some ?pool'"
      "pending_user_ops db1 = pending_user_ops db" "submitted_user_ops db1 = submitted_user_ops db"
      "unclaimed_withdrawals db1 = unclaimed_withdrawals db" "refunds db1 = refunds db" "withdrawal_states db1 = withdrawal_states db"
    by (simp_all add: db1_eq pool_or_default_def)
  have books: "usdt_tables_ok P u db1" "holdings P u db1 = issued + recorded_fees P u db1 + owed db1" "holdings P u db1 < 2 ^ 63"
    "flight_ok P u db op' purpose' \<Longrightarrow> sender op' \<noteq> pool_account P u \<Longrightarrow> flight_ok P u db1 op' purpose'" for op' purpose'
    by (rule pool_books [OF inv db1(1-5)];
        use pool_account_of_pool [OF inv] inv_wf(4,5) [OF inv] inv_states [OF inv] inv_exclusive [OF inv] moved le
        in \<open>simp add: db1(6-8) owed_def\<close>)+
  show ?thesis by (rule settle_books [OF inv s op db1(4,5)]) (use books a in auto)
qed

lemma tally_deletes:
  assumes "wf_table t" and "distinct ks" and "\<forall>k\<in>set ks. map_of t k \<noteq> None"
  shows "tally g t = tally g (foldl (\<lambda>t k. AList.delete k t) t ks) +
      sum_list (map (\<lambda>k. case map_of t k of None \<Rightarrow> 0 | Some v \<Rightarrow> g k v) ks)"
  using assms
proof (induction ks arbitrary: t)
  case (Cons k ks)
  obtain v where v: "map_of t k = Some v" using Cons.prems(3) by auto
  have look: "map_of (AList.delete k t) k' = map_of t k'" if "k' \<in> set ks" for k'
    using Cons.prems(2) that by (auto simp: delete_conv')
  have "sum_list (map (\<lambda>k'. case map_of (AList.delete k t) k' of None \<Rightarrow> 0 | Some v \<Rightarrow> g k' v) ks) =
      sum_list (map (\<lambda>k'. case map_of t k' of None \<Rightarrow> 0 | Some v \<Rightarrow> g k' v) ks)"
    by (intro arg_cong [of _ _ sum_list] map_cong [OF refl]) (simp add: look)
  moreover have "tally g (AList.delete k t) = tally g (foldl (\<lambda>t k. AList.delete k t) (AList.delete k t) ks) +
      sum_list (map (\<lambda>k'. case map_of (AList.delete k t) k' of None \<Rightarrow> 0 | Some v \<Rightarrow> g k' v) ks)"
    using Cons.prems look by (intro Cons.IH) (auto simp: tbl.wf_remove)
  ultimately show ?case using tbl.tally_remove [OF Cons.prems(1) v, of g] v by simp
qed simp

lemma settle_fields:
  "deposit_records (settle_withdrawals b os db) = deposit_records db"
  "pending_user_ops (settle_withdrawals b os db) = pending_user_ops db"
  "submitted_user_ops (settle_withdrawals b os db) = submitted_user_ops db"
  "pool_state_row (settle_withdrawals b os db) = pool_state_row db"
  "refunds (settle_withdrawals b os db) = refunds db"
  "unclaimed_withdrawals (settle_withdrawals b os db) = foldl (\<lambda>t k. AList.delete k t) (unclaimed_withdrawals db) os"
  "withdrawal_states (settle_withdrawals b os db) = withdrawal_states (set_states os (Confirmed b) db)"
  unfolding settle_withdrawals_def set_states_def
  by (induction os arbitrary: db) simp_all

lemma accrue_fields:
  "same_ledger db (accrue_incurred share os db)"
  "pending_user_ops (accrue_incurred share os db) = pending_user_ops db"
  "submitted_user_ops (accrue_incurred share os db) = submitted_user_ops db"
  "withdrawal_states (accrue_incurred share os db) = withdrawal_states db"
  unfolding accrue_incurred_def same_ledger_def
  by (induction os arbitrary: db) (simp_all add: same_ledger_def)

lemma requeue_fields:
  "same_ledger db (requeue_withdrawals cap os db)"
  "pending_user_ops (requeue_withdrawals cap os db) = pending_user_ops db"
  "submitted_user_ops (requeue_withdrawals cap os db) = submitted_user_ops db"
  "withdrawal_states (requeue_withdrawals cap os db) = withdrawal_states (set_states os Queued db)"
  unfolding requeue_withdrawals_def same_ledger_def set_states_def
  by (induction os arbitrary: db) (simp_all add: same_ledger_def)

definition withdrawal_fee :: "usdt_db \<Rightarrow> OutPoint \<Rightarrow> nat" where
  "withdrawal_fee db out = (case map_of (unclaimed_withdrawals db) out of None \<Rightarrow> 0 | Some w \<Rightarrow> unat (w_max_fee w))"

lemma batch_sums:
  assumes inv: "usdt_inv P u db issued" and outs: "distinct outs" "\<forall>out\<in>set outs. map_of (unclaimed_withdrawals db) out \<noteq> None"
  shows "owed db = owed (settle_withdrawals b outs db) + sum_list (map (withdrawal_amount db) outs) + sum_list (map (withdrawal_fee db) outs)"
    and "unat (batch_fee_total db outs) = sum_list (map (withdrawal_fee db) outs)"
proof -
  have "(case map_of (unclaimed_withdrawals db) k of None \<Rightarrow> 0 | Some w \<Rightarrow> unat (w_amount w) + unat (w_max_fee w)) =
      withdrawal_amount db k + withdrawal_fee db k" for k
    by (simp add: withdrawal_amount_def withdrawal_fee_def split: option.split)
  then show o: "owed db = owed (settle_withdrawals b outs db) + sum_list (map (withdrawal_amount db) outs) + sum_list (map (withdrawal_fee db) outs)"
    using tally_deletes [OF inv_wf(4) [OF inv] outs, of "\<lambda>_ w. unat (w_amount w) + unat (w_max_fee w)"]
    by (simp add: owed_def settle_fields sum_list_addf)
  have "unat (foldl (\<lambda>acc out. case map_of (unclaimed_withdrawals db) out of Some w \<Rightarrow> saturating_add acc (w_max_fee w) | None \<Rightarrow> acc) acc os) =
      unat acc + sum_list (map (withdrawal_fee db) os)" if "unat acc + sum_list (map (withdrawal_fee db) os) < 2 ^ 64" for acc os
    using that
  proof (induction os arbitrary: acc)
    case (Cons out os)
    show ?case
    proof (cases "map_of (unclaimed_withdrawals db) out")
      case None
      then show ?thesis using Cons by (simp add: withdrawal_fee_def)
    next
      case (Some w)
      have "unat (saturating_add acc (w_max_fee w)) = unat acc + unat (w_max_fee w)"
        by (rule sat_add_exact) (use Cons.prems Some in \<open>simp add: withdrawal_fee_def\<close>)
      then show ?thesis using Cons.IH [of "saturating_add acc (w_max_fee w)"] Cons.prems Some by (simp add: withdrawal_fee_def)
    qed
  qed simp
  from this [of 0 outs] show "unat (batch_fee_total db outs) = sum_list (map (withdrawal_fee db) outs)"
    using o ledger_bounds(4) [OF inv] by (simp add: batch_fee_total_def)
qed

lemma foldl_delete_dom: "map_of (foldl (\<lambda>t k. AList.delete k t) t ks) k = (if k \<in> set ks then None else map_of t k)"
  by (induction ks arbitrary: t) (auto simp: delete_conv')

lemma wf_foldl_delete: "wf_table t \<Longrightarrow> wf_table (foldl (\<lambda>t k. AList.delete k t) t ks)"
  by (induction ks arbitrary: t) (simp_all add: tbl.wf_remove)

lemma withdraw_success_books:
  assumes inv: "usdt_inv P u db issued" and outs: "distinct outs" "\<forall>out\<in>set outs. map_of (unclaimed_withdrawals db) out \<noteq> None"
    and paid: "unat paid = sum_list (map (withdrawal_amount db) outs)" "unat paid \<le> unat (ps_balance (pool_or_default P u db))"
    and db1: "db1 = settle_withdrawals b outs (db\<lparr>pool_state_row := Some ((pool_or_default P u db)\<lparr>ps_nonce := nonce,
        ps_balance := saturating_sub (ps_balance (pool_or_default P u db)) paid,
        ps_accrued_fees := saturating_add (ps_accrued_fees (pool_or_default P u db)) (batch_fee_total db outs)\<rparr>)\<rparr>)"
  shows "usdt_tables_ok P u db1" "holdings P u db1 = issued + recorded_fees P u db1 + owed db1" "holdings P u db1 < 2 ^ 63"
    "flight_ok P u db op purpose \<Longrightarrow> sender op \<noteq> pool_account P u \<Longrightarrow> flight_ok P u db1 op purpose"
proof -
  note sums = batch_sums [OF inv outs]
  let ?pool = "pool_or_default P u db"
  let ?pool' = "?pool\<lparr>ps_nonce := nonce, ps_balance := saturating_sub (ps_balance ?pool) paid,
      ps_accrued_fees := saturating_add (ps_accrued_fees ?pool) (batch_fee_total db outs)\<rparr>"
  have acc: "unat (saturating_add (ps_accrued_fees ?pool) (batch_fee_total db outs)) =
      unat (ps_accrued_fees ?pool) + sum_list (map (withdrawal_fee db) outs)"
    using sat_add_exact [of "ps_accrued_fees ?pool" "batch_fee_total db outs"] sums(1) [of b] sums(2) ledger_bounds(2,5) [OF inv] by simp
  have f: "deposit_records db1 = deposit_records db" "pool_or_default P u db1 = ?pool'" "pool_state_row db1 = Some ?pool'"
      "pending_user_ops db1 = pending_user_ops db" "submitted_user_ops db1 = submitted_user_ops db"
    by (simp_all add: db1 settle_fields pool_or_default_def)
  have u: "unclaimed_withdrawals db1 = foldl (\<lambda>t k. AList.delete k t) (unclaimed_withdrawals db) outs" "refunds db1 = refunds db"
    by (simp_all add: db1 settle_fields)
  have o: "owed db1 = owed (settle_withdrawals b outs db)" by (simp add: owed_def u settle_fields)
  have st: "dom (map_of (withdrawal_states db)) \<subseteq> dom (map_of (withdrawal_states db1))"
    using set_states_dom [of "db\<lparr>pool_state_row := Some ?pool'\<rparr>" outs "Confirmed b"] by (simp add: db1 settle_fields)
  have doms: "dom (map_of (unclaimed_withdrawals db1)) \<subseteq> dom (map_of (unclaimed_withdrawals db))"
    unfolding u by (auto simp: foldl_delete_dom split: if_splits)
  have d1: "dom (map_of (unclaimed_withdrawals db1)) \<union> dom (map_of (refunds db1)) \<subseteq> dom (map_of (withdrawal_states db1))"
    using doms st inv_states [OF inv] unfolding u(2) by blast
  have d2: "dom (map_of (unclaimed_withdrawals db1)) \<inter> dom (map_of (refunds db1)) = {}"
    using doms inv_exclusive [OF inv] unfolding u(2) by blast
  have eq: "unat (ps_balance ?pool) + unat (ps_accrued_fees ?pool') + owed db1 =
      unat (ps_balance ?pool') + unat (ps_accrued_fees ?pool) + owed db"
    using acc paid sums(1) [of b] by (simp add: o)
  have acct: "ps_account ?pool' = pool_account P u" "unat (ps_balance ?pool') \<le> unat (ps_balance ?pool)"
    "wf_table (unclaimed_withdrawals db1)" "wf_table (refunds db1)"
    using pool_account_of_pool [OF inv] inv_wf(4,5) [OF inv] by (simp_all add: u wf_foldl_delete)
  show "usdt_tables_ok P u db1" "holdings P u db1 = issued + recorded_fees P u db1 + owed db1" "holdings P u db1 < 2 ^ 63"
    "flight_ok P u db op purpose \<Longrightarrow> sender op \<noteq> pool_account P u \<Longrightarrow> flight_ok P u db1 op purpose"
    by (rule pool_books [OF inv f acct d1 d2 eq], assumption?)+
qed

lemma pool_or_default_Some: "pool_state_row db = Some pool \<Longrightarrow> pool_or_default P u db = pool"
  by (simp add: pool_or_default_def)

lemma withdraw_refund_books:
  assumes inv: "usdt_inv P u db issued" and w: "map_of (unclaimed_withdrawals db) out = Some w"
    and db2: "same_ledger (db\<lparr>pool_state_row := Some ((pool_or_default P u db)\<lparr>ps_nonce := nonce\<rparr>)\<rparr>) db2"
      "pending_user_ops db2 = pending_user_ops db" "submitted_user_ops db2 = submitted_user_ops db"
      "withdrawal_states db2 = withdrawal_states db"
    and db1: "db1 = create_withdrawal_refund P u db2 out reason"
  shows "usdt_tables_ok P u db1" "holdings P u db1 = issued + recorded_fees P u db1 + owed db1" "holdings P u db1 < 2 ^ 63"
    "flight_ok P u db op purpose \<Longrightarrow> sender op \<noteq> pool_account P u \<Longrightarrow> flight_ok P u db1 op purpose"
proof -
  let ?pool = "pool_or_default P u db"
  let ?gross = "saturating_add (w_amount w) (w_max_fee w)"
  define incurred where "incurred = min (case map_of (withdrawal_incurred_fees db2) out of None \<Rightarrow> 0 | Some f \<Rightarrow> f) ?gross"
  let ?pool' = "?pool\<lparr>ps_nonce := nonce, ps_accrued_fees := saturating_add (ps_accrued_fees ?pool) incurred\<rparr>"
  let ?rf = "\<lparr>rf_amount = saturating_sub ?gross incurred, rf_pubkey = w_refund_pubkey w, rf_reason = reason\<rparr>"
  note wf = inv_wf(4,5) [OF inv]
  have same: "deposit_records db2 = deposit_records db" "pool_or_default P u db2 = ?pool\<lparr>ps_nonce := nonce\<rparr>"
      "unclaimed_withdrawals db2 = unclaimed_withdrawals db" "refunds db2 = refunds db"
    using db2(1) by (simp_all add: same_ledger_def pool_or_default_def)
  have f0: "deposit_records db1 = deposit_records db" "pool_state_row db1 = Some ?pool'"
      "pending_user_ops db1 = pending_user_ops db" "submitted_user_ops db1 = submitted_user_ops db"
    and u: "unclaimed_withdrawals db1 = AList.delete out (unclaimed_withdrawals db)" "refunds db1 = AList.update out ?rf (refunds db)"
      "withdrawal_states db1 = AList.update out (Failed reason) (withdrawal_states db)"
    using w by (simp_all add: db1 create_withdrawal_refund_def same db2(2-4) Let_def incurred_def)
  note f = f0(1) pool_or_default_Some [OF f0(2)] f0(2-4)
  have "unat (w_amount w) + unat (w_max_fee w) \<le> owed db"
    using tbl.tally_ge [OF wf(1) w, of "\<lambda>_ w. unat (w_amount w) + unat (w_max_fee w)"] by (simp add: owed_def)
  then have gross: "unat ?gross = unat (w_amount w) + unat (w_max_fee w)" "unat ?gross \<le> owed db"
    using sat_add_exact [of "w_amount w" "w_max_fee w"] ledger_bounds(4) [OF inv] by simp_all
  have inc: "unat incurred \<le> unat ?gross" by (simp add: incurred_def min_def word_order)
  have acc: "unat (saturating_add (ps_accrued_fees ?pool) incurred) = unat (ps_accrued_fees ?pool) + unat incurred"
    using sat_add_exact [of "ps_accrued_fees ?pool" incurred] ledger_bounds(2,5) [OF inv] inc gross(2) by simp
  have none: "map_of (refunds db) out = None" using inv_exclusive [OF inv] w by (auto simp: dom_def)
  have "owed db1 + unat incurred = owed db"
    using tbl.tally_remove [OF wf(1) w, of "\<lambda>_ w. unat (w_amount w) + unat (w_max_fee w)"]
      tbl.tally_insert [OF wf(2), of "\<lambda>_ r. unat (rf_amount r)" out ?rf] none inc gross(1)
    by (simp add: owed_def u)
  then have eq: "unat (ps_balance ?pool) + unat (ps_accrued_fees ?pool') + owed db1 =
      unat (ps_balance ?pool') + unat (ps_accrued_fees ?pool) + owed db"
    using acc by simp
  have d1: "dom (map_of (unclaimed_withdrawals db1)) \<union> dom (map_of (refunds db1)) \<subseteq> dom (map_of (withdrawal_states db1))"
    using inv_states [OF inv] by (auto simp: u update_conv' delete_conv' split: if_splits)
  have d2: "dom (map_of (unclaimed_withdrawals db1)) \<inter> dom (map_of (refunds db1)) = {}"
    using inv_exclusive [OF inv] by (auto simp: u update_conv' delete_conv' split: if_splits)
  have acct: "ps_account ?pool' = pool_account P u" "unat (ps_balance ?pool') \<le> unat (ps_balance ?pool)"
    "wf_table (unclaimed_withdrawals db1)" "wf_table (refunds db1)"
    using pool_account_of_pool [OF inv] wf by (simp_all add: u tbl.wf_insert tbl.wf_remove)
  show "usdt_tables_ok P u db1" "holdings P u db1 = issued + recorded_fees P u db1 + owed db1" "holdings P u db1 < 2 ^ 63"
    "flight_ok P u db op purpose \<Longrightarrow> sender op \<noteq> pool_account P u \<Longrightarrow> flight_ok P u db1 op purpose"
    by (rule pool_books [OF inv f acct d1 d2 eq], assumption?)+
qed

text \<open>An attempt that changes no amount: only the nonce of the pool and the states of the withdrawals move on.\<close>

lemma withdraw_requeue_books:
  assumes inv: "usdt_inv P u db issued"
    and db1: "same_ledger (db\<lparr>pool_state_row := Some ((pool_or_default P u db)\<lparr>ps_nonce := nonce\<rparr>)\<rparr>) db1"
      "pending_user_ops db1 = pending_user_ops db" "submitted_user_ops db1 = submitted_user_ops db"
      "dom (map_of (withdrawal_states db)) \<subseteq> dom (map_of (withdrawal_states db1))"
  shows "usdt_tables_ok P u db1" "holdings P u db1 = issued + recorded_fees P u db1 + owed db1" "holdings P u db1 < 2 ^ 63"
    "flight_ok P u db op purpose \<Longrightarrow> sender op \<noteq> pool_account P u \<Longrightarrow> flight_ok P u db1 op purpose"
proof -
  let ?pool = "pool_or_default P u db"
  have u: "unclaimed_withdrawals db1 = unclaimed_withdrawals db" "refunds db1 = refunds db"
    and f: "deposit_records db1 = deposit_records db" "pool_or_default P u db1 = ?pool\<lparr>ps_nonce := nonce\<rparr>"
      "pool_state_row db1 = Some (?pool\<lparr>ps_nonce := nonce\<rparr>)"
    using db1(1) by (simp_all add: same_ledger_def pool_or_default_def)
  have d: "dom (map_of (unclaimed_withdrawals db1)) \<union> dom (map_of (refunds db1)) \<subseteq> dom (map_of (withdrawal_states db1))"
    using inv_states [OF inv] db1(4) unfolding u by blast
  show "usdt_tables_ok P u db1" "holdings P u db1 = issued + recorded_fees P u db1 + owed db1" "holdings P u db1 < 2 ^ 63"
    "flight_ok P u db op purpose \<Longrightarrow> sender op \<noteq> pool_account P u \<Longrightarrow> flight_ok P u db1 op purpose"
    by (rule pool_books [OF inv f db1(2,3)], assumption?;
      use d inv_wf(4,5) [OF inv] inv_exclusive [OF inv] pool_account_of_pool [OF inv] in \<open>simp add: u owed_def\<close>)+
qed

lemma if_Ok: "(if b then Ok x else Ok y) = Ok z \<longleftrightarrow> z = (if b then x else y)"
  by auto

lemma refund_ops:
  "pending_user_ops (create_withdrawal_refund P u db out reason) = pending_user_ops db"
  "submitted_user_ops (create_withdrawal_refund P u db out reason) = submitted_user_ops db"
  by (simp_all add: create_withdrawal_refund_def Let_def split: option.split)

lemma withdraw_failure_books:
  assumes inv: "usdt_inv P u db issued" and outs: "\<forall>out\<in>set outs. map_of (unclaimed_withdrawals db) out \<noteq> None"
    and db1: "db1 = (let db2 = accrue_incurred share outs (db\<lparr>pool_state_row := Some ((pool_or_default P u db)\<lparr>ps_nonce := nonce\<rparr>)\<rparr>) in
        if length outs \<le> 1 then foldl (\<lambda>d out. create_withdrawal_refund P u d out reason) db2 outs
        else requeue_withdrawals cap outs db2)"
  shows "usdt_tables_ok P u db1" "holdings P u db1 = issued + recorded_fees P u db1 + owed db1" "holdings P u db1 < 2 ^ 63"
    "flight_ok P u db op purpose \<Longrightarrow> sender op \<noteq> pool_account P u \<Longrightarrow> flight_ok P u db1 op purpose"
    "pending_user_ops db1 = pending_user_ops db" "submitted_user_ops db1 = submitted_user_ops db"
proof -
  define db2 where "db2 = accrue_incurred share outs (db\<lparr>pool_state_row := Some ((pool_or_default P u db)\<lparr>ps_nonce := nonce\<rparr>)\<rparr>)"
  have db2: "same_ledger (db\<lparr>pool_state_row := Some ((pool_or_default P u db)\<lparr>ps_nonce := nonce\<rparr>)\<rparr>) db2"
    "pending_user_ops db2 = pending_user_ops db" "submitted_user_ops db2 = submitted_user_ops db" "withdrawal_states db2 = withdrawal_states db"
    unfolding db2_def accrue_fields by (simp_all add: accrue_fields(1))
  consider (none) "outs = []" "db1 = db2" | (one) out w where "db1 = create_withdrawal_refund P u db2 out reason"
      "map_of (unclaimed_withdrawals db) out = Some w"
    | (more) "db1 = requeue_withdrawals cap outs db2"
    using db1 outs unfolding db2_def [symmetric] Let_def
    by (cases outs rule: remdups_adj.cases) auto
  then have "usdt_tables_ok P u db1 \<and> holdings P u db1 = issued + recorded_fees P u db1 + owed db1 \<and> holdings P u db1 < 2 ^ 63 \<and>
    (flight_ok P u db op purpose \<longrightarrow> sender op \<noteq> pool_account P u \<longrightarrow> flight_ok P u db1 op purpose) \<and>
    pending_user_ops db1 = pending_user_ops db \<and> submitted_user_ops db1 = submitted_user_ops db"
  proof cases
    case none
    then show ?thesis using withdraw_requeue_books [OF inv db2(1-3)] db2 by simp
  next
    case one
    from withdraw_refund_books [OF inv one(2) db2 one(1)] show ?thesis using db2 by (simp add: one(1) refund_ops)
  next
    case more
    have "same_ledger (db\<lparr>pool_state_row := Some ((pool_or_default P u db)\<lparr>ps_nonce := nonce\<rparr>)\<rparr>) db1"
      using db2(1) requeue_fields(1) [of db2 cap outs] more by (simp add: same_ledger_def)
    from withdraw_requeue_books [OF inv this] show ?thesis
      using db2 set_states_dom [of db2 outs Queued] by (simp add: more requeue_fields)
  qed
  then show "usdt_tables_ok P u db1" "holdings P u db1 = issued + recorded_fees P u db1 + owed db1" "holdings P u db1 < 2 ^ 63"
    "flight_ok P u db op purpose \<Longrightarrow> sender op \<noteq> pool_account P u \<Longrightarrow> flight_ok P u db1 op purpose"
    "pending_user_ops db1 = pending_user_ops db" "submitted_user_ops db1 = submitted_user_ops db"
    by simp_all
qed

lemma withdraw_confirmed_inv:
  assumes inv: "usdt_inv P u db issued" and s: "map_of (submitted_user_ops db) h = Some s"
    and purpose: "s_purpose s = Withdraw outs" and op: "op = unsigned_op (s_signed s)"
    and eff: "effective_swept P op (s_purpose s) obs = Some moved"
    and ok: "apply_withdraw_confirmed P u db outs obs moved = Ok db1"
  shows "usdt_inv P u (settled_db op h db1) issued"
proof -
  from inv_flight [OF inv submitted_flight [OF s]] obtain paid where a: "sender op = pool_account P u"
    and outs: "distinct outs" "\<forall>out\<in>set outs. map_of (unclaimed_withdrawals db) out \<noteq> None"
    and dec: "decode_batch_transfer_total P op = Ok paid" 
    and paid: "unat paid = sum_list (map (withdrawal_amount db) outs)" "unat paid \<le> unat (ps_balance (pool_or_default P u db))"
    by (auto simp: flight_ok_def purpose op Let_def)
  have moved: "obs_success obs \<Longrightarrow> moved = paid"
    using eff dec by (auto simp: effective_swept_def committed_amount_def purpose split: if_splits)
  let ?pool = "pool_or_default P u db"
  have books: "usdt_tables_ok P u db1 \<and> holdings P u db1 = issued + recorded_fees P u db1 + owed db1 \<and> holdings P u db1 < 2 ^ 63 \<and>
    (\<forall>op' purpose'. flight_ok P u db op' purpose' \<longrightarrow> sender op' \<noteq> pool_account P u \<longrightarrow> flight_ok P u db1 op' purpose') \<and>
    pending_user_ops db1 = pending_user_ops db \<and> submitted_user_ops db1 = submitted_user_ops db"
  proof (cases "obs_success obs")
    case True
    with ok moved obtain nonce where "db1 = settle_withdrawals (obs_block obs) outs (db\<lparr>pool_state_row := Some (?pool\<lparr>ps_nonce := nonce,
        ps_balance := saturating_sub (ps_balance ?pool) paid,
        ps_accrued_fees := saturating_add (ps_accrued_fees ?pool) (batch_fee_total db outs)\<rparr>)\<rparr>)"
      by (auto simp: apply_withdraw_confirmed_def Let_def and_then_eq_Ok)
    from withdraw_success_books [OF inv outs paid this] show ?thesis by (simp add: \<open>db1 = _\<close> settle_fields)
  next
    case False
    obtain nonce share cap where db1: "db1 =
        (let db2 = accrue_incurred share outs (db\<lparr>pool_state_row := Some (?pool\<lparr>ps_nonce := nonce\<rparr>)\<rparr>) in
         if length outs \<le> 1 then foldl (\<lambda>d out. create_withdrawal_refund P u d out REVERTS_WHEN_ISOLATED) db2 outs
         else requeue_withdrawals cap outs db2)"
      using ok False by (auto simp: apply_withdraw_confirmed_def Let_def and_then_eq_Ok if_Ok)
    note fail = withdraw_failure_books [OF inv outs(2) db1]
    show ?thesis using fail by simp
  qed
  show ?thesis by (rule settle_books [OF inv s op]) (use books a in auto)
qed

lemma remove_confirmed_votes_inv: "usdt_inv P u db issued \<Longrightarrow> usdt_inv P u (remove_confirmed_votes h db) issued"
  by (erule usdt_inv_same) (simp_all add: same_ledger_def)

lemma confirmed_cases:
  assumes inv: "usdt_inv P u db issued" and ok: "apply_user_op_confirmed P u db h obs = (Ok db' :: (usdt_db, 'e) result)"
  obtains (unknown) "db' = remove_confirmed_votes h db" | (ignored) "db' = db"
  | (sweep) s a moved where "map_of (submitted_user_ops db) h = Some s" "s_purpose s = DeployAndSweep a"
      "effective_swept P (unsigned_op (s_signed s)) (s_purpose s) obs = Some moved"
      "usdt_inv P u (settled_db (unsigned_op (s_signed s)) h (apply_sweep_confirmed P u db (sender (unsigned_op (s_signed s))) (obs_success obs) moved)) issued"
      "db' = (let db3 = settled_db (unsigned_op (s_signed s)) h (apply_sweep_confirmed P u db (sender (unsigned_op (s_signed s))) (obs_success obs) moved)
        in if obs_success obs then maybe_trigger_sweep P u db3 (sender (unsigned_op (s_signed s))) else db3)"
  | (withdraw) s outs moved db1 where "map_of (submitted_user_ops db) h = Some s" "s_purpose s = Withdraw outs"
      "effective_swept P (unsigned_op (s_signed s)) (s_purpose s) obs = Some moved"
      "apply_withdraw_confirmed P u db outs obs moved = (Ok db1 :: (usdt_db, 'e) result)"
      "usdt_inv P u db' issued" "db' = settled_db (unsigned_op (s_signed s)) h db1"
  | (recovery) s a where "map_of (submitted_user_ops db) h = Some s" "s_purpose s = RecoverResidual a"
      "usdt_inv P u (settled_db (unsigned_op (s_signed s)) h (apply_recovery_confirmed db a)) issued"
      "db' = maybe_trigger_sweep P u (settled_db (unsigned_op (s_signed s)) h (apply_recovery_confirmed db a)) a"
  | (fees) s recipient amount moved db1 where "map_of (submitted_user_ops db) h = Some s" "s_purpose s = WithdrawFees recipient amount"
      "apply_fee_withdrawal_confirmed P u db obs moved = (Ok db1 :: (usdt_db, 'e) result)"
      "usdt_inv P u db' issued" "db' = settled_db (unsigned_op (s_signed s)) h db1"
proof (cases "map_of (submitted_user_ops db) h")
  case None
  then show ?thesis using ok unknown by (auto simp: apply_user_op_confirmed_def)
next
  case (Some s)
  define op where "op = unsigned_op (s_signed s)"
  show ?thesis
  proof (cases "effective_swept P op (s_purpose s) obs")
    case None
    then show ?thesis using ok ignored Some by (auto simp: apply_user_op_confirmed_def op_def)
  next
    case moved: (Some moved)
    note unfold = apply_user_op_confirmed_def Some op_def [symmetric] moved Let_def and_then_eq_Ok settled_db_def [symmetric]
    show ?thesis
    proof (cases "s_purpose s")
      case (DeployAndSweep a)
      from sweep_confirmed_inv [OF inv Some DeployAndSweep op_def moved] sweep [OF Some DeployAndSweep]
      show ?thesis using ok moved by (auto simp: unfold DeployAndSweep moved [unfolded DeployAndSweep])
    next
      case (Withdraw outs)
      from withdraw_confirmed_inv [OF inv Some Withdraw op_def moved] withdraw [OF Some Withdraw]
      show ?thesis using ok moved by (auto simp: unfold Withdraw moved [unfolded Withdraw])
    next
      case (RecoverResidual a)
      from recovery_confirmed_inv [OF inv Some RecoverResidual op_def] recovery [OF Some RecoverResidual]
      show ?thesis using ok by (auto simp: unfold RecoverResidual moved [unfolded RecoverResidual])
    next
      case (WithdrawFees recipient amount)
      from fee_withdrawal_confirmed_inv [OF inv Some WithdrawFees op_def moved] fees [OF Some WithdrawFees]
      show ?thesis using ok by (auto simp: unfold WithdrawFees moved [unfolded WithdrawFees])
    qed
  qed
qed

lemma confirmed_inv:
  assumes env: "abi_laws P" and inv: "usdt_inv P u db issued" and ok: "apply_user_op_confirmed P u db h obs = (Ok db' :: (usdt_db, 'e) result)"
  shows "usdt_inv P u db' issued"
  using inv ok
proof (cases rule: confirmed_cases)
  case unknown
  then show ?thesis using remove_confirmed_votes_inv [OF inv] by simp
next
  case ignored
  then show ?thesis using inv by simp
next
  case sweep
  then show ?thesis using sweep_inv [OF env] by (auto simp: Let_def)
next
  case withdraw
  then show ?thesis by simp
next
  case recovery
  then show ?thesis using sweep_inv [OF env] by simp
next
  case fees
  then show ?thesis by simp
qed

section \<open>Consensus items, inputs and outputs\<close>

lemma usdt_item_inv:
  assumes env: "abi_laws P" and inv: "usdt_inv P u db issued" and ok: "process_item_usdt P u db item peer = Ok db'"
    and clear: "hash_clear P u db'"
  shows "usdt_inv P u db' issued"
proof -
  have ext: "usdt_inv P u d issued" if "same_ledger db d" "pending_user_ops d = pending_user_ops db"
      "submitted_user_ops d = submitted_user_ops db" "withdrawal_states d = withdrawal_states db" for d
    using usdt_inv_same [OF inv that(1-3)] that(4) by simp
  note defs = process_item_usdt_def and_then_eq_Ok Let_def
  show ?thesis
  proof (cases item)
    case (BlockCount v)
    have inv': "usdt_inv P u (db\<lparr>block_count_votes := AList.update peer v (block_count_votes db)\<rparr>) issued"
      by (rule ext) (simp_all add: same_ledger_def)
    have "maybe_trigger_withdrawal_batch P u (db\<lparr>block_count_votes := AList.update peer v (block_count_votes db)\<rparr>) =
        (Ok db' :: (usdt_db, ItemError) result)"
      using ok by (simp add: defs BlockCount)
    from batch_inv [OF env inv' this clear] show ?thesis .
  next
    case (MpcRound x)
    then show ?thesis using ok mpc_round_inv [OF inv] by (simp add: defs)
  next
    case (RotateSigning x)
    then show ?thesis using ok rotate_inv [OF inv] by (simp add: defs)
  next
    case (ReplaceUserOp x)
    then show ?thesis using ok replace_inv [OF inv] by (simp add: defs)
  next
    case (MpcSignature i sig)
    then show ?thesis using ok signature_inv [OF inv] by (simp add: defs)
  next
    case (UserOpConfirmed h obs)
    define d where "d = db\<lparr>user_op_confirmed_votes := AList.update (h, peer) obs (user_op_confirmed_votes db)\<rparr>"
    have "usdt_inv P u d issued" by (rule ext) (simp_all add: d_def same_ledger_def)
    then show ?thesis using ok confirmed_inv [OF env, of u d]
      by (auto simp: defs UserOpConfirmed process_user_op_confirmed_def d_def [symmetric] split: if_splits)
  next
    case (FeeVoteItem v)
    then show ?thesis using ok by (auto simp: defs process_fee_vote_def same_ledger_def intro!: ext)
  next
    case (BootstrapObservationItem v)
    then show ?thesis using ok by (auto simp: defs process_bootstrap_observation_def same_ledger_def intro!: ext)
  next
    case (BlockHash v)
    then show ?thesis using ok by (auto simp: defs process_block_hash_def write_block_hash_ring_def same_ledger_def intro!: ext)
  next
    case (RecoverResidualItem a v)
    then obtain d where "db' = maybe_trigger_residual_recovery P u d a" "d = db\<lparr>recover_residual_votes := AList.update (a, peer) v (recover_residual_votes db)\<rparr>"
      using ok by (auto simp: defs process_recover_residual_def)
    then show ?thesis using residual_inv [OF ext] by (simp add: same_ledger_def)
  next
    case (WithdrawFeesVoteItem v)
    then obtain d where "db' = maybe_trigger_fee_withdrawal P u d" "d = db\<lparr>withdraw_fees_votes := AList.update peer v (withdraw_fees_votes db)\<rparr>"
      using ok by (auto simp: defs process_withdraw_fees_vote_def)
    then show ?thesis using fee_withdrawal_inv [OF env ext] by (simp add: same_ledger_def)
  next
    case (ItemDefault x y)
    then show ?thesis using ok by (simp add: defs)
  qed
qed

end
