(* ===== verification/Usdt_Steps.thy ===== *)
theory Usdt_Steps
  imports Usdt_Conserve Usdt_Demo
begin

text \<open>
  The USDT server as a state machine: consensus items, inputs and outputs in any order, with the e-cash
  the federation issued against them. In every reachable state the audit balances.
\<close>

section \<open>The state machine\<close>

datatype usdt_action =
    ItemAct UsdtConsensusItem PeerId
  | InputAct UsdtInput
  | OutputAct UsdtOutput OutPoint

text \<open>The account of a deposit is not the account of the pool.\<close>

definition account_clear :: "evm_platform \<Rightarrow> Usdt \<Rightarrow> UsdtInput \<Rightarrow> bool" where
  "account_clear P u inp =
     (case inp of DepositProofV0 claim_pk _ _ \<Rightarrow> deposit_account P u claim_pk \<noteq> pool_account P u | _ \<Rightarrow> True)"

text \<open>
  An accepted transaction issues what an input is worth after fees, and takes in what an output costs with
  fees. It cannot take in more than was issued; the out point of an output is used once; and the token
  units on chain, of which fewer than \<open>2 ^ 63\<close> exist, bound what the module holds. The guards on hashes
  and addresses say that this run meets no collision of Keccak-256.
\<close>

inductive usdt_step :: "evm_platform \<Rightarrow> Usdt \<Rightarrow> usdt_db \<times> nat \<Rightarrow> usdt_action \<Rightarrow> usdt_db \<times> nat \<Rightarrow> bool" for P u where
  step_item: "process_item_usdt P u db ci peer = Ok db' \<Longrightarrow> hash_clear P u db' \<Longrightarrow> usdt_step P u (db, issued) (ItemAct ci peer) (db', issued)"
| step_input: "process_input_usdt P u db inp = Ok (db', amounts, pk) \<Longrightarrow> holdings P u db' < 2 ^ 63 \<Longrightarrow> account_clear P u inp \<Longrightarrow>
    usdt_step P u (db, issued) (InputAct inp) (db', issued + unat (ta_amount amounts) - unat (ta_fees amounts))"
| step_output: "process_output_usdt P u db out_item out = Ok (db', amounts) \<Longrightarrow> map_of (withdrawal_states db) out = None \<Longrightarrow>
    unat (ta_amount amounts) + unat (ta_fees amounts) \<le> issued \<Longrightarrow>
    usdt_step P u (db, issued) (OutputAct out_item out) (db', issued - (unat (ta_amount amounts) + unat (ta_fees amounts)))"

inductive_cases usdt_stepE: "usdt_step P u (db, issued) a (db', issued')"

definition usdt_start :: "usdt_db \<times> nat \<Rightarrow> bool" where
  "usdt_start s \<longleftrightarrow> s = (empty_usdt_db, 0)"

definition usdt_reachable :: "evm_platform \<Rightarrow> Usdt \<Rightarrow> usdt_db \<times> nat \<Rightarrow> bool" where
  "usdt_reachable P u = reachable usdt_start (usdt_step P u)"

section \<open>Inputs and outputs\<close>

lemma refund_input_inv:
  assumes inv: "usdt_inv P u db issued" and r: "map_of (refunds db) out = Some r"
  shows "usdt_inv P u (db\<lparr>refunds := AList.delete out (refunds db)\<rparr>) (issued + unat (rf_amount r))"
    (is "usdt_inv P u ?db' _")
proof -
  have d: "dom (map_of (refunds ?db')) \<subseteq> dom (map_of (refunds db))" by (auto simp: delete_conv')
  have "dom (map_of (unclaimed_withdrawals db)) \<union> dom (map_of (refunds ?db')) \<subseteq> dom (map_of (withdrawal_states db))"
    "dom (map_of (unclaimed_withdrawals db)) \<inter> dom (map_of (refunds ?db')) = {}"
    using d inv_states [OF inv] inv_exclusive [OF inv] by blast+
  then have "usdt_tables_ok P u ?db'"
    using inv_tables [OF inv] tbl.wf_remove [OF inv_wf(5) [OF inv], of out] by (simp add: usdt_tables_ok_def)
  moreover have pool: "pool_or_default P u ?db' = pool_or_default P u db" by (simp add: pool_or_default_def)
  have "flight_ok P u ?db' op purpose" if "(op, purpose) \<in> flights ?db'" for op purpose
    using inv_flight [OF inv, of op purpose] that flight_ok_transfer [of P u db op purpose ?db'] pool by (simp add: flights_def)
  moreover have "owed db = owed ?db' + unat (rf_amount r)"
    using tbl.tally_remove [OF inv_wf(5) [OF inv] r, of "\<lambda>_ r. unat (rf_amount r)"] by (simp add: owed_def)
  ultimately show ?thesis
    using inv_ledger [OF inv] inv_bound [OF inv] pool by (auto simp: usdt_inv_def holdings_def recorded_fees_def)
qed

lemma record_or_new:
  assumes inv: "usdt_inv P u db issued" and r: "r = (case map_of (deposit_records db) a of Some r \<Rightarrow> r | None \<Rightarrow> new_deposit_record pk)"
  shows "claimed r = credited r" "unat (swept r) \<le> unat (credited r)"
    "tally (\<lambda>_ r. unat (credited r) - unat (swept r)) (AList.update a r' (deposit_records db)) + (unat (credited r) - unat (swept r)) =
      tally (\<lambda>_ r. unat (credited r) - unat (swept r)) (deposit_records db) + (unat (credited r') - unat (swept r'))"
    "tally (\<lambda>_ r. unat (fees_accrued r)) (AList.update a r' (deposit_records db)) + unat (fees_accrued r) =
      tally (\<lambda>_ r. unat (fees_accrued r)) (deposit_records db) + unat (fees_accrued r')"
    "unat (fees_accrued r) \<le> recorded_fees P u db"
  using record_row(2,3) [OF inv, of a] r ledger_bounds(2) [OF inv]
    tbl.tally_insert [OF inv_wf(1) [OF inv], of "\<lambda>_ r. unat (credited r) - unat (swept r)" a r']
    tbl.tally_insert [OF inv_wf(1) [OF inv], of "\<lambda>_ r. unat (fees_accrued r)" a r']
    tbl.tally_ge [OF inv_wf(1) [OF inv], of a r "\<lambda>_ r. unat (fees_accrued r)"]
  by (auto simp: new_deposit_record_def recorded_fees_def split: option.splits)

lemma deposit_record_inv:
  assumes inv: "usdt_inv P u db issued" and a: "a \<noteq> pool_account P u"
    and r: "r = (case map_of (deposit_records db) a of Some r \<Rightarrow> r | None \<Rightarrow> new_deposit_record pk)"
    and r': "rec_nonce r' = rec_nonce r" "swept r' = swept r" "claimed r' = credited r'" "unat (credited r) \<le> unat (credited r')"
      "unat (fees_accrued r') = unat (fees_accrued r) + fee"
    and fee: "fee \<le> unat (credited r') - unat (credited r)"
    and db': "db' = db\<lparr>deposit_records := AList.update a r' (deposit_records db)\<rparr>" and bound: "holdings P u db' < 2 ^ 63"
  shows "usdt_inv P u db' (issued + (unat (credited r') - unat (credited r)) - fee)"
proof -
  note rr = record_or_new(1,2) [OF inv r] record_or_new(3,4) [OF inv r, of r']
  note wf = inv_wf(1) [OF inv]
  have rows: "\<forall>(a, r)\<in>set (AList.update a r' (deposit_records db)). a \<noteq> pool_account P u \<and> claimed r = credited r \<and> unat (swept r) \<le> unat (credited r)"
    by (rule tbl.all_rows_insert [OF wf]) (use inv_record [OF inv] a r' rr(2) in auto)
  have "usdt_tables_ok P u db'"
    using inv_tables [OF inv] tbl.wf_insert [OF wf, of a r'] rows by (simp add: usdt_tables_ok_def db')
  moreover have "flight_ok P u db' op purpose" if "(op, purpose) \<in> flights db'" for op purpose
  proof -
    have pool: "pool_or_default P u db' = pool_or_default P u db" by (simp add: db' pool_or_default_def)
    have ok: "flight_ok P u db op purpose" using that inv_flight [OF inv] by (simp add: flights_def db')
    show ?thesis
    proof (cases "sender op = a")
      case True
      then show ?thesis using ok a r r' by (auto simp: flight_ok_def Let_def db' update_conv' split: UserOpPurpose.splits)
    next
      case False
      then show ?thesis using flight_ok_transfer [OF ok, of db'] pool by (simp add: db' update_conv')
    qed
  qed
  moreover have "pool_or_default P u db' = pool_or_default P u db" by (simp add: db' pool_or_default_def)
  moreover have "owed db' = owed db" by (simp add: db' owed_def)
  ultimately show ?thesis
    using inv_ledger [OF inv] bound rr(2-4) r' fee unfolding usdt_inv_def
    by (auto simp: holdings_def recorded_fees_def db')
qed

lemma trigger_sweep_ledger: "same_ledger db (maybe_trigger_sweep P u db a)"
  by (simp add: same_ledger_def maybe_trigger_sweep_def enqueue_op_def Let_def split: option.split)

lemma deposit_input_inv:
  assumes inv: "usdt_inv P u db issued" and ok: "process_input_usdt P u db (DepositProofV0 claim_pk dp fee) = Ok (db', amounts, pk)"
    and bound: "holdings P u db' < 2 ^ 63" and clear: "account_clear P u (DepositProofV0 claim_pk dp fee)"
  obtains a r' where "db' = maybe_trigger_sweep P u (db\<lparr>deposit_records := AList.update a r' (deposit_records db)\<rparr>) a"
    "usdt_inv P u (db\<lparr>deposit_records := AList.update a r' (deposit_records db)\<rparr>) (issued + unat (ta_amount amounts) - unat (ta_fees amounts))"
proof -
  define a where "a = deposit_account P u claim_pk"
  define r where "r = (case map_of (deposit_records db) a of Some r \<Rightarrow> r | None \<Rightarrow> new_deposit_record claim_pk)"
  from ok obtain proven where delta: "saturating_sub proven (credited r) \<noteq> 0" "\<not> saturating_sub proven (credited r) \<le> fee"
    and db': "db' = maybe_trigger_sweep P u (db\<lparr>deposit_records := AList.update a (r\<lparr>credited := proven,
        claimed := saturating_add (claimed r) (saturating_sub proven (credited r)), last_observed_block := block_number dp,
        fees_accrued := saturating_add (fees_accrued r) fee\<rparr>) (deposit_records db)\<rparr>) a"
    and amounts: "amounts = \<lparr>ta_amount = saturating_sub proven (credited r), ta_fees = fee\<rparr>"
    unfolding process_input_usdt_def UsdtInput.case process_deposit_proof_def Let_def a_def [symmetric] r_def [symmetric]
    by (auto simp: and_then_eq_Ok)
  define r' where "r' = r\<lparr>credited := proven, claimed := saturating_add (claimed r) (saturating_sub proven (credited r)),
      last_observed_block := block_number dp, fees_accrued := saturating_add (fees_accrued r) fee\<rparr>"
  define db1 where "db1 = db\<lparr>deposit_records := AList.update a r' (deposit_records db)\<rparr>"
  note rr = record_or_new(1,2,5) [OF inv r_def] record_or_new(3) [OF inv r_def, of r']
  have gt: "unat (credited r) < unat proven" "unat fee < unat proven - unat (credited r)"
    using delta by (simp_all add: word_order word_eq_unat)
  have b: "holdings P u db1 < 2 ^ 63"
    using bound same_ledger_sums(1) [OF trigger_sweep_ledger [of db1 P u a], of P u] by (simp add: db' db1_def r'_def)
  have pool: "pool_or_default P u db1 = pool_or_default P u db" by (simp add: db1_def pool_or_default_def)
  have "holdings P u db1 = holdings P u db + (unat proven - unat (credited r))"
    using rr(2,4) gt(1) pool by (simp add: holdings_def db1_def r'_def)
  then have fees: "unat (saturating_add (fees_accrued r) fee) = unat (fees_accrued r) + unat fee"
    using sat_add_exact [of "fees_accrued r" fee] rr(3) b gt(2) inv_ledger [OF inv] by simp
  have claim: "saturating_add (claimed r) (saturating_sub proven (credited r)) = proven"
    using sat_add_exact [of "credited r" "saturating_sub proven (credited r)"] gt(1) unat_bound [of proven]
    unfolding rr(1) by (simp add: word_eq_unat)
  have ac: "a \<noteq> pool_account P u" using clear by (simp add: a_def account_clear_def)
  have "usdt_inv P u db1 (issued + (unat (credited r') - unat (credited r)) - unat fee)"
    by (rule deposit_record_inv [OF inv ac r_def _ _ _ _ _ _ db1_def b]) (use claim fees gt in \<open>simp_all add: r'_def\<close>)
  then show ?thesis using that [of a r'] by (simp add: db' amounts db1_def r'_def)
qed

lemma refund_input_result:
  assumes "process_input_usdt P u db (RefundV0 out) = Ok (db', amounts, pk)"
  obtains r where "map_of (refunds db) out = Some r" "db' = db\<lparr>refunds := AList.delete out (refunds db)\<rparr>"
    "amounts = \<lparr>ta_amount = rf_amount r, ta_fees = 0\<rparr>"
  using assms by (auto simp: process_input_usdt_def and_then_eq_Ok)

lemma usdt_input_inv:
  assumes env: "abi_laws P" and inv: "usdt_inv P u db issued"
    and ok: "process_input_usdt P u db inp = Ok (db', amounts, pk)" and bound: "holdings P u db' < 2 ^ 63" and clear: "account_clear P u inp"
  shows "usdt_inv P u db' (issued + unat (ta_amount amounts) - unat (ta_fees amounts))"
proof (cases inp)
  case (RefundV0 out)
  with refund_input_result [of P u db out] ok obtain r where "map_of (refunds db) out = Some r"
    "db' = db\<lparr>refunds := AList.delete out (refunds db)\<rparr>" "amounts = \<lparr>ta_amount = rf_amount r, ta_fees = 0\<rparr>" by blast
  with refund_input_inv [OF inv] show ?thesis by simp
next
  case (DepositProofV0 claim_pk dp fee)
  from deposit_input_inv [OF inv ok [unfolded this] bound clear [unfolded this]] sweep_inv [OF env] show ?thesis by metis
next
  case (UsdtInputDefault v b)
  then show ?thesis using ok by (simp add: process_input_usdt_def)
qed

lemma usdt_output_result:
  assumes "process_output_usdt P u db item out = Ok (db', amounts)"
  obtains v where "item = UsdtV0 v"
    "db' = db\<lparr>unclaimed_withdrawals := AList.update out \<lparr>w_recipient = out_recipient v, w_amount = out_amount v,
        w_max_fee = out_max_fee v, requested_block = consensus_block_count u db, w_refund_pubkey = out_refund_pubkey v\<rparr>
        (unclaimed_withdrawals db), withdrawal_states := AList.update out Queued (withdrawal_states db)\<rparr>"
    "amounts = \<lparr>ta_amount = out_amount v, ta_fees = out_max_fee v\<rparr>"
proof (cases item)
  case (UsdtV0 v)
  then show ?thesis using that [of v] assms by (auto simp: process_output_usdt_def and_then_eq_Ok)
next
  case (UsdtOutputDefault v b)
  then show ?thesis using assms by (simp add: process_output_usdt_def)
qed

lemma usdt_output_inv:
  assumes inv: "usdt_inv P u db issued" and ok: "process_output_usdt P u db item out = Ok (db', amounts)"
    and fresh: "map_of (withdrawal_states db) out = None" and le: "unat (ta_amount amounts) + unat (ta_fees amounts) \<le> issued"
  shows "usdt_inv P u db' (issued - (unat (ta_amount amounts) + unat (ta_fees amounts)))"
proof -
  from usdt_output_result [OF ok] obtain v where v: "item = UsdtV0 v"
    "db' = db\<lparr>unclaimed_withdrawals := AList.update out \<lparr>w_recipient = out_recipient v, w_amount = out_amount v,
        w_max_fee = out_max_fee v, requested_block = consensus_block_count u db, w_refund_pubkey = out_refund_pubkey v\<rparr>
        (unclaimed_withdrawals db), withdrawal_states := AList.update out Queued (withdrawal_states db)\<rparr>"
    "amounts = \<lparr>ta_amount = out_amount v, ta_fees = out_max_fee v\<rparr>" by blast
  define w where "w = \<lparr>w_recipient = out_recipient v, w_amount = out_amount v,
        w_max_fee = out_max_fee v, requested_block = consensus_block_count u db, w_refund_pubkey = out_refund_pubkey v\<rparr>"
  have w: "unat (w_amount w) = unat (ta_amount amounts)" "unat (w_max_fee w) = unat (ta_fees amounts)"
    by (simp_all add: w_def v(3))
  note db' = v(2) [folded w_def]
  have new: "map_of (unclaimed_withdrawals db) out = None" "map_of (refunds db) out = None"
    using inv_states [OF inv] fresh by (auto simp: dom_def)
  have pool: "pool_or_default P u db' = pool_or_default P u db" by (simp add: db' pool_or_default_def)
  have same: "map_of (unclaimed_withdrawals db') k = map_of (unclaimed_withdrawals db) k"
    if "map_of (unclaimed_withdrawals db) k \<noteq> None" for k using that new by (auto simp: db' update_conv')
  have tables: "usdt_tables_ok P u db'"
    using inv_tables [OF inv] tbl.wf_insert [OF inv_wf(4) [OF inv], of out w] new(2) inv_exclusive [OF inv]
    by (auto simp: usdt_tables_ok_def db' update_conv')
  have fl: "flight_ok P u db' op purpose" if "(op, purpose) \<in> flights db'" for op purpose
  proof -
    have ok: "flight_ok P u db op purpose" using that inv_flight [OF inv] by (simp add: flights_def db')
    have "withdrawal_amount db' k = withdrawal_amount db k" if "map_of (unclaimed_withdrawals db) k \<noteq> None" for k
      using same [OF that] by (simp add: withdrawal_amount_def)
    then have "sum_list (map (withdrawal_amount db') outs) = sum_list (map (withdrawal_amount db) outs)"
      if "\<forall>k\<in>set outs. map_of (unclaimed_withdrawals db) k \<noteq> None" for outs
      using that by (intro arg_cong [of _ _ sum_list] map_cong) auto
    moreover have "deposit_records db' = deposit_records db" by (simp add: db')
    ultimately show ?thesis using ok same pool by (auto simp: flight_ok_def Let_def split: UserOpPurpose.splits)
  qed
  have "owed db' = owed db + unat (ta_amount amounts) + unat (ta_fees amounts)"
    using tbl.tally_insert [OF inv_wf(4) [OF inv], of "\<lambda>_ w. unat (w_amount w) + unat (w_max_fee w)" out w] new w
    by (simp add: owed_def db')
  moreover have "holdings P u db' = holdings P u db" "recorded_fees P u db' = recorded_fees P u db"
    using pool by (simp_all add: holdings_def recorded_fees_def db')
  ultimately show ?thesis
    using inv_ledger [OF inv] inv_bound [OF inv] le tables fl by (auto simp: usdt_inv_def)
qed

section \<open>Conservation\<close>

definition usdt_good :: "evm_platform \<Rightarrow> Usdt \<Rightarrow> usdt_db \<times> nat \<Rightarrow> bool" where
  "usdt_good P u s \<longleftrightarrow> (abi_laws P \<longrightarrow> usdt_inv P u (fst s) (snd s))"

lemma empty_inv: "usdt_inv P u empty_usdt_db 0"
  by (simp add: usdt_inv_def usdt_tables_ok_def empty_usdt_db_def flights_def holdings_def recorded_fees_def owed_def pool_or_default_def)

lemma step_inv_usdt:
  assumes "usdt_step P u (db, issued) a (db', issued')" and "abi_laws P" and "usdt_inv P u db issued"
  shows "usdt_inv P u db' issued'"
  using assms(1)
proof (cases rule: usdt_step.cases)
  case (step_item ci peer)
  then show ?thesis using usdt_item_inv [OF assms(2,3)] by simp
next
  case (step_input inp amounts pk)
  then show ?thesis using usdt_input_inv [OF assms(2,3)] by simp
next
  case (step_output out_item out amounts)
  then show ?thesis using usdt_output_inv [OF assms(3)] by simp
qed

interpretation usdt_sys: guarded_system usdt_start "usdt_step P u" "usdt_good P u" for P u
proof unfold_locales
  fix s assume "usdt_start s"
  then show "usdt_good P u s" by (simp add: usdt_start_def usdt_good_def empty_inv)
next
  fix s l s' assume "usdt_step P u s l s'" "usdt_good P u s"
  then show "usdt_good P u s'" using step_inv_usdt [of P u "fst s" "snd s" l "fst s'" "snd s'"] by (simp add: usdt_good_def)
qed

lemma usdt_reachable_inv: "usdt_reachable P u (db, issued) \<Longrightarrow> abi_laws P \<Longrightarrow> usdt_inv P u db issued"
  using usdt_sys.reachable_inv [of P u "(db, issued)"] by (simp add: usdt_reachable_def usdt_good_def)

lemma i64_exact:
  assumes "unat w < 2 ^ 63"
  shows "i64_or_max w = int (unat w)"
proof -
  have "int (unat w) < int (2 ^ 63)" using assms by (simp only: of_nat_less_iff)
  then show ?thesis by (simp add: i64_or_max_def)
qed

lemma tally_int:
  assumes "\<And>k v. (k, v) \<in> set t \<Longrightarrow> f v = int (g k v)"
  shows "sum_list (map (\<lambda>(_, v). f v) t) = int (tally g t)"
  using assms by (induction t) auto

lemma tally_bound:
  assumes "wf_table t" and "(k, v) \<in> set t" and "tally g t < n"
  shows "g k v < n"
  using tbl.tally_ge [of t k v g] tbl.get_rows [OF assms(1), of k v] assms by auto

lemma audit_sum:
  assumes inv: "usdt_inv P u db issued"
  shows "sum_list (audit_usdt db) = int (holdings P u db) - int (tally (\<lambda>_ w. unat (w_amount w)) (unclaimed_withdrawals db)) -
    int (tally (\<lambda>_ r. unat (rf_amount r)) (refunds db))"
proof -
  note wf = inv_wf [OF inv]
  have b: "tally (\<lambda>_ r. unat (credited r) - unat (swept r)) (deposit_records db) < 2 ^ 63"
    "unat (ps_balance (pool_or_default P u db)) < 2 ^ 63"
    using inv_bound [OF inv] by (simp_all add: holdings_def)
  have o: "tally (\<lambda>_ w. unat (w_amount w) + unat (w_max_fee w)) (unclaimed_withdrawals db) < 2 ^ 63"
    "tally (\<lambda>_ r. unat (rf_amount r)) (refunds db) < 2 ^ 63"
    using ledger_bounds(4) [OF inv] by (simp_all add: owed_def)
  have d: "sum_list (map (\<lambda>(_, v). i64_or_max (saturating_sub (credited v) (swept v))) (deposit_records db)) =
      int (tally (\<lambda>_ r. unat (credited r) - unat (swept r)) (deposit_records db))"
    by (rule tally_int) (use tally_bound [OF wf(1) _ b(1)] in \<open>fastforce simp: i64_exact\<close>)
  have w: "sum_list (map (\<lambda>(_, v). i64_or_max (w_amount v)) (unclaimed_withdrawals db)) =
      int (tally (\<lambda>_ w. unat (w_amount w)) (unclaimed_withdrawals db))"
    by (rule tally_int) (use tally_bound [OF wf(4) _ o(1)] in \<open>fastforce simp: i64_exact\<close>)
  have r: "sum_list (map (\<lambda>(_, v). i64_or_max (rf_amount v)) (refunds db)) = int (tally (\<lambda>_ r. unat (rf_amount r)) (refunds db))"
    by (rule tally_int) (use tally_bound [OF wf(5) _ o(2)] in \<open>fastforce simp: i64_exact\<close>)
  have p: "sum_list (case pool_state_row db of None \<Rightarrow> [] | Some pool \<Rightarrow> [i64_or_max (ps_balance pool)]) =
      int (unat (ps_balance (pool_or_default P u db)))"
    using b(2) by (simp add: pool_or_default_def i64_exact split: option.split_asm option.split)
  have neg: "sum_list (map (\<lambda>(_, v). - f v) t) = - sum_list (map (\<lambda>(_, v). f v :: int) t)" for f and t :: "('k \<times> 'v) list"
    by (induction t) auto
  show ?thesis by (simp add: audit_usdt_def d w r p neg holdings_def)
qed

text \<open>
  C1. Conservation. In every reachable state the audit of the module equals the e-cash that was issued
  and not yet spent, plus the fees the federation recorded, plus the fees paid with withdrawals that are
  still open: whatever mix of deposits, sweeps, replacements, failed batches and refunds happened, the
  federation holds on chain what it owes, to the last unit, and the audit is never negative for it.
\<close>

theorem usdt_conservation:
  assumes "usdt_reachable P u (db, issued)" and "abi_laws P"
  shows "sum_list (audit_usdt db) = int issued + int (recorded_fees P u db) +
    int (tally (\<lambda>_ w. unat (w_max_fee w)) (unclaimed_withdrawals db))"
proof -
  have add: "tally (\<lambda>k v. f k v + g k v) t = tally f t + tally g t" for f g and t :: "('k \<times> 'v) list"
    by (induction t) auto
  show ?thesis
    using audit_sum [OF usdt_reachable_inv [OF assms]] inv_ledger [OF usdt_reachable_inv [OF assms]]
    by (simp add: owed_def add)
qed

section \<open>A run\<close>

definition demo_vote :: FeeVote where
  "demo_vote = \<lparr>max_fee_per_gas_wei = 1000000000, usdt_per_eth_e6 = 2000000000\<rparr>"

definition demo_anchored :: usdt_db where
  "demo_anchored = empty_usdt_db\<lparr>block_count_votes := [(0, 200)],
     fee_votes := [(0, \<lparr>sf_vote = demo_vote, recorded_block = 200\<rparr>)],
     block_hash_votes := [(0, \<lparr>bh_height = 150, bh_hash = [1, 2]\<rparr>)], block_hash_ring := [(150, [1, 2])]\<rparr>"

lemma demo_count: "block_count_votes db = [(0, 200)] \<Longrightarrow> consensus_block_count demo_usdt db = 200"
  by (simp add: consensus_block_count_def demo_usdt_def)

lemma demo_no_flights: "pending_user_ops db = [] \<Longrightarrow> submitted_user_ops db = [] \<Longrightarrow> hash_clear P u db"
  by (simp add: hash_clear_def flights_def)

lemma demo_steps_anchored: "usdt_reachable demo_evm demo_usdt (demo_anchored, 0)"
proof -
  define d1 where "d1 = empty_usdt_db\<lparr>block_count_votes := [(0, 200)]\<rparr>"
  define d2 where "d2 = d1\<lparr>fee_votes := [(0, \<lparr>sf_vote = demo_vote, recorded_block = 200\<rparr>)]\<rparr>"
  have c: "consensus_block_count demo_usdt d1 = 200" "consensus_block_count demo_usdt d2 = 200"
    by (simp_all add: demo_count d1_def d2_def)
  have "usdt_step demo_evm demo_usdt (empty_usdt_db, 0) (ItemAct (BlockCount 200) 0) (d1, 0)"
    by (rule step_item) (simp_all add: and_then_eq_Ok process_item_usdt_def maybe_trigger_withdrawal_batch_def queued_withdrawals_def
      withdraw_batch_in_flight_def purpose_in_flight_def empty_usdt_db_def d1_def demo_no_flights)
  moreover have "usdt_step demo_evm demo_usdt (d1, 0) (ItemAct (FeeVoteItem demo_vote) 0) (d2, 0)"
    by (rule step_item) (simp_all add: and_then_eq_Ok process_item_usdt_def process_fee_vote_def c Let_def d2_def demo_vote_def
      fee_vote_in_sane_range_def MAX_SANE_MAX_FEE_PER_GAS_WEI_def MAX_SANE_USDT_PER_ETH_E6_def demo_no_flights,
      simp_all add: d1_def empty_usdt_db_def demo_no_flights)
  moreover have "usdt_step demo_evm demo_usdt (d2, 0) (ItemAct (BlockHash \<lparr>bh_height = 150, bh_hash = [1, 2]\<rparr>) 0) (demo_anchored, 0)"
    by (rule step_item) (simp_all add: and_then_eq_Ok process_item_usdt_def process_block_hash_def c Let_def demo_threshold
      DEPOSIT_VOTE_MAX_AGE_BLOCKS_def, simp_all add: d1_def d2_def empty_usdt_db_def demo_anchored_def demo_usdt_def demo_no_flights
      write_block_hash_ring_def BLOCK_HASH_RING_LEN_def eval_ops)
  ultimately show ?thesis
    unfolding usdt_reachable_def by (meson reachable.start reachable.step usdt_start_def)
qed

definition demo_proof :: DepositProof where
  "demo_proof = \<lparr>block_number = 150, header_rlp = [1, 2], account_proof = [[9]], storage_proof = [[0x98, 0x96, 0x80]]\<rparr>"

definition demo_record :: DepositRecord where
  "demo_record = \<lparr>rec_claim_pk = [3], credited = 10000000, claimed = 10000000, last_observed_block = 150, swept = 0,
     rec_nonce = 0, fees_accrued = 1920000\<rparr>"

definition demo_deposited :: usdt_db where
  "demo_deposited = maybe_trigger_sweep demo_evm demo_usdt (demo_anchored\<lparr>deposit_records := [(25, demo_record)]\<rparr>) 25"

definition demo_withdrawal :: UsdtOutputV0 where
  "demo_withdrawal = \<lparr>out_recipient = 77, out_amount = 5000000, out_max_fee = 864000, out_refund_pubkey = [5]\<rparr>"

definition demo_queued :: usdt_db where
  "demo_queued = demo_deposited\<lparr>unclaimed_withdrawals := [(OutPoint 1 0, \<lparr>w_recipient = 77, w_amount = 5000000,
       w_max_fee = 864000, requested_block = 200, w_refund_pubkey = [5]\<rparr>)],
     withdrawal_states := [(OutPoint 1 0, Queued)]\<rparr>"

lemma demo_quotes: "deposit_fee_quote demo_vote = Some 1920000" "withdrawal_fee_quote demo_vote = Some 864000"
  by (simp_all add: deposit_fee_quote_def withdrawal_fee_quote_def gas_cost_fee_quote_def demo_vote_def eval_ops
    SWEEP_GAS_UNITS_def MIN_DEPOSIT_FEE_def WITHDRAWAL_GAS_UNITS_def MIN_WITHDRAWAL_FEE_def WITHDRAWAL_FEE_BUFFER_PERCENT_def WEI_PER_ETH_def)

lemma demo_median:
  assumes "fee_votes db = fee_votes demo_anchored" and "block_count_votes db = block_count_votes demo_anchored"
  shows "fee_vote_median demo_evm demo_usdt db = Some demo_vote"
proof -
  have "consensus_block_count demo_usdt db = 200" by (rule demo_count) (simp add: assms(2) demo_anchored_def)
  then show ?thesis
    using assms(1) by (simp add: fee_vote_median_def fresh_fee_votes_def demo_threshold demo_anchored_def eval_ops FEE_VOTE_TTL_BLOCKS_def)
qed

lemma demo_proven: "verify_deposit_proof demo_evm demo_proof [1, 2] c a = Ok 10000000"
  by (simp add: verify_deposit_proof_def and_then_eq_Ok demo_proof_def encoded_len_bytes_def MAX_DEPOSIT_PROOF_BYTES_def
    proven_value_def terminal_leaf_value_def demo_evm_def of_be_bytes_def eval_ops ensure_def)

lemma demo_ring: "ring_hash_at demo_anchored 150 = Some [1, 2]" "deposit_records demo_anchored = []"
  "block_number demo_proof = 150"
  by (simp_all add: ring_hash_at_def demo_anchored_def demo_proof_def empty_usdt_db_def)

lemma demo_holdings: "holdings P u demo_deposited = 10000000"
proof -
  have "same_ledger (demo_anchored\<lparr>deposit_records := [(25, demo_record)]\<rparr>) demo_deposited"
    unfolding demo_deposited_def by (rule trigger_sweep_ledger)
  from same_ledger_sums(1) [OF this, of P u] show ?thesis
    by (simp add: holdings_def demo_record_def pool_or_default_def demo_anchored_def empty_usdt_db_def)
qed

lemma demo_step_deposit:
  "usdt_step demo_evm demo_usdt (demo_anchored, 0) (InputAct (DepositProofV0 [3] demo_proof 1920000)) (demo_deposited, 8080000)"
proof -
  have "process_input_usdt demo_evm demo_usdt demo_anchored (DepositProofV0 [3] demo_proof 1920000) =
      Ok (demo_deposited, \<lparr>ta_amount = 10000000, ta_fees = 1920000\<rparr>, [3])"
    by (simp add: process_input_usdt_def process_deposit_proof_def and_then_eq_Ok demo_ring demo_proven demo_median demo_quotes
      demo_accounts Let_def new_deposit_record_def eval_ops demo_deposited_def demo_record_def)
  from step_input [OF this, of 0] show ?thesis
    by (simp add: demo_holdings account_clear_def demo_accounts)
qed

lemma demo_step_withdraw:
  "usdt_step demo_evm demo_usdt (demo_deposited, 8080000) (OutputAct (UsdtV0 demo_withdrawal) (OutPoint 1 0)) (demo_queued, 2216000)"
proof -
  have f: "unclaimed_withdrawals demo_deposited = []" "withdrawal_states demo_deposited = []"
    "fee_votes demo_deposited = fee_votes demo_anchored" "block_count_votes demo_deposited = block_count_votes demo_anchored"
    by (simp_all add: demo_deposited_def maybe_trigger_sweep_def enqueue_op_def start_session_def demo_anchored_def
      empty_usdt_db_def Let_def split: option.split)
  have "consensus_block_count demo_usdt demo_deposited = 200" by (rule demo_count) (simp add: f demo_anchored_def)
  then have "process_output_usdt demo_evm demo_usdt demo_deposited (UsdtV0 demo_withdrawal) (OutPoint 1 0) =
      Ok (demo_queued, \<lparr>ta_amount = 5000000, ta_fees = 864000\<rparr>)"
    by (simp add: process_output_usdt_def and_then_eq_Ok demo_median f demo_quotes demo_withdrawal_def demo_queued_def)
  from step_output [OF this, of 8080000] show ?thesis by (simp add: f)
qed

lemma demo_deposited_reachable: "usdt_reachable demo_evm demo_usdt (demo_deposited, 8080000)"
  using demo_steps_anchored demo_step_deposit unfolding usdt_reachable_def by (meson reachable.step)

lemma demo_queued_reachable: "usdt_reachable demo_evm demo_usdt (demo_queued, 2216000)"
  using demo_deposited_reachable demo_step_withdraw unfolding usdt_reachable_def by (meson reachable.step)

theorem usdt_conservation_witness:
  "usdt_reachable demo_evm demo_usdt (demo_queued, 2216000) \<and> abi_laws demo_evm \<and>
   sum_list (audit_usdt demo_queued) = 2216000 + int (recorded_fees demo_evm demo_usdt demo_queued) + 864000"
  using usdt_conservation [OF demo_queued_reachable demo_abi_laws] demo_queued_reachable demo_abi_laws
  by (simp add: demo_queued_def)

end
