(* ===== verification/Usdt_Run.thy ===== *)
theory Usdt_Run
  imports Usdt_Steps
begin

text \<open>
  A complete run of the USDT server: a deposit is proven and swept to the pool, a withdrawal of it is
  batched, its transfer reverts on chain, and the withdrawal is refunded to the last unit.
\<close>

definition demo_sweep :: UnsignedUserOp where
  "demo_sweep = build_deploy_and_sweep_userop demo_evm (sweep_params demo_evm demo_usdt 25 demo_record 10000000 demo_vote)"

definition demo_session :: "UnsignedUserOp \<Rightarrow> u64 \<Rightarrow> SessionState \<Rightarrow> SigningSession" where
  "demo_session op block st =
     \<lparr>ss_purpose = PurposeUserOp (op_hash_of demo_evm demo_usdt op), ss_digest = eth_signed_message_hash demo_evm (op_hash_of demo_evm demo_usdt op),
      ss_signers = signer_subset demo_evm demo_usdt (eth_signed_message_hash demo_evm (op_hash_of demo_evm demo_usdt op)) 0,
      ss_round = 0, ss_state = st, ss_attempt = 0, last_progress_block = block\<rparr>"

definition demo_sid :: "UnsignedUserOp \<Rightarrow> bytes" where
  "demo_sid op = signing_session_id demo_evm (eth_signed_message_hash demo_evm (op_hash_of demo_evm demo_usdt op)) 0"

definition demo_sig :: bytes where
  "demo_sig = replicate 64 1"

lemma demo_sid_inject: "demo_sid op = demo_sid op' \<longleftrightarrow> op_hash_of demo_evm demo_usdt op = op_hash_of demo_evm demo_usdt op'"
  by (simp add: demo_sid_def signing_session_id_def eth_signed_message_hash_def demo_evm_def)

lemma demo_hash_eq:
  assumes "op_hash_of demo_evm demo_usdt op = op_hash_of demo_evm demo_usdt op'"
  shows "sender op = sender op' \<and> max_fee_per_gas op = max_fee_per_gas op'"
proof -
  have k: "keccak256 demo_evm x = x" for x by (simp add: demo_evm_def)
  from assms show ?thesis unfolding op_hash_of_def user_op_hash_def Let_def k demo_hash_inject pack_inject by blast
qed

lemma demo_hash_sender: "op_hash_of demo_evm demo_usdt op = op_hash_of demo_evm demo_usdt op' \<Longrightarrow> sender op = sender op'"
  using demo_hash_eq by blast

lemma demo_clear: "hash_clear demo_evm demo_usdt db"
  unfolding hash_clear_def using demo_hash_sender by blast

lemma demo_deposited_eq:
  "demo_deposited = demo_anchored\<lparr>deposit_records := [(25, demo_record)],
     pending_user_ops := [(op_hash_of demo_evm demo_usdt demo_sweep, \<lparr>p_op = demo_sweep, p_purpose = DeployAndSweep 25, created_block = 200\<rparr>)],
     signing_sessions := [(demo_sid demo_sweep, demo_session demo_sweep 200 InProgress)]\<rparr>"
proof -
  let ?d = "demo_anchored\<lparr>deposit_records := [(25, demo_record)]\<rparr>"
  have m: "fee_vote_median demo_evm demo_usdt ?d = Some demo_vote" by (rule demo_median) simp_all
  have c: "consensus_block_count demo_usdt d = 200" if "block_count_votes d = block_count_votes demo_anchored" for d
    by (rule demo_count) (simp add: that demo_anchored_def)
  have f: "pending_user_ops demo_anchored = []" "submitted_user_ops demo_anchored = []" "signing_sessions demo_anchored = []"
    by (simp_all add: demo_anchored_def empty_usdt_db_def)
  have r: "saturating_sub (credited demo_record) (swept demo_record) = 10000000" by (simp add: demo_record_def eval_ops)
  show ?thesis
    by (simp add: demo_deposited_def maybe_trigger_sweep_def r m demo_quotes deploy_and_sweep_in_flight_def
        residual_recovery_in_flight_def purpose_in_flight_def f op_known_def Let_def demo_sweep_def [symmetric] enqueue_op_def
        start_session_def demo_sid_def demo_session_def c)
qed

section \<open>The sweep\<close>

definition demo_submitted :: "UnsignedUserOp \<Rightarrow> UserOpPurpose \<Rightarrow> u64 \<Rightarrow> SubmittedUserOp" where
  "demo_submitted op purpose block = \<lparr>s_signed = \<lparr>unsigned_op = op, op_signature = demo_sig @ [27]\<rparr>, s_purpose = purpose,
     submitted_block = block, superseded = False\<rparr>"

lemma demo_assemble: "assemble_eth_signature demo_evm demo_sig digest (evm_address demo_evm (group_public_key (usdt_cfg demo_usdt))) = Some (demo_sig @ [27])"
  by (simp add: assemble_eth_signature_def demo_evm_def demo_usdt_def)

lemma demo_sign:
  assumes "map_of (signing_sessions db) (demo_sid op) = Some (demo_session op block InProgress)"
    and "map_of (pending_user_ops db) (op_hash_of demo_evm demo_usdt op) = Some p" and "p_op p = op"
    and "mpc_round_chunks db = []" and "consensus_block_count demo_usdt db = count"
  shows "usdt_step demo_evm demo_usdt (db, n) (ItemAct (MpcSignature (demo_sid op) demo_sig) 0)
    (db\<lparr>signing_sessions := AList.update (demo_sid op) (demo_session op block (Completed demo_sig)) (signing_sessions db),
        submitted_user_ops := AList.update (op_hash_of demo_evm demo_usdt op) (demo_submitted op (p_purpose p) count) (submitted_user_ops db),
        pending_user_ops := AList.delete (op_hash_of demo_evm demo_usdt op) (pending_user_ops db), mpc_round_chunks := []\<rparr>, n)"
proof (rule step_item [OF _ demo_clear])
  have v: "verify_ecdsa demo_evm a b c" "is_compact_signature demo_evm demo_sig" "length demo_sig = 64" for a b c
    by (simp_all add: demo_evm_def demo_sig_def)
  have c: "consensus_block_count demo_usdt (db\<lparr>signing_sessions := x\<rparr>) = count" for x
    using assms(5) by (simp add: consensus_block_count_def)
  show "process_item_usdt demo_evm demo_usdt db (MpcSignature (demo_sid op) demo_sig) 0 = Ok
    (db\<lparr>signing_sessions := AList.update (demo_sid op) (demo_session op block (Completed demo_sig)) (signing_sessions db),
        submitted_user_ops := AList.update (op_hash_of demo_evm demo_usdt op) (demo_submitted op (p_purpose p) count) (submitted_user_ops db),
        pending_user_ops := AList.delete (op_hash_of demo_evm demo_usdt op) (pending_user_ops db), mpc_round_chunks := []\<rparr>)"
    using assms by (simp add: process_item_usdt_def process_mpc_signature_def demo_session_def v demo_assemble c
        remove_session_chunks_def demo_submitted_def Let_def ensure_def)
qed

definition demo_obs :: "bool \<Rightarrow> u64 \<Rightarrow> UserOpConfirmedObservation" where
  "demo_obs success moved = \<lparr>obs_success = success, obs_block = 190, obs_block_hash = [1, 2], obs_swept = moved, obs_actual_gas_cost_wei = 0\<rparr>"

definition demo_signed :: usdt_db where
  "demo_signed = demo_queued\<lparr>signing_sessions := [(demo_sid demo_sweep, demo_session demo_sweep 200 (Completed demo_sig))],
     submitted_user_ops := [(op_hash_of demo_evm demo_usdt demo_sweep, demo_submitted demo_sweep (DeployAndSweep 25) 200)],
     pending_user_ops := [], mpc_round_chunks := []\<rparr>"

definition demo_swept :: usdt_db where
  "demo_swept = demo_signed\<lparr>deposit_records := [(25, demo_record\<lparr>swept := 10000000, rec_nonce := 1, fees_accrued := 0\<rparr>)],
     pool_state_row := Some \<lparr>ps_account = 21, ps_balance = 10000000, ps_nonce = 0, ps_accrued_fees = 1920000\<rparr>,
     submitted_user_ops := [], user_op_confirmed_votes := []\<rparr>"

lemma demo_queued_fields:
  "signing_sessions demo_queued = [(demo_sid demo_sweep, demo_session demo_sweep 200 InProgress)]"
  "pending_user_ops demo_queued = [(op_hash_of demo_evm demo_usdt demo_sweep, \<lparr>p_op = demo_sweep, p_purpose = DeployAndSweep 25, created_block = 200\<rparr>)]"
  "submitted_user_ops demo_queued = []" "mpc_round_chunks demo_queued = []" "user_op_confirmed_votes demo_queued = []"
  "pool_state_row demo_queued = None" "deposit_records demo_queued = [(25, demo_record)]" "block_count_votes demo_queued = [(0, 200)]"
  "withdrawal_incurred_fees demo_queued = []" "withdrawal_batch_caps demo_queued = []" "refunds demo_queued = []"
  by (simp_all add: demo_queued_def demo_deposited_eq demo_anchored_def empty_usdt_db_def)

lemma demo_step_sign: "usdt_step demo_evm demo_usdt (demo_queued, n) (ItemAct (MpcSignature (demo_sid demo_sweep) demo_sig) 0) (demo_signed, n)"
proof -
  let ?p = "\<lparr>p_op = demo_sweep, p_purpose = DeployAndSweep 25, created_block = 200\<rparr>"
  have "consensus_block_count demo_usdt demo_queued = 200" by (rule demo_count) (simp add: demo_queued_fields)
  from demo_sign [where op = demo_sweep and p = ?p, OF _ _ _ _ this] show ?thesis
    by (simp add: demo_queued_fields demo_signed_def)
qed

lemma demo_sweep_fields: "sender demo_sweep = 25" "decode_transfer_amount demo_evm demo_sweep = Ok 10000000"
  using decode_built_sweep [OF demo_abi_laws, of "sweep_params demo_evm demo_usdt 25 demo_record 10000000 demo_vote"]
  by (simp_all add: demo_sweep_def build_deploy_and_sweep_userop_def sweep_params_def)

lemma demo_confirm:
  assumes "map_of (submitted_user_ops db) h = Some s" and "user_op_confirmed_votes db = []"
    and "apply_user_op_confirmed demo_evm demo_usdt (db\<lparr>user_op_confirmed_votes := [((h, 0), obs)]\<rparr>) h obs = (Ok db' :: (usdt_db, ItemError) result)"
  shows "usdt_step demo_evm demo_usdt (db, n) (ItemAct (UserOpConfirmed h obs) 0) (db', n)"
  using assms by (intro step_item demo_clear)
    (simp add: process_item_usdt_def process_user_op_confirmed_def ensure_def Let_def demo_threshold)

lemma demo_step_sweep:
  "usdt_step demo_evm demo_usdt (demo_signed, n)
     (ItemAct (UserOpConfirmed (op_hash_of demo_evm demo_usdt demo_sweep) (demo_obs True 10000000)) 0) (demo_swept, n)"
proof (rule demo_confirm)
  show "map_of (submitted_user_ops demo_signed) (op_hash_of demo_evm demo_usdt demo_sweep) = Some (demo_submitted demo_sweep (DeployAndSweep 25) 200)"
    "user_op_confirmed_votes demo_signed = []" by (simp_all add: demo_signed_def demo_queued_fields)
  show "apply_user_op_confirmed demo_evm demo_usdt (demo_signed\<lparr>user_op_confirmed_votes :=
      [((op_hash_of demo_evm demo_usdt demo_sweep, 0), demo_obs True 10000000)]\<rparr>)
      (op_hash_of demo_evm demo_usdt demo_sweep) (demo_obs True 10000000) = (Ok demo_swept :: (usdt_db, ItemError) result)"
    by (simp add: apply_user_op_confirmed_def demo_signed_def demo_submitted_def effective_swept_def demo_obs_def committed_amount_def
        demo_sweep_fields apply_sweep_confirmed_def demo_queued_fields pool_or_default_def Let_def demo_accounts demo_record_def
        eval_ops remove_confirmed_votes_def purge_user_op_nonce_chain_def purge_submitted_def purge_pending_def
        maybe_trigger_sweep_def demo_swept_def)
qed

section \<open>The withdrawal\<close>

definition demo_payout :: UnsignedUserOp where
  "demo_payout = build_withdrawal_batch_userop demo_evm (batch_params demo_evm demo_usdt
     \<lparr>ps_account = 21, ps_balance = 10000000, ps_nonce = 0, ps_accrued_fees = 1920000\<rparr> [(77, 5000000)]
     (fee_vote_median demo_evm demo_usdt (demo_swept\<lparr>block_count_votes := [(0, 320)]\<rparr>)))"

definition demo_batched :: usdt_db where
  "demo_batched = demo_swept\<lparr>block_count_votes := [(0, 320)],
     pending_user_ops := [(op_hash_of demo_evm demo_usdt demo_payout,
       \<lparr>p_op = demo_payout, p_purpose = Withdraw [OutPoint 1 0], created_block = 320\<rparr>)],
     withdrawal_states := [(OutPoint 1 0, Signing (op_hash_of demo_evm demo_usdt demo_payout))],
     signing_sessions := signing_sessions demo_swept @ [(demo_sid demo_payout, demo_session demo_payout 320 InProgress)]\<rparr>"

definition demo_paying :: usdt_db where
  "demo_paying = demo_batched\<lparr>
     signing_sessions := signing_sessions demo_swept @ [(demo_sid demo_payout, demo_session demo_payout 320 (Completed demo_sig))],
     submitted_user_ops := [(op_hash_of demo_evm demo_usdt demo_payout, demo_submitted demo_payout (Withdraw [OutPoint 1 0]) 320)],
     pending_user_ops := [], mpc_round_chunks := []\<rparr>"

definition demo_reverted :: usdt_db where
  "demo_reverted = demo_paying\<lparr>
     pool_state_row := Some \<lparr>ps_account = 21, ps_balance = 10000000, ps_nonce = 1, ps_accrued_fees = 1920000\<rparr>,
     unclaimed_withdrawals := [], withdrawal_states := [(OutPoint 1 0, Failed REVERTS_WHEN_ISOLATED)],
     refunds := [(OutPoint 1 0, \<lparr>rf_amount = 5864000, rf_pubkey = [5], rf_reason = REVERTS_WHEN_ISOLATED\<rparr>)],
     withdrawal_incurred_fees := [], withdrawal_batch_caps := [], submitted_user_ops := [], user_op_confirmed_votes := []\<rparr>"

lemma demo_swept_fields:
  "signing_sessions demo_swept = [(demo_sid demo_sweep, demo_session demo_sweep 200 (Completed demo_sig))]"
  "pending_user_ops demo_swept = []" "submitted_user_ops demo_swept = []" "mpc_round_chunks demo_swept = []"
  "user_op_confirmed_votes demo_swept = []" "block_count_votes demo_swept = [(0, 200)]"
  "pool_state_row demo_swept = Some \<lparr>ps_account = 21, ps_balance = 10000000, ps_nonce = 0, ps_accrued_fees = 1920000\<rparr>"
  "unclaimed_withdrawals demo_swept = [(OutPoint 1 0, \<lparr>w_recipient = 77, w_amount = 5000000,
       w_max_fee = 864000, requested_block = 200, w_refund_pubkey = [5]\<rparr>)]"
  "withdrawal_states demo_swept = [(OutPoint 1 0, Queued)]"
  "withdrawal_incurred_fees demo_swept = []" "withdrawal_batch_caps demo_swept = []" "refunds demo_swept = []"
  by (simp_all add: demo_swept_def demo_signed_def demo_queued_fields) (simp_all add: demo_queued_def)

lemma demo_count': "block_count_votes db = [(0, 320)] \<Longrightarrow> consensus_block_count demo_usdt db = 320"
  by (simp add: consensus_block_count_def demo_usdt_def)

lemma demo_payout_sender: "sender demo_payout = 21"
  by (simp add: demo_payout_def build_withdrawal_batch_userop_def batch_params_def Let_def)

lemma demo_sids_differ: "demo_sid demo_sweep \<noteq> demo_sid demo_payout" "demo_sid demo_payout \<noteq> demo_sid demo_sweep"
  using demo_hash_sender [of demo_sweep demo_payout] by (auto simp: demo_sid_inject demo_payout_sender demo_sweep_fields)

lemma demo_step_batch: "usdt_step demo_evm demo_usdt (demo_swept, n) (ItemAct (BlockCount 320) 0) (demo_batched, n)"
proof (rule step_item [OF _ demo_clear])
  let ?d = "demo_swept\<lparr>block_count_votes := [(0, 320)]\<rparr>"
  have q: "queued_withdrawals ?d = [(OutPoint 1 0, \<lparr>w_recipient = 77, w_amount = 5000000, w_max_fee = 864000,
      requested_block = 200, w_refund_pubkey = [5]\<rparr>)]" by (simp add: queued_withdrawals_def demo_swept_fields)
  then have b: "next_batch ?d = queued_withdrawals ?d"
    by (simp add: next_batch_def withdrawal_batch_cap_def demo_swept_fields BATCH_MAX_ITEMS_def)
  have "maybe_trigger_withdrawal_batch demo_evm demo_usdt ?d = (Ok demo_batched :: (usdt_db, ItemError) result)"
    by (simp add: maybe_trigger_withdrawal_batch_def q b demo_count' withdraw_batch_in_flight_def purpose_in_flight_def demo_swept_fields
        batch_interval_blocks_def demo_usdt_def [THEN arg_cong, of running_in_test_env] eval_ops pool_or_default_def batch_amount_def
        build_and_enqueue_withdrawal_batch_def demo_payout_def [symmetric] Let_def set_states_def start_session_def
        demo_sid_def [symmetric] demo_sids_differ demo_session_def demo_batched_def)
  then show "process_item_usdt demo_evm demo_usdt demo_swept (BlockCount 320) 0 = Ok demo_batched"
    by (simp add: process_item_usdt_def demo_swept_fields ensure_def)
qed

lemma demo_step_sign_payout:
  "usdt_step demo_evm demo_usdt (demo_batched, n) (ItemAct (MpcSignature (demo_sid demo_payout) demo_sig) 0) (demo_paying, n)"
proof -
  let ?p = "\<lparr>p_op = demo_payout, p_purpose = Withdraw [OutPoint 1 0], created_block = 320\<rparr>"
  have "consensus_block_count demo_usdt demo_batched = 320" by (rule demo_count') (simp add: demo_batched_def)
  from demo_sign [where op = demo_payout and p = ?p, OF _ _ _ _ this] show ?thesis
    by (simp add: demo_batched_def demo_swept_fields demo_sids_differ demo_paying_def)
qed

lemma demo_obs_failed: "\<not> obs_success (demo_obs False moved)"
  by (simp add: demo_obs_def)

lemma demo_gas_share: "gas_share P u db (demo_obs success moved) n = 0"
  by (simp add: gas_share_def demo_obs_def wei_gas_cost_to_usdt_def eval_ops WEI_PER_ETH_def Let_def split: option.split Option.bind_split)

lemma demo_step_revert:
  "usdt_step demo_evm demo_usdt (demo_paying, n)
     (ItemAct (UserOpConfirmed (op_hash_of demo_evm demo_usdt demo_payout) (demo_obs False 0)) 0) (demo_reverted, n)"
proof (rule demo_confirm)
  show "map_of (submitted_user_ops demo_paying) (op_hash_of demo_evm demo_usdt demo_payout) = Some (demo_submitted demo_payout (Withdraw [OutPoint 1 0]) 320)"
    "user_op_confirmed_votes demo_paying = []" by (simp_all add: demo_paying_def demo_batched_def demo_swept_fields)
  show "apply_user_op_confirmed demo_evm demo_usdt (demo_paying\<lparr>user_op_confirmed_votes :=
      [((op_hash_of demo_evm demo_usdt demo_payout, 0), demo_obs False 0)]\<rparr>)
      (op_hash_of demo_evm demo_usdt demo_payout) (demo_obs False 0) = (Ok demo_reverted :: (usdt_db, ItemError) result)"
    by (simp add: apply_user_op_confirmed_def demo_submitted_def effective_swept_def demo_gas_share demo_obs_failed
        apply_withdraw_confirmed_def pool_or_default_def demo_paying_def demo_batched_def demo_swept_fields Let_def expect_def
        accrue_incurred_def create_withdrawal_refund_def
        eval_ops remove_confirmed_votes_def purge_user_op_nonce_chain_def purge_submitted_def purge_pending_def demo_reverted_def)
qed

lemma demo_step_refund:
  "usdt_step demo_evm demo_usdt (demo_reverted, 2216000) (InputAct (RefundV0 (OutPoint 1 0))) (demo_reverted\<lparr>refunds := []\<rparr>, 8080000)"
proof -
  have "process_input_usdt demo_evm demo_usdt demo_reverted (RefundV0 (OutPoint 1 0)) =
      Ok (demo_reverted\<lparr>refunds := []\<rparr>, \<lparr>ta_amount = 5864000, ta_fees = 0\<rparr>, [5])"
    by (simp add: process_input_usdt_def demo_reverted_def)
  moreover have "holdings demo_evm demo_usdt (demo_reverted\<lparr>refunds := []\<rparr>) < 2 ^ 63"
    by (simp add: holdings_def pool_or_default_def demo_reverted_def demo_paying_def demo_batched_def demo_swept_def demo_record_def)
  ultimately show ?thesis using step_input [of demo_evm demo_usdt demo_reverted "RefundV0 (OutPoint 1 0)" _ _ _ 2216000]
    by (fastforce simp: account_clear_def)
qed

section \<open>A replacement\<close>

text \<open>The sweep is stuck, so it is signed again at a higher gas price while the first one is still in flight.\<close>

definition demo_late :: usdt_db where
  "demo_late = demo_signed\<lparr>block_count_votes := [(0, 230)]\<rparr>"

definition demo_sweep' :: UnsignedUserOp where
  "demo_sweep' = demo_sweep\<lparr>max_fee_per_gas := 2200000000, max_priority_fee_per_gas := 1100000000\<rparr>"

definition demo_replaced :: usdt_db where
  "demo_replaced = demo_late\<lparr>
     pending_user_ops := [(op_hash_of demo_evm demo_usdt demo_sweep',
       \<lparr>p_op = demo_sweep', p_purpose = DeployAndSweep 25, created_block = 230\<rparr>)],
     submitted_user_ops := [(op_hash_of demo_evm demo_usdt demo_sweep, (demo_submitted demo_sweep (DeployAndSweep 25) 200)\<lparr>superseded := True\<rparr>)],
     signing_sessions := signing_sessions demo_signed @ [(demo_sid demo_sweep', demo_session demo_sweep' 230 InProgress)]\<rparr>"

lemma demo_signed_fields:
  "signing_sessions demo_signed = [(demo_sid demo_sweep, demo_session demo_sweep 200 (Completed demo_sig))]"
  "pending_user_ops demo_signed = []"
  "submitted_user_ops demo_signed = [(op_hash_of demo_evm demo_usdt demo_sweep, demo_submitted demo_sweep (DeployAndSweep 25) 200)]"
  "block_count_votes demo_signed = [(0, 200)]" "deposit_records demo_signed = [(25, demo_record)]" "pool_state_row demo_signed = None"
  "unclaimed_withdrawals demo_signed = [(OutPoint 1 0, \<lparr>w_recipient = 77, w_amount = 5000000,
       w_max_fee = 864000, requested_block = 200, w_refund_pubkey = [5]\<rparr>)]"
  "withdrawal_states demo_signed = [(OutPoint 1 0, Queued)]" "withdrawal_batch_caps demo_signed = []"
  "fee_votes demo_signed = [(0, \<lparr>sf_vote = demo_vote, recorded_block = 200\<rparr>)]"
  by (simp_all add: demo_signed_def demo_queued_fields) (simp_all add: demo_queued_def demo_deposited_eq demo_anchored_def)

lemma demo_late_count: "block_count_votes db = [(0, 230)] \<Longrightarrow> consensus_block_count demo_usdt db = 230"
  by (simp add: consensus_block_count_def demo_usdt_def)

lemma demo_step_late: "usdt_step demo_evm demo_usdt (demo_signed, n) (ItemAct (BlockCount 230) 0) (demo_late, n)"
proof (rule step_item [OF _ demo_clear])
  have q: "queued_withdrawals demo_late = [(OutPoint 1 0, \<lparr>w_recipient = 77, w_amount = 5000000, w_max_fee = 864000,
      requested_block = 200, w_refund_pubkey = [5]\<rparr>)]" by (simp add: queued_withdrawals_def demo_late_def demo_signed_fields)
  have b: "next_batch demo_late = queued_withdrawals demo_late"
    unfolding next_batch_def q by (simp add: withdrawal_batch_cap_def demo_late_def demo_signed_fields BATCH_MAX_ITEMS_def)
  have a: "accelerate_sweeps_for_withdrawals demo_evm demo_usdt demo_late = demo_late"
    by (simp add: accelerate_sweeps_for_withdrawals_def maybe_trigger_sweep_def demo_late_def demo_signed_fields
        deploy_and_sweep_in_flight_def purpose_in_flight_def demo_submitted_def Let_def)
  have "maybe_trigger_withdrawal_batch demo_evm demo_usdt demo_late = (Ok demo_late :: (usdt_db, ItemError) result)"
    by (simp add: maybe_trigger_withdrawal_batch_def q b a demo_late_count withdraw_batch_in_flight_def purpose_in_flight_def
        demo_signed_fields demo_submitted_def is_pool_purpose_def batch_interval_blocks_def eval_ops pool_or_default_def batch_amount_def Let_def
        demo_late_def [THEN arg_cong, of block_count_votes] demo_late_def [THEN arg_cong, of pool_state_row]
        demo_late_def [THEN arg_cong, of submitted_user_ops] demo_late_def [THEN arg_cong, of pending_user_ops])
  then show "process_item_usdt demo_evm demo_usdt demo_signed (BlockCount 230) 0 = Ok demo_late"
    by (simp add: process_item_usdt_def demo_signed_fields ensure_def demo_late_def)
qed

lemma demo_reprice:
  "repriced_user_op_fees demo_sweep demo_vote = \<lparr>rp_max_fee_per_gas = 2200000000, rp_max_priority_fee_per_gas = 1100000000,
     rp_gas_cost_wei = 1760000000000000\<rparr>"
  by (simp add: repriced_user_op_fees_def demo_sweep_def build_deploy_and_sweep_userop_def sweep_params_def with_median_fees_def demo_vote_def
      DEPLOY_AND_SWEEP_DEVNET_def OP_FEE_FLOOR_WEI_def OP_FEE_CEILING_WEI_def OP_PRIORITY_FEE_WEI_def bump_10_percent_def div_ceil10_def
      eval_ops Let_def)

lemma demo_step_replace:
  "usdt_step demo_evm demo_usdt (demo_late, n) (ItemAct (ReplaceUserOp (op_hash_of demo_evm demo_usdt demo_sweep)) 0) (demo_replaced, n)"
proof (rule step_item [OF _ demo_clear])
  have c: "consensus_block_count demo_usdt demo_late = 230" by (rule demo_late_count) (simp add: demo_late_def)
  have m: "fee_vote_median demo_evm demo_usdt demo_late = Some demo_vote"
    by (simp add: fee_vote_median_def fresh_fee_votes_def demo_threshold c eval_ops FEE_VOTE_TTL_BLOCKS_def) (simp add: demo_late_def demo_signed_fields)
  have new: "op_hash_of demo_evm demo_usdt demo_sweep' \<noteq> op_hash_of demo_evm demo_usdt demo_sweep"
    using demo_hash_eq [of demo_sweep' demo_sweep]
    by (auto simp: demo_sweep'_def demo_sweep_def build_deploy_and_sweep_userop_def sweep_params_def with_median_fees_def demo_vote_def
        DEPLOY_AND_SWEEP_DEVNET_def OP_FEE_FLOOR_WEI_def OP_FEE_CEILING_WEI_def eval_ops Let_def)
  have t: "op_timed_out demo_usdt demo_late (demo_submitted demo_sweep (DeployAndSweep 25) 200)"
    unfolding op_timed_out_def c by (simp add: demo_submitted_def submitted_op_timeout_blocks_def demo_usdt_def eval_ops)
  have f: "submitted_user_ops demo_late = [(op_hash_of demo_evm demo_usdt demo_sweep, demo_submitted demo_sweep (DeployAndSweep 25) 200)]"
    "pending_user_ops demo_late = []" "signing_sessions demo_late = [(demo_sid demo_sweep, demo_session demo_sweep 200 (Completed demo_sig))]"
    by (simp_all add: demo_late_def demo_signed_fields)
  have s: "unsigned_op (s_signed (demo_submitted op p b)) = op" "s_purpose (demo_submitted op p b) = p" "\<not> superseded (demo_submitted op p b)" for op p b
    by (simp_all add: demo_submitted_def)
  have cc: "consensus_block_count demo_usdt (demo_late\<lparr>pending_user_ops := x, submitted_user_ops := y\<rparr>) = 230" for x y
    by (rule demo_late_count) (simp add: demo_late_def)
  show "process_item_usdt demo_evm demo_usdt demo_late (ReplaceUserOp (op_hash_of demo_evm demo_usdt demo_sweep)) 0 = Ok demo_replaced"
    by (simp add: process_item_usdt_def process_replace_user_op_def f s ensure_def t m demo_reprice SWEEP_MAX_FEE_PER_GAS_WEI_def Let_def
        demo_sweep'_def [symmetric] op_known_def new new [symmetric] c cc start_session_def demo_sid_def [symmetric] demo_sid_inject
        demo_session_def demo_replaced_def demo_signed_fields)
qed

end
