(* ===== verification/Usdt_Lifecycle.thy ===== *)
theory Usdt_Lifecycle
  imports Usdt_Run
begin

text \<open>
  Operations and withdrawals over time: the operations of one account that are in flight differ in their
  gas fees only, so whichever the chain accepts settles the same way; and every withdrawal moves from
  queued over signing to exactly one of two final states, paid or refunded.
\<close>

section \<open>The invariant\<close>

text \<open>Equal up to the two fee fields a replacement raises.\<close>

definition same_effect :: "UnsignedUserOp \<Rightarrow> UnsignedUserOp \<Rightarrow> bool" where
  "same_effect op op' \<longleftrightarrow>
     op\<lparr>max_fee_per_gas := 0, max_priority_fee_per_gas := 0\<rparr> = op'\<lparr>max_fee_per_gas := 0, max_priority_fee_per_gas := 0\<rparr>"

definition exclusive :: "usdt_db \<Rightarrow> bool" where
  "exclusive db \<longleftrightarrow>
     (\<forall>op p op' p'. (op, p) \<in> flights db \<longrightarrow> (op', p') \<in> flights db \<longrightarrow> sender op = sender op' \<longrightarrow>
        same_effect op op' \<and> p = p')"

definition is_open :: "WithdrawalState \<Rightarrow> bool" where
  "is_open st = (case st of Queued \<Rightarrow> True | Signing _ \<Rightarrow> True | _ \<Rightarrow> False)"

definition is_final :: "WithdrawalState \<Rightarrow> bool" where
  "is_final st = (case st of Confirmed _ \<Rightarrow> True | Failed _ \<Rightarrow> True | _ \<Rightarrow> False)"

text \<open>
  An unclaimed withdrawal is open, any other known one is final; a refund belongs to a failed one; and the
  withdrawals of a batch in flight are being signed.
\<close>

definition life_ok :: "usdt_db \<Rightarrow> bool" where
  "life_ok db \<longleftrightarrow>
     (\<forall>out w. map_of (unclaimed_withdrawals db) out = Some w \<longrightarrow> (\<exists>st. map_of (withdrawal_states db) out = Some st \<and> is_open st)) \<and>
     (\<forall>out st. map_of (withdrawal_states db) out = Some st \<longrightarrow> map_of (unclaimed_withdrawals db) out = None \<longrightarrow> is_final st) \<and>
     (\<forall>out r. map_of (refunds db) out = Some r \<longrightarrow> (\<exists>reason. map_of (withdrawal_states db) out = Some (Failed reason))) \<and>
     (\<forall>op outs. (op, Withdraw outs) \<in> flights db \<longrightarrow>
        (\<forall>out\<in>set outs. \<exists>h. map_of (withdrawal_states db) out = Some (Signing h)))"

lemma life_okD:
  assumes "life_ok db"
  shows life_open: "\<And>out w. map_of (unclaimed_withdrawals db) out = Some w \<Longrightarrow> \<exists>st. map_of (withdrawal_states db) out = Some st \<and> is_open st"
    and life_final: "\<And>out st. map_of (withdrawal_states db) out = Some st \<Longrightarrow> map_of (unclaimed_withdrawals db) out = None \<Longrightarrow> is_final st"
    and life_refund: "\<And>out r. map_of (refunds db) out = Some r \<Longrightarrow> \<exists>reason. map_of (withdrawal_states db) out = Some (Failed reason)"
    and life_flight: "\<And>op outs out. (op, Withdraw outs) \<in> flights db \<Longrightarrow> out \<in> set outs \<Longrightarrow> \<exists>h. map_of (withdrawal_states db) out = Some (Signing h)"
  using assms unfolding life_ok_def by blast+

text \<open>The steps a withdrawal can take.\<close>

definition state_next :: "WithdrawalState option \<Rightarrow> WithdrawalState option \<Rightarrow> bool" where
  "state_next before after \<longleftrightarrow> after = before \<or>
     (case (before, after) of
        (None, Some Queued) \<Rightarrow> True
      | (Some Queued, Some (Signing _)) \<Rightarrow> True
      | (Some (Signing _), Some (Signing _)) \<Rightarrow> True
      | (Some (Signing _), Some Queued) \<Rightarrow> True
      | (Some (Signing _), Some (Confirmed _)) \<Rightarrow> True
      | (Some (Signing _), Some (Failed _)) \<Rightarrow> True
      | _ \<Rightarrow> False)"

text \<open>The refund of a withdrawal: for its key, and of no more than its amount and fee.\<close>

definition refund_of :: "UsdtWithdrawalV0 \<Rightarrow> Refund \<Rightarrow> bool" where
  "refund_of w r \<longleftrightarrow> rf_pubkey r = w_refund_pubkey w \<and> unat (rf_amount r) \<le> unat (w_amount w) + unat (w_max_fee w)"

lemma saturating_add_le: "unat (saturating_add a b) \<le> unat a + unat (b :: 'a::len word)"
  by (cases "unat a + unat b < 2 ^ LENGTH('a)") (simp_all add: saturating_add_def unat_word_ariths unat_minus_1)

text \<open>
  A step moves every withdrawal along, reopens none, creates refunds of unclaimed withdrawals only and one
  for each that fails, and neither adds or alters a withdrawal nor drops a refund but those it targets.
\<close>

definition moves_but :: "OutPoint set \<Rightarrow> usdt_db \<Rightarrow> usdt_db \<Rightarrow> bool" where
  "moves_but targeted db db' \<longleftrightarrow>
     (\<forall>out. state_next (map_of (withdrawal_states db) out) (map_of (withdrawal_states db') out) \<and>
        (map_of (withdrawal_states db) out \<noteq> None \<longrightarrow> map_of (unclaimed_withdrawals db) out = None \<longrightarrow>
          map_of (unclaimed_withdrawals db') out = None) \<and>
        (\<forall>w. map_of (unclaimed_withdrawals db') out = Some w \<longrightarrow> out \<notin> targeted \<longrightarrow>
          map_of (unclaimed_withdrawals db) out = Some w) \<and>
        (\<forall>r. map_of (refunds db') out = Some r \<longrightarrow> map_of (refunds db) out = Some r \<or>
          (\<exists>w. map_of (unclaimed_withdrawals db) out = Some w \<and> refund_of w r)) \<and>
        (\<forall>reason. map_of (withdrawal_states db') out = Some (Failed reason) \<longrightarrow>
          map_of (withdrawal_states db) out = Some (Failed reason) \<or> map_of (refunds db') out \<noteq> None) \<and>
        (map_of (refunds db) out \<noteq> None \<longrightarrow> out \<notin> targeted \<longrightarrow> map_of (refunds db') out \<noteq> None))"

abbreviation moves :: "usdt_db \<Rightarrow> usdt_db \<Rightarrow> bool" where
  "moves \<equiv> moves_but {}"

lemma moves_frame:
  assumes "unclaimed_withdrawals db' = unclaimed_withdrawals db" "refunds db' = refunds db" "withdrawal_states db' = withdrawal_states db"
  shows "moves db db'"
  by (simp add: moves_but_def state_next_def assms)

lemma state_next_refl [simp]: "state_next st st"
  by (simp add: state_next_def)

definition life :: "usdt_db \<Rightarrow> bool" where
  "life db \<longleftrightarrow> exclusive db \<and> life_ok db"

section \<open>Enqueueing\<close>

text \<open>A step that leaves the books alone and adds at most one operation, of an account with none in flight.\<close>

definition grows :: "usdt_db \<Rightarrow> usdt_db \<Rightarrow> bool" where
  "grows db db' \<longleftrightarrow>
     unclaimed_withdrawals db' = unclaimed_withdrawals db \<and> refunds db' = refunds db \<and> withdrawal_states db' = withdrawal_states db \<and>
     (flights db' \<subseteq> flights db \<or>
      (\<exists>op p. flights db' \<subseteq> insert (op, p) (flights db) \<and> (\<forall>outs. p \<noteq> Withdraw outs) \<and> (\<forall>op' p'. (op', p') \<in> flights db \<longrightarrow> sender op' \<noteq> sender op)))"

lemma exclusive_mono: "exclusive db \<Longrightarrow> flights db' \<subseteq> flights db \<Longrightarrow> exclusive db'"
  unfolding exclusive_def by blast

lemma same_effect_refl [simp]: "same_effect op op"
  by (simp add: same_effect_def)

lemma same_effect_sym: "same_effect op op' \<longleftrightarrow> same_effect op' op"
  by (auto simp: same_effect_def)

lemma exclusive_insert:
  assumes "exclusive db" and "flights db' \<subseteq> insert (op, p) (flights db)"
    and "\<And>op' p'. (op', p') \<in> flights db \<Longrightarrow> sender op' = sender op \<Longrightarrow> same_effect op op' \<and> p = p'"
  shows "exclusive db'"
  unfolding exclusive_def
proof (intro allI impI)
  fix a p1 b p2 assume ab: "(a, p1) \<in> flights db'" "(b, p2) \<in> flights db'" "sender a = sender b"
  then consider "(a, p1) = (op, p)" "(b, p2) = (op, p)" | "(a, p1) = (op, p)" "(b, p2) \<in> flights db"
    | "(b, p2) = (op, p)" "(a, p1) \<in> flights db" | "(a, p1) \<in> flights db" "(b, p2) \<in> flights db"
    using assms(2) by blast
  then show "same_effect a b \<and> p1 = p2"
  proof cases
    case 1
    then show ?thesis by simp
  next
    case 2
    then show ?thesis using assms(3) [of b p2] ab(3) by auto
  next
    case 3
    then show ?thesis using assms(3) [of a p1] ab(3) by (auto simp: same_effect_sym)
  next
    case 4
    then show ?thesis using assms(1) ab(3) unfolding exclusive_def by blast
  qed
qed

lemma life_ok_frame:
  assumes "life_ok db" and "unclaimed_withdrawals db' = unclaimed_withdrawals db" "refunds db' = refunds db"
    "withdrawal_states db' = withdrawal_states db"
    and "\<And>op outs. (op, Withdraw outs) \<in> flights db' \<Longrightarrow> (op, Withdraw outs) \<in> flights db"
  shows "life_ok db'"
  using assms(1,5) unfolding life_ok_def assms(2-4) by blast

lemma grows_life:
  assumes "life db" and "grows db db'"
  shows "life db'"
proof -
  from assms(2) consider "flights db' \<subseteq> flights db"
    | op p where "flights db' \<subseteq> insert (op, p) (flights db)" "\<forall>outs. p \<noteq> Withdraw outs" "\<forall>op' p'. (op', p') \<in> flights db \<longrightarrow> sender op' \<noteq> sender op"
    unfolding grows_def by blast
  then have "exclusive db' \<and> (\<forall>op outs. (op, Withdraw outs) \<in> flights db' \<longrightarrow> (op, Withdraw outs) \<in> flights db)"
  proof cases
    case 1
    then show ?thesis using assms(1) exclusive_mono unfolding life_def by blast
  next
    case 2
    then have "exclusive db'" using assms(1) exclusive_insert [of db db' op p] unfolding life_def by blast
    then show ?thesis using 2 by blast
  qed
  then show ?thesis using assms life_ok_frame [of db db'] by (simp add: life_def grows_def)
qed

lemma grows_moves: "moves db db1 \<Longrightarrow> grows db1 db' \<Longrightarrow> moves db db'"
  by (simp add: grows_def moves_but_def)

lemma grows_refl [simp]: "grows db db"
  by (simp add: grows_def)

lemma enqueue_flights: "flights (enqueue_op P u db h op p b) \<subseteq> insert (op, p) (flights db)"
proof -
  have "set (AList.update h x t) \<subseteq> insert (h, x) (set t)" for x and t :: "(bytes, PendingUserOp) table"
    by (induction t) auto
  then show ?thesis unfolding enqueue_op_def flights_def start_session_fields by force
qed

text \<open>An account without an operation of its own purposes in flight has none at all.\<close>

lemma account_idle:
  assumes inv: "usdt_inv P u db issued" and "\<not> deploy_and_sweep_in_flight db a" "\<not> residual_recovery_in_flight db a"
    and a: "a \<noteq> pool_account P u" and fl: "(op, p) \<in> flights db"
  shows "sender op \<noteq> a"
proof
  assume sender: "sender op = a"
  have "p = DeployAndSweep a \<or> p = RecoverResidual a"
    using inv_flight [OF inv fl] a sender by (auto simp: flight_ok_def Let_def split: UserOpPurpose.splits)
  then show False
    using fl assms(2,3) unfolding flights_iff deploy_and_sweep_in_flight_def residual_recovery_in_flight_def purpose_in_flight_def list_ex_iff
    by fastforce
qed

lemma pool_idle:
  assumes inv: "usdt_inv P u db issued" and "\<not> withdraw_batch_in_flight db" and fl: "(op, p) \<in> flights db"
  shows "sender op \<noteq> pool_account P u"
proof -
  have "\<not> is_pool_purpose p"
    using fl assms(2) unfolding flights_iff withdraw_batch_in_flight_def purpose_in_flight_def list_ex_iff by fastforce
  then show ?thesis
    using inv_flight [OF inv fl] record_row(1) [OF inv]
    by (auto simp: flight_ok_def is_pool_purpose_def Let_def split: UserOpPurpose.splits)
qed

lemma enqueue_fields [simp]:
  "unclaimed_withdrawals (enqueue_op P u db h op p b) = unclaimed_withdrawals db"
  "refunds (enqueue_op P u db h op p b) = refunds db"
  "withdrawal_states (enqueue_op P u db h op p b) = withdrawal_states db"
  by (simp_all add: enqueue_op_def)

lemma enqueue_grows:
  assumes "\<forall>outs. p \<noteq> Withdraw outs" and "\<forall>op' p'. (op', p') \<in> flights db \<longrightarrow> sender op' \<noteq> sender op"
  shows "grows db (enqueue_op P u db h op p b)"
  unfolding grows_def enqueue_fields using enqueue_flights [of P u db h op p b] assms by blast

lemma sweep_grows:
  assumes inv: "usdt_inv P u db issued"
  shows "grows db (maybe_trigger_sweep P u db a)"
proof (cases "map_of (deposit_records db) a")
  case (Some r)
  have "grows db (enqueue_op P u db h (build_deploy_and_sweep_userop P (sweep_params P u a r x m)) (DeployAndSweep a) b)"
    if "\<not> deploy_and_sweep_in_flight db a" "\<not> residual_recovery_in_flight db a" for h x m b
    by (rule enqueue_grows) (use account_idle [OF inv that record_row(1) [OF inv Some]] in
      \<open>auto simp: build_deploy_and_sweep_userop_def sweep_params_def\<close>)
  then show ?thesis using Some by (auto simp: maybe_trigger_sweep_def Let_def split: option.split)
qed (simp add: maybe_trigger_sweep_def)

lemma residual_grows:
  assumes inv: "usdt_inv P u db issued"
  shows "grows db (maybe_trigger_residual_recovery P u db a)"
proof (cases "map_of (deposit_records db) a")
  case (Some r)
  have "grows db (enqueue_op P u db h (build_recover_residual_userop P rr) (RecoverResidual a) b)"
    if "\<not> deploy_and_sweep_in_flight db a" "\<not> residual_recovery_in_flight db a" "rr_deposit_account rr = a" for h rr b
    by (rule enqueue_grows) (use account_idle [OF inv that(1,2) record_row(1) [OF inv Some]] that(3) in
      \<open>auto simp: build_recover_residual_userop_def\<close>)
  then show ?thesis using Some by (auto simp: maybe_trigger_residual_recovery_def Let_def split: option.split)
qed (simp add: maybe_trigger_residual_recovery_def)

lemma fee_withdrawal_grows:
  assumes inv: "usdt_inv P u db issued"
  shows "grows db (maybe_trigger_fee_withdrawal P u db)"
proof -
  have "grows db (enqueue_op P u db h (build_withdrawal_batch_userop P (batch_params P u (pool_or_default P u db) ws m)) (WithdrawFees c x) b)"
    if "\<not> withdraw_batch_in_flight db" for h ws m c x b
    by (rule enqueue_grows) (use pool_idle [OF inv that] pool_account_of_pool [OF inv] in
      \<open>auto simp: build_withdrawal_batch_userop_def batch_params_def\<close>)
  then show ?thesis by (auto simp: maybe_trigger_fee_withdrawal_def Let_def split: option.split)
qed

lemma accelerate_life:
  assumes env: "abi_laws P" and "usdt_inv P u db issued" and "life db"
  shows "life (accelerate_sweeps_for_withdrawals P u db)"
    and "moves db (accelerate_sweeps_for_withdrawals P u db)"
proof -
  let ?f = "\<lambda>d (account, record). if credited record > swept record then maybe_trigger_sweep P u d account else d"
  have "life (foldl ?f d rows) \<and> unclaimed_withdrawals (foldl ?f d rows) = unclaimed_withdrawals d \<and>
      refunds (foldl ?f d rows) = refunds d \<and> withdrawal_states (foldl ?f d rows) = withdrawal_states d" if "usdt_inv P u d issued" "life d" for d rows
    using that
  proof (induction rows arbitrary: d)
    case (Cons row rows)
    obtain a r where row: "row = (a, r)" by fastforce
    let ?d = "?f d row"
    have g: "grows d ?d" "usdt_inv P u ?d issued"
      using sweep_grows [OF Cons.prems(1)] sweep_inv [OF env Cons.prems(1)] Cons.prems(1) by (auto simp: row)
    from Cons.IH [OF g(2) grows_life [OF Cons.prems(2) g(1)]] g(1) show ?case by (simp add: grows_def)
  qed simp
  from this [OF assms(2,3), of "deposit_records db"] show "life (accelerate_sweeps_for_withdrawals P u db)"
    "moves db (accelerate_sweeps_for_withdrawals P u db)"
    by (simp_all add: accelerate_sweeps_for_withdrawals_def moves_frame)
qed

section \<open>Withdrawals being signed\<close>

lemma set_states_map:
  "map_of (withdrawal_states (set_states outs st db)) out = (if out \<in> set outs then Some st else map_of (withdrawal_states db) out)"
proof -
  have "map_of (foldl (\<lambda>t out. AList.update out st t) t outs) out = (if out \<in> set outs then Some st else map_of t out)" for t
    by (induction outs arbitrary: t) (auto simp: update_conv')
  then show ?thesis by (simp add: set_states_def)
qed

lemma signing_life:
  assumes inv: "usdt_inv P u db issued" and ok: "life_ok db"
    and outs: "\<And>out. out \<in> set outs \<Longrightarrow> map_of (unclaimed_withdrawals db) out \<noteq> None"
    and same: "unclaimed_withdrawals db' = unclaimed_withdrawals db" "refunds db' = refunds db"
    and st: "\<And>out. map_of (withdrawal_states db') out = (if out \<in> set outs then Some (Signing h) else map_of (withdrawal_states db) out)"
    and fl: "flights db' \<subseteq> insert (op, Withdraw outs) (flights db)"
    and ready: "\<And>out. out \<in> set outs \<Longrightarrow> map_of (withdrawal_states db) out = Some Queued \<or> (\<exists>h. map_of (withdrawal_states db) out = Some (Signing h))"
  shows "life_ok db' \<and> moves db db'"
proof -
  have excl: "map_of (refunds db) out = None" if "out \<in> set outs" for out
    using inv_exclusive [OF inv] outs [OF that] by (auto simp: dom_def)
  have "\<exists>h. map_of (withdrawal_states db') out = Some (Signing h)" if "(op', Withdraw outs') \<in> flights db'" "out \<in> set outs'" for op' outs' out
    using that fl life_flight [OF ok, of op' outs' out] st by auto
  moreover have "\<exists>s. map_of (withdrawal_states db') out = Some s \<and> is_open s" if "map_of (unclaimed_withdrawals db) out = Some w" for out w
    using life_open [OF ok that] st by (auto simp: is_open_def)
  moreover have "is_final s" if "map_of (withdrawal_states db') out = Some s" "map_of (unclaimed_withdrawals db) out = None" for out s
    using life_final [OF ok _ that(2), of s] that st [of out] outs [of out] by (auto split: if_splits)
  moreover have "\<exists>reason. map_of (withdrawal_states db') out = Some (Failed reason)" if "map_of (refunds db) out = Some r" for out r
    using life_refund [OF ok that] excl [of out] that st [of out] by auto
  ultimately have ok': "life_ok db'" unfolding life_ok_def same by blast
  have "state_next (map_of (withdrawal_states db) out) (map_of (withdrawal_states db') out)" for out
    using ready [of out] st [of out] by (auto simp: state_next_def)
  moreover have "map_of (withdrawal_states db') out = Some (Failed reason) \<Longrightarrow> map_of (withdrawal_states db) out = Some (Failed reason)" for out reason
    using st [of out] by (auto split: if_splits)
  ultimately have "moves db db'" by (simp add: moves_but_def same)
  with ok' show ?thesis by blast
qed

lemma batch_life:
  assumes env: "abi_laws P" and inv: "usdt_inv P u db issued" and life: "life db"
    and ok: "maybe_trigger_withdrawal_batch P u db = Ok db'"
  shows "life db' \<and> moves db db'"
proof -
  let ?b = "next_batch db" and ?pool = "pool_or_default P u db"
  have "life (build_and_enqueue_withdrawal_batch P u db ?b ?pool blk) \<and> moves db (build_and_enqueue_withdrawal_batch P u db ?b ?pool blk)"
    if idle: "\<not> withdraw_batch_in_flight db" for blk
  proof -
    let ?db' = "build_and_enqueue_withdrawal_batch P u db ?b ?pool blk"
    let ?op = "build_withdrawal_batch_userop P (batch_params P u ?pool (map (\<lambda>(_, w). (w_recipient w, w_amount w)) ?b) (fee_vote_median P u db))"
    note rows = next_batch_rows [OF inv_wf(4) [OF inv]]
    have fl: "flights ?db' \<subseteq> insert (?op, Withdraw (map fst ?b)) (flights db)"
      using enqueue_flights [of P u db "op_hash_of P u ?op" ?op "Withdraw (map fst ?b)" blk]
      by (simp add: build_and_enqueue_withdrawal_batch_def Let_def enqueue_op_def flights_def)
    have outs: "map_of (unclaimed_withdrawals db) out \<noteq> None" if "out \<in> set (map fst ?b)" for out
      using tally_rows_amount(2) [OF inv_wf(4) [OF inv] rows(2)] that by blast
    have "sender ?op = pool_account P u"
      using pool_account_of_pool [OF inv] by (simp add: build_withdrawal_batch_userop_def batch_params_def)
    then have "exclusive ?db'"
      using exclusive_insert [OF _ fl] pool_idle [OF inv idle] life unfolding life_def by metis
    moreover have ready: "map_of (withdrawal_states db) out = Some Queued" if "out \<in> set (map fst ?b)" for out
      using that rows(3) by auto
    have "life_ok ?db' \<and> moves db ?db'"
      by (rule signing_life [OF inv _ outs _ _ _ fl disjI1 [OF ready], where h = "op_hash_of P u ?op"])
        (use life in \<open>simp_all add: life_def build_and_enqueue_withdrawal_batch_def Let_def set_states_map\<close>)
    ultimately show ?thesis by (simp add: life_def)
  qed
  then show ?thesis
    using ok life accelerate_life [OF env inv life]
    by (auto simp: maybe_trigger_withdrawal_batch_def Let_def and_then_eq_Ok moves_frame split: if_splits)
qed

lemma set_update_subset: "set (AList.update k v t) \<subseteq> insert (k, v) (set t)"
  by (induction t) auto

lemma set_delete_subset: "set (AList.delete k t) \<subseteq> set t"
  by (auto simp: AList.delete_eq)

lemma flights_put:
  assumes "set (pending_user_ops db') \<subseteq> insert (h, q) (set (pending_user_ops db))"
    and "set (submitted_user_ops db') \<subseteq> insert (h', r) (set (submitted_user_ops db))"
  shows "flights db' \<subseteq> insert (p_op q, p_purpose q) (insert (unsigned_op (s_signed r), s_purpose r) (flights db))"
  using image_mono [OF assms(1), of "\<lambda>(_, p). (p_op p, p_purpose p)"]
    image_mono [OF assms(2), of "\<lambda>(_, s). (unsigned_op (s_signed s), s_purpose s)"]
  unfolding flights_def by auto

lemma signature_grows:
  assumes "process_mpc_signature P u db i sig = Ok db'"
  shows "grows db db'"
proof -
  obtain h pending s where p: "map_of (pending_user_ops db) h = Some pending"
    and s: "unsigned_op (s_signed s) = p_op pending" "s_purpose s = p_purpose pending"
    and db': "same_ledger db db'" "withdrawal_states db' = withdrawal_states db"
      "pending_user_ops db' = AList.delete h (pending_user_ops db)"
      "submitted_user_ops db' = AList.update h s (submitted_user_ops db)"
    using signature_result [OF assms] .
  have "flights db' \<subseteq> insert (p_op pending, p_purpose pending) (insert (unsigned_op (s_signed s), s_purpose s) (flights db))"
    by (rule flights_put [of _ h _ _ h]) (use set_delete_subset [of h "pending_user_ops db"] set_update_subset [of h s] in \<open>auto simp: db'\<close>)
  then have "flights db' \<subseteq> flights db" using pending_flight [OF p] s by auto
  then show ?thesis using db'(1,2) by (simp add: grows_def same_ledger_def)
qed

lemma replace_life:
  assumes inv: "usdt_inv P u db issued" and life: "life db" and ok: "process_replace_user_op P u db h = Ok db'"
  shows "life db' \<and> moves db db'"
proof -
  obtain s f g new_op where s: "map_of (submitted_user_ops db) h = Some s"
    and new_op: "new_op = (unsigned_op (s_signed s))\<lparr>max_fee_per_gas := f, max_priority_fee_per_gas := g\<rparr>"
    and db': "same_ledger db db'" "withdrawal_states db' = (case s_purpose s of
        Withdraw outs \<Rightarrow> withdrawal_states (set_states outs (Signing (op_hash_of P u new_op)) db) | _ \<Rightarrow> withdrawal_states db)"
      "pending_user_ops db' = AList.update (op_hash_of P u new_op)
        \<lparr>p_op = new_op, p_purpose = s_purpose s, created_block = consensus_block_count u db\<rparr> (pending_user_ops db)"
      "submitted_user_ops db' = AList.update h (s\<lparr>superseded := True\<rparr>) (submitted_user_ops db)"
    using replace_result [OF ok] .
  note old = submitted_flight [OF s]
  have fl: "flights db' \<subseteq> insert (new_op, s_purpose s) (flights db)"
  proof -
    have "flights db' \<subseteq> insert (p_op \<lparr>p_op = new_op, p_purpose = s_purpose s, created_block = consensus_block_count u db\<rparr>,
          p_purpose \<lparr>p_op = new_op, p_purpose = s_purpose s, created_block = consensus_block_count u db\<rparr>)
        (insert (unsigned_op (s_signed (s\<lparr>superseded := True\<rparr>)), s_purpose (s\<lparr>superseded := True\<rparr>)) (flights db))"
      by (rule flights_put [of _ "op_hash_of P u new_op" _ _ h]) (simp_all only: db' set_update_subset)
    then show ?thesis using old by auto
  qed
  have eff: "same_effect new_op (unsigned_op (s_signed s))" "sender new_op = sender (unsigned_op (s_signed s))"
    by (simp_all add: new_op same_effect_def)
  have "exclusive db'"
  proof (rule exclusive_insert [OF _ fl])
    show "exclusive db" using life by (simp add: life_def)
    then show "same_effect new_op op' \<and> s_purpose s = p'" if "(op', p') \<in> flights db" "sender op' = sender new_op" for op' p'
      using old that eff unfolding exclusive_def same_effect_def by metis
  qed
  moreover have "life_ok db' \<and> moves db db'"
  proof (cases "\<exists>outs. s_purpose s = Withdraw outs")
    case True
    then obtain outs where outs: "s_purpose s = Withdraw outs" by blast
    have un: "map_of (unclaimed_withdrawals db) out \<noteq> None" if "out \<in> set outs" for out
      using inv_flight [OF inv old] that by (auto simp: flight_ok_def outs Let_def)
    show ?thesis
      by (rule signing_life [OF inv _ un _ _ _ fl [unfolded outs] disjI2 [OF life_flight [OF _ old [unfolded outs]]], where h = "op_hash_of P u new_op"])
        (use life db'(1,2) in \<open>simp_all add: life_def same_ledger_def outs set_states_map\<close>)
  next
    case False
    then have st: "withdrawal_states db' = withdrawal_states db" using db'(2) by (cases "s_purpose s") auto
    have "(op, Withdraw outs) \<in> flights db" if "(op, Withdraw outs) \<in> flights db'" for op outs
      using that fl False by (metis insert_iff prod.inject subsetD)
    then have "life_ok db'"
      by (rule life_ok_frame [of db, rotated -1]) (use life db'(1) st in \<open>simp_all add: life_def same_ledger_def\<close>)
    then show ?thesis using st db'(1) by (simp add: moves_frame same_ledger_def)
  qed
  ultimately show ?thesis by (simp add: life_def)
qed

section \<open>Outcomes\<close>

lemma outcome_life:
  assumes inv: "usdt_inv P u db issued" and ok: "life_ok db"
    and fl: "(op, Withdraw outs) \<in> flights db" and others: "\<And>op' outs'. (op', Withdraw outs') \<notin> flights db'"
    and st: "\<And>out. map_of (withdrawal_states db') out = (if out \<in> set outs then Some st else map_of (withdrawal_states db) out)"
    and un: "\<And>out. map_of (unclaimed_withdrawals db') out = (if out \<in> set outs \<and> is_final st then None else map_of (unclaimed_withdrawals db) out)"
    and rf: "\<And>out r. map_of (refunds db') out = Some r \<Longrightarrow> map_of (refunds db) out = Some r \<or>
      out \<in> set outs \<and> (\<exists>reason. st = Failed reason) \<and> (\<exists>w. map_of (unclaimed_withdrawals db) out = Some w \<and> refund_of w r)"
    and keep: "\<And>out. map_of (refunds db) out \<noteq> None \<or> out \<in> set outs \<and> (\<exists>reason. st = Failed reason) \<Longrightarrow> map_of (refunds db') out \<noteq> None"
    and kind: "st = Queued \<or> is_final st"
  shows "life_ok db' \<and> moves db db'"
proof -
  have here: "map_of (unclaimed_withdrawals db) out \<noteq> None" if "out \<in> set outs" for out
    using inv_flight [OF inv fl] that by (auto simp: flight_ok_def Let_def)
  have excl: "map_of (refunds db) out = None" if "out \<in> set outs" for out
    using inv_exclusive [OF inv] here [OF that] by (auto simp: dom_def)
  have "\<exists>s. map_of (withdrawal_states db') out = Some s \<and> is_open s" if "map_of (unclaimed_withdrawals db') out = Some w" for out w
    using that life_open [OF ok, of out] st [of out] un [of out] kind by (auto simp: is_open_def split: if_splits)
  moreover have "is_final s" if "map_of (withdrawal_states db') out = Some s" "map_of (unclaimed_withdrawals db') out = None" for out s
    using that life_final [OF ok, of out s] st [of out] un [of out] here [of out] by (auto split: if_splits)
  moreover have "\<exists>reason. map_of (withdrawal_states db') out = Some (Failed reason)" if "map_of (refunds db') out = Some r" for out r
    using rf [OF that] life_refund [OF ok, of out r] st [of out] excl [of out] by auto
  ultimately have ok': "life_ok db'" using others unfolding life_ok_def by blast
  have next_st: "state_next (map_of (withdrawal_states db) out) (map_of (withdrawal_states db') out)" for out
    using life_flight [OF ok fl, of out] st [of out] kind by (auto simp: state_next_def is_final_def split: WithdrawalState.splits)
  have "map_of (unclaimed_withdrawals db') out = None" if "map_of (unclaimed_withdrawals db) out = None" for out using un [of out] that by simp
  moreover have "map_of (unclaimed_withdrawals db) out = Some w" if "map_of (unclaimed_withdrawals db') out = Some w" for out w
    using un [of out] that by (auto split: if_splits)
  moreover have "map_of (refunds db) out = Some r \<or> (\<exists>w. map_of (unclaimed_withdrawals db) out = Some w \<and> refund_of w r)"
    if "map_of (refunds db') out = Some r" for out r
    using rf [OF that] by blast
  moreover have "map_of (withdrawal_states db) out = Some (Failed reason) \<or> map_of (refunds db') out \<noteq> None"
    if "map_of (withdrawal_states db') out = Some (Failed reason)" for out reason
    using st [of out] keep [of out] that by (auto split: if_splits)
  ultimately have "moves db db'" using next_st keep unfolding moves_but_def by blast
  with ok' show ?thesis by blast
qed

text \<open>What a confirmed batch makes of its withdrawals: paid, refunded when alone, or queued again.\<close>

definition batch_outcome :: "UserOpConfirmedObservation \<Rightarrow> OutPoint list \<Rightarrow> WithdrawalState" where
  "batch_outcome obs outs =
     (if obs_success obs then Confirmed (obs_block obs) else if length outs \<le> 1 then Failed REVERTS_WHEN_ISOLATED else Queued)"

lemma withdraw_outcome:
  assumes ok: "apply_withdraw_confirmed P u db outs obs moved = Ok db1"
    and here: "\<forall>out\<in>set outs. map_of (unclaimed_withdrawals db) out \<noteq> None"
  shows "map_of (withdrawal_states db1) out = (if out \<in> set outs then Some (batch_outcome obs outs) else map_of (withdrawal_states db) out)"
    "map_of (unclaimed_withdrawals db1) out =
      (if out \<in> set outs \<and> is_final (batch_outcome obs outs) then None else map_of (unclaimed_withdrawals db) out)"
    "map_of (refunds db1) out = Some r \<Longrightarrow> map_of (refunds db) out = Some r \<or> out \<in> set outs \<and> (\<exists>reason. batch_outcome obs outs = Failed reason) \<and>
      (\<exists>w. map_of (unclaimed_withdrawals db) out = Some w \<and> refund_of w r)"
    "pending_user_ops db1 = pending_user_ops db" "submitted_user_ops db1 = submitted_user_ops db"
    "map_of (refunds db) out \<noteq> None \<or> out \<in> set outs \<and> (\<exists>reason. batch_outcome obs outs = Failed reason) \<Longrightarrow> map_of (refunds db1) out \<noteq> None"
proof -
  let ?all = "map_of (withdrawal_states db1) out = (if out \<in> set outs then Some (batch_outcome obs outs) else map_of (withdrawal_states db) out) \<and>
    map_of (unclaimed_withdrawals db1) out =
      (if out \<in> set outs \<and> is_final (batch_outcome obs outs) then None else map_of (unclaimed_withdrawals db) out) \<and>
    (map_of (refunds db1) out = Some r \<longrightarrow> map_of (refunds db) out = Some r \<or> out \<in> set outs \<and> (\<exists>reason. batch_outcome obs outs = Failed reason) \<and>
      (\<exists>w. map_of (unclaimed_withdrawals db) out = Some w \<and> refund_of w r)) \<and>
    pending_user_ops db1 = pending_user_ops db \<and> submitted_user_ops db1 = submitted_user_ops db \<and>
    (map_of (refunds db) out \<noteq> None \<or> out \<in> set outs \<and> (\<exists>reason. batch_outcome obs outs = Failed reason) \<longrightarrow> map_of (refunds db1) out \<noteq> None)"
  have ?all
  proof (cases "obs_success obs")
    case True
    with ok obtain pool where db1: "db1 = settle_withdrawals (obs_block obs) outs (db\<lparr>pool_state_row := Some pool\<rparr>)"
      by (auto simp: apply_withdraw_confirmed_def Let_def and_then_eq_Ok)
    show ?thesis
      by (simp add: db1 settle_fields set_states_map foldl_delete_dom batch_outcome_def True is_final_def)
  next
    case False
    with ok obtain pool share cap where db1: "db1 =
        (let db2 = accrue_incurred share outs (db\<lparr>pool_state_row := Some pool\<rparr>) in
         if length outs \<le> 1 then foldl (\<lambda>d out. create_withdrawal_refund P u d out REVERTS_WHEN_ISOLATED) db2 outs
         else requeue_withdrawals cap outs db2)"
      by (auto simp: apply_withdraw_confirmed_def Let_def and_then_eq_Ok if_Ok)
    define db2 where "db2 = accrue_incurred share outs (db\<lparr>pool_state_row := Some pool\<rparr>)"
    have db2: "unclaimed_withdrawals db2 = unclaimed_withdrawals db" "refunds db2 = refunds db" "withdrawal_states db2 = withdrawal_states db"
      "pending_user_ops db2 = pending_user_ops db" "submitted_user_ops db2 = submitted_user_ops db"
      using accrue_fields [where share = share and os = outs and db = "db\<lparr>pool_state_row := Some pool\<rparr>"]
      by (simp_all add: db2_def same_ledger_def)
    consider (none) "outs = []" "db1 = db2" | (one) o' w where "outs = [o']" "map_of (unclaimed_withdrawals db) o' = Some w"
        "db1 = create_withdrawal_refund P u db2 o' REVERTS_WHEN_ISOLATED"
      | (more) "length outs > 1" "db1 = requeue_withdrawals cap outs db2"
      using db1 here unfolding db2_def [symmetric] Let_def by (cases outs rule: remdups_adj.cases) auto
    then show ?thesis
    proof cases
      case none
      then show ?thesis using db2 by simp
    next
      case one
      then show ?thesis
        using db2 False by (auto simp: create_withdrawal_refund_def Let_def batch_outcome_def is_final_def update_conv' delete_conv'
            refund_of_def intro: le_trans [OF diff_le_self saturating_add_le])
    next
      case more
      have "unclaimed_withdrawals db1 = unclaimed_withdrawals db2" "refunds db1 = refunds db2"
        using requeue_fields(1) [where cap = cap and os = outs and db = db2] more(2) by (simp_all add: same_ledger_def)
      then show ?thesis using more db2 False
        by (simp add: requeue_fields set_states_map batch_outcome_def is_final_def)
    qed
  qed
  then show "map_of (withdrawal_states db1) out = (if out \<in> set outs then Some (batch_outcome obs outs) else map_of (withdrawal_states db) out)"
    "map_of (unclaimed_withdrawals db1) out =
      (if out \<in> set outs \<and> is_final (batch_outcome obs outs) then None else map_of (unclaimed_withdrawals db) out)"
    "map_of (refunds db1) out = Some r \<Longrightarrow> map_of (refunds db) out = Some r \<or> out \<in> set outs \<and> (\<exists>reason. batch_outcome obs outs = Failed reason) \<and>
      (\<exists>w. map_of (unclaimed_withdrawals db) out = Some w \<and> refund_of w r)"
    "pending_user_ops db1 = pending_user_ops db" "submitted_user_ops db1 = submitted_user_ops db"
    "map_of (refunds db) out \<noteq> None \<or> out \<in> set outs \<and> (\<exists>reason. batch_outcome obs outs = Failed reason) \<Longrightarrow> map_of (refunds db1) out \<noteq> None"
    by simp_all
qed

text \<open>Settling an operation that touches no withdrawal drops operations and changes nothing here.\<close>

lemma settled_grows:
  assumes inv: "usdt_inv P u db issued" and s: "map_of (submitted_user_ops db) h = Some s"
    and db1: "pending_user_ops db1 = pending_user_ops db" "submitted_user_ops db1 = submitted_user_ops db"
      "unclaimed_withdrawals db1 = unclaimed_withdrawals db" "refunds db1 = refunds db" "withdrawal_states db1 = withdrawal_states db"
  shows "grows db (settled_db (unsigned_op (s_signed s)) h db1)"
proof -
  let ?op = "unsigned_op (s_signed s)"
  have "flights (settled_db ?op h db1) \<subseteq> flights db"
    using settled_flights(1) [OF inv s refl db1(1,2)] by (rule subrelI)
  then show ?thesis
    using settled_frame [where ?db1.0 = db1 and op = ?op and h = h] db1 by (simp add: grows_def same_ledger_def)
qed

lemma sweep_confirmed_fields [simp]:
  "pending_user_ops (apply_sweep_confirmed P u db a ok m) = pending_user_ops db"
  "submitted_user_ops (apply_sweep_confirmed P u db a ok m) = submitted_user_ops db"
  "unclaimed_withdrawals (apply_sweep_confirmed P u db a ok m) = unclaimed_withdrawals db"
  "refunds (apply_sweep_confirmed P u db a ok m) = refunds db"
  "withdrawal_states (apply_sweep_confirmed P u db a ok m) = withdrawal_states db"
  by (simp_all add: apply_sweep_confirmed_def Let_def split: option.split)

lemma recovery_confirmed_fields [simp]:
  "pending_user_ops (apply_recovery_confirmed db a) = pending_user_ops db"
  "submitted_user_ops (apply_recovery_confirmed db a) = submitted_user_ops db"
  "unclaimed_withdrawals (apply_recovery_confirmed db a) = unclaimed_withdrawals db"
  "refunds (apply_recovery_confirmed db a) = refunds db"
  "withdrawal_states (apply_recovery_confirmed db a) = withdrawal_states db"
  by (simp_all add: apply_recovery_confirmed_def Let_def split: option.split)

lemma fee_confirmed_fields:
  assumes "apply_fee_withdrawal_confirmed P u db obs paid = Ok db1"
  shows "pending_user_ops db1 = pending_user_ops db" "submitted_user_ops db1 = submitted_user_ops db"
    "unclaimed_withdrawals db1 = unclaimed_withdrawals db" "refunds db1 = refunds db" "withdrawal_states db1 = withdrawal_states db"
  using assms by (auto simp: apply_fee_withdrawal_confirmed_def Let_def and_then_eq_Ok)

lemma withdraw_confirmed_life:
  assumes inv: "usdt_inv P u db issued" and life: "life db" and s: "map_of (submitted_user_ops db) h = Some s"
    and purpose: "s_purpose s = Withdraw outs" and ok: "apply_withdraw_confirmed P u db outs obs moved = Ok db1"
    and inv': "usdt_inv P u (settled_db (unsigned_op (s_signed s)) h db1) issued"
  shows "life (settled_db (unsigned_op (s_signed s)) h db1) \<and> moves db (settled_db (unsigned_op (s_signed s)) h db1)"
proof -
  let ?op = "unsigned_op (s_signed s)" and ?db' = "settled_db (unsigned_op (s_signed s)) h db1"
  note fl = submitted_flight [OF s, unfolded purpose]
  have flight: "sender ?op = pool_account P u" "\<forall>out\<in>set outs. map_of (unclaimed_withdrawals db) out \<noteq> None"
    using inv_flight [OF inv fl] by (auto simp: flight_ok_def Let_def)
  note out = withdraw_outcome [OF ok flight(2)]
  have none: "(op', Withdraw outs') \<notin> flights ?db'" for op' outs'
  proof
    assume in': "(op', Withdraw outs') \<in> flights ?db'"
    from inv_flight [OF inv' this] have "sender op' = pool_account P u" by (auto simp: flight_ok_def Let_def)
    then show False using settled_flights(2) [OF inv s refl out(4,5) in'] flight(1) by simp
  qed
  have "flights ?db' \<subseteq> flights db" using settled_flights(1) [OF inv s refl out(4,5)] by (rule subrelI)
  then have "exclusive ?db'" using life exclusive_mono by (auto simp: life_def)
  moreover have f: "withdrawal_states ?db' = withdrawal_states db1" "unclaimed_withdrawals ?db' = unclaimed_withdrawals db1" "refunds ?db' = refunds db1"
    using settled_frame [where ?db1.0 = db1 and op = ?op and h = h] by (simp_all add: same_ledger_def)
  have "life_ok ?db' \<and> moves db ?db'"
  proof (rule outcome_life [OF inv _ fl none, where st = "batch_outcome obs outs"])
    show "life_ok db" using life by (simp add: life_def)
    show "batch_outcome obs outs = Queued \<or> is_final (batch_outcome obs outs)" by (simp add: batch_outcome_def is_final_def)
  qed (simp_all only: f out(1,2), rule out(3), assumption, rule out(6), assumption)
  ultimately show ?thesis by (simp add: life_def)
qed

lemma confirmed_life:
  assumes env: "abi_laws P" and inv: "usdt_inv P u db issued" and life: "life db"
    and ok: "apply_user_op_confirmed P u db h obs = (Ok db' :: (usdt_db, 'e) result)"
  shows "life db' \<and> moves db db'"
  using inv ok
proof (cases rule: confirmed_cases)
  case unknown
  have "grows db db'" by (simp add: unknown grows_def flights_def)
  then show ?thesis using grows_life [OF life] grows_moves moves_frame by blast
next
  case ignored
  then show ?thesis using life by (simp add: moves_frame)
next
  case (sweep s a moved)
  define d where "d = settled_db (unsigned_op (s_signed s)) h (apply_sweep_confirmed P u db (sender (unsigned_op (s_signed s))) (obs_success obs) moved)"
  have g: "grows db d" unfolding d_def by (rule settled_grows [OF inv sweep(1)]) simp_all
  have "usdt_inv P u d issued" using sweep(4) by (simp add: d_def)
  then have "grows d db'" using sweep_grows by (auto simp: sweep(5) d_def [symmetric] Let_def)
  then show ?thesis using g grows_life [OF grows_life [OF life g]] grows_moves [OF grows_moves [OF moves_frame g]] by blast
next
  case (withdraw s outs moved db1)
  then show ?thesis using withdraw_confirmed_life [OF inv life withdraw(1,2,4)] by simp
next
  case (recovery s a)
  define d where "d = settled_db (unsigned_op (s_signed s)) h (apply_recovery_confirmed db a)"
  have g: "grows db d" unfolding d_def by (rule settled_grows [OF inv recovery(1)]) simp_all
  have "usdt_inv P u d issued" using recovery(3) by (simp add: d_def)
  then have "grows d db'" using sweep_grows by (auto simp: recovery(4) d_def [symmetric])
  then show ?thesis using g grows_life [OF grows_life [OF life g]] grows_moves [OF grows_moves [OF moves_frame g]] by blast
next
  case (fees s recipient amount moved db1)
  have "grows db db'" unfolding fees(5) by (rule settled_grows [OF inv fees(1) fee_confirmed_fields [OF fees(3)]])
  then show ?thesis using grows_life [OF life] grows_moves moves_frame by blast
qed

section \<open>Every step\<close>

definition keeps :: "usdt_db \<Rightarrow> usdt_db \<Rightarrow> bool" where
  "keeps db db' \<longleftrightarrow> same_ledger db db' \<and> pending_user_ops db' = pending_user_ops db \<and>
     submitted_user_ops db' = submitted_user_ops db \<and> withdrawal_states db' = withdrawal_states db"

lemma keeps_grows: "keeps db db' \<Longrightarrow> grows db db'"
  by (simp add: keeps_def grows_def same_ledger_def flights_def)

lemma keeps_inv: "usdt_inv P u db issued \<Longrightarrow> keeps db db' \<Longrightarrow> usdt_inv P u db' issued"
  by (rule usdt_inv_same [of P u db]) (simp_all add: keeps_def)

lemma grows_step: "life db \<Longrightarrow> grows db db' \<Longrightarrow> life db' \<and> moves db db'"
  using grows_life grows_moves [OF moves_frame] by blast

lemma moves_keeps: "keeps db d \<Longrightarrow> moves d db' \<Longrightarrow> moves db db'"
  by (simp add: keeps_def same_ledger_def moves_but_def)

lemma rotate_keeps:
  assumes "process_rotate_signing P u db i = Ok db'"
  shows "keeps db db'"
  using assms by (auto simp: process_rotate_signing_def Let_def and_then_eq_Ok same_ledger_def keeps_def)

lemma vote_items_keep:
  "process_fee_vote u db vote peer = Ok db' \<Longrightarrow> keeps db db'"
  "process_bootstrap_observation P u db obs peer = Ok db' \<Longrightarrow> keeps db db'"
  "process_block_hash P u db bh peer = Ok db' \<Longrightarrow> keeps db db'"
  by (auto simp: process_fee_vote_def process_bootstrap_observation_def process_block_hash_def write_block_hash_ring_def
      Let_def and_then_eq_Ok same_ledger_def keeps_def)

lemma item_life:
  assumes env: "abi_laws P" and inv: "usdt_inv P u db issued" and life: "life db" and ok: "process_item_usdt P u db item peer = Ok db'"
  shows "life db' \<and> moves db db'"
proof -
  have via: "life db' \<and> moves db db'" if "keeps db d" "life d \<Longrightarrow> usdt_inv P u d issued \<Longrightarrow> life db' \<and> moves d db'" for d
    using that(2) [OF grows_life [OF life keeps_grows [OF that(1)]] keeps_inv [OF inv that(1)]] moves_keeps [OF that(1)] by blast
  note plain = grows_step [OF life keeps_grows]
  note defs = process_item_usdt_def and_then_eq_Ok Let_def
  show ?thesis
  proof (cases item)
    case (BlockCount v)
    let ?d = "db\<lparr>block_count_votes := AList.update peer v (block_count_votes db)\<rparr>"
    have b: "maybe_trigger_withdrawal_batch P u ?d = (Ok db' :: (usdt_db, ItemError) result)"
      using ok by (simp add: defs BlockCount)
    show ?thesis by (rule via [of ?d]) (use batch_life [OF env _ _ b] in \<open>simp_all add: keeps_def same_ledger_def\<close>)
  next
    case (MpcRound x)
    then show ?thesis using ok mpc_round_frame [of u db x peer db'] by (intro plain) (simp add: defs keeps_def)
  next
    case (RotateSigning x)
    then show ?thesis using ok rotate_keeps by (intro plain) (simp add: defs)
  next
    case (ReplaceUserOp x)
    then show ?thesis using ok replace_life [OF inv life] by (simp add: defs)
  next
    case (MpcSignature i sig)
    then show ?thesis using ok grows_step [OF life signature_grows] by (simp add: defs)
  next
    case (UserOpConfirmed h obs)
    define d where "d = db\<lparr>user_op_confirmed_votes := AList.update (h, peer) obs (user_op_confirmed_votes db)\<rparr>"
    consider "db' = d" | "apply_user_op_confirmed P u d h obs = (Ok db' :: (usdt_db, ItemError) result)"
      using ok by (auto simp: defs UserOpConfirmed process_user_op_confirmed_def d_def [symmetric] split: if_splits)
    then show ?thesis
      by (intro via [of d]; cases) (use confirmed_life [OF env] in \<open>simp_all add: d_def keeps_def same_ledger_def moves_frame\<close>)
  next
    case (FeeVoteItem v)
    then show ?thesis using ok vote_items_keep(1) by (intro plain) (simp add: defs)
  next
    case (BootstrapObservationItem v)
    then show ?thesis using ok vote_items_keep(2) by (intro plain) (simp add: defs)
  next
    case (BlockHash v)
    then show ?thesis using ok vote_items_keep(3) by (intro plain) (simp add: defs)
  next
    case (RecoverResidualItem a v)
    let ?d = "db\<lparr>recover_residual_votes := AList.update (a, peer) v (recover_residual_votes db)\<rparr>"
    have "db' = maybe_trigger_residual_recovery P u ?d a" using ok by (auto simp: defs RecoverResidualItem process_recover_residual_def)
    then show ?thesis
      by (intro via [of ?d]) (use grows_step residual_grows in \<open>simp_all add: keeps_def same_ledger_def\<close>)
  next
    case (WithdrawFeesVoteItem v)
    let ?d = "db\<lparr>withdraw_fees_votes := AList.update peer v (withdraw_fees_votes db)\<rparr>"
    have "db' = maybe_trigger_fee_withdrawal P u ?d" using ok by (auto simp: defs WithdrawFeesVoteItem process_withdraw_fees_vote_def)
    then show ?thesis
      by (intro via [of ?d]) (use grows_step fee_withdrawal_grows in \<open>simp_all add: keeps_def same_ledger_def\<close>)
  next
    case (ItemDefault x y)
    then show ?thesis using ok by (simp add: defs)
  qed
qed

lemma refund_life:
  assumes life: "life db" and db': "db' = db\<lparr>refunds := AList.delete out (refunds db)\<rparr>"
  shows "life db' \<and> moves_but {out} db db'"
proof -
  have fl: "flights db' = flights db" by (simp add: db' flights_def)
  have "exclusive db'" using life exclusive_mono fl unfolding life_def by blast
  moreover have "life_ok db'"
    using life unfolding life_def life_ok_def fl by (simp add: db' delete_conv')
  moreover have "moves_but {out} db db'" by (auto simp: moves_but_def db' delete_conv')
  ultimately show ?thesis by (simp add: life_def)
qed

text \<open>What an action targets: the refund it pays or the withdrawal it adds.\<close>

definition targets :: "usdt_action \<Rightarrow> OutPoint set" where
  "targets act = (case act of InputAct (RefundV0 out) \<Rightarrow> {out} | OutputAct _ out \<Rightarrow> {out} | _ \<Rightarrow> {})"

lemma targets_simps [simp]:
  "targets (ItemAct i p) = {}" "targets (OutputAct x y) = {y}" "targets (InputAct (RefundV0 out)) = {out}"
  "targets (InputAct (DepositProofV0 a b c)) = {}" "targets (InputAct (UsdtInputDefault a' b')) = {}"
  by (simp_all add: targets_def)

lemma input_life:
  assumes inv: "usdt_inv P u db issued" and life: "life db"
    and ok: "process_input_usdt P u db inp = Ok (db', amounts, pk)" and bound: "holdings P u db' < 2 ^ 63" and clear: "account_clear P u inp"
  shows "life db' \<and> moves_but (targets (InputAct inp)) db db'"
proof (cases inp)
  case (RefundV0 out)
  with refund_input_result [of P u db out] ok refund_life [OF life] show ?thesis by (metis targets_simps(3))
next
  case (DepositProofV0 claim_pk dp fee)
  from deposit_input_inv [OF inv ok [unfolded this] bound clear [unfolded this]] obtain a r' i where
    db': "db' = maybe_trigger_sweep P u (db\<lparr>deposit_records := AList.update a r' (deposit_records db)\<rparr>) a"
    and inv1: "usdt_inv P u (db\<lparr>deposit_records := AList.update a r' (deposit_records db)\<rparr>) i" by metis
  let ?d = "db\<lparr>deposit_records := AList.update a r' (deposit_records db)\<rparr>"
  have "grows db ?d" by (simp add: grows_def flights_def)
  from grows_step [OF life this] grows_life [of ?d db'] grows_moves [of db ?d db'] sweep_grows [OF inv1, of a]
  show ?thesis by (simp add: db' DepositProofV0)
next
  case (UsdtInputDefault v b)
  then show ?thesis using ok by (simp add: process_input_usdt_def)
qed

lemma output_life:
  assumes inv: "usdt_inv P u db issued" and life: "life db"
    and ok: "process_output_usdt P u db item out = Ok (db', amounts)" and fresh: "map_of (withdrawal_states db) out = None"
  shows "life db' \<and> moves_but {out} db db'"
proof -
  from usdt_output_result [OF ok] obtain w where
    db': "db' = db\<lparr>unclaimed_withdrawals := AList.update out w (unclaimed_withdrawals db),
      withdrawal_states := AList.update out Queued (withdrawal_states db)\<rparr>" by metis
  have fl: "flights db' = flights db" by (simp add: db' flights_def)
  have new: "map_of (refunds db) out = None" using inv_states [OF inv] fresh by (auto simp: dom_def)
  have off: "out \<notin> set outs" if "(op, Withdraw outs) \<in> flights db" for op outs
    using life_flight [of db op outs out] life fresh that by (auto simp: life_def)
  have "exclusive db'" using life exclusive_mono fl unfolding life_def by blast
  moreover have "life_ok db'"
    using life fresh new off unfolding life_def life_ok_def fl
    by (auto simp: db' update_conv' is_open_def)
  moreover have "moves_but {out} db db'" using fresh new by (auto simp: moves_but_def db' update_conv' state_next_def)
  ultimately show ?thesis by (simp add: life_def)
qed

lemma step_life:
  assumes "usdt_step P u (db, issued) a (db', issued')" and "abi_laws P" and "usdt_inv P u db issued" and "life db"
  shows "life db' \<and> moves_but (targets a) db db'"
  using assms(1)
proof (cases rule: usdt_step.cases)
  case (step_item ci peer)
  then show ?thesis using item_life [OF assms(2-4)] by simp
next
  case (step_input inp amounts pk)
  then show ?thesis using input_life [OF assms(3,4)] by simp
next
  case (step_output out_item out amounts)
  then show ?thesis using output_life [OF assms(3,4)] by simp
qed

lemma reachable_life:
  assumes "usdt_reachable P u (db, issued)" and env: "abi_laws P"
  shows "life db"
proof -
  have "life (fst (db, issued))"
  proof (rule usdt_sys.reachable_closed [of "\<lambda>s. life (fst s)" P u, OF _ _ assms(1) [unfolded usdt_reachable_def]])
    show "life (fst s)" if "usdt_start s" for s
      using that by (simp add: usdt_start_def empty_usdt_db_def life_def exclusive_def life_ok_def flights_def)
    show "life (fst s')" if "usdt_good P u s" "life (fst s)" "usdt_step P u s l s'" for s l s'
      using step_life [of P u "fst s" "snd s" l "fst s'" "snd s'"] that env by (simp add: usdt_good_def)
  qed
  then show ?thesis by simp
qed

section \<open>Whole runs\<close>

inductive usdt_run :: "evm_platform \<Rightarrow> Usdt \<Rightarrow> usdt_action list \<Rightarrow> usdt_db \<times> nat \<Rightarrow> bool" for P u where
  run_start: "usdt_run P u [] (empty_usdt_db, 0)"
| run_step: "usdt_run P u acts s \<Longrightarrow> usdt_step P u s a s' \<Longrightarrow> usdt_run P u (acts @ [a]) s'"

lemma run_reachable: "usdt_run P u acts s \<Longrightarrow> usdt_reachable P u s"
  unfolding usdt_reachable_def
  by (induction rule: usdt_run.induct) (auto intro: reachable.start reachable.step simp: usdt_start_def)

text \<open>A withdrawal with nothing left to pay: it was accepted, and is neither unclaimed nor refundable.\<close>

definition closed_out :: "usdt_db \<Rightarrow> OutPoint \<Rightarrow> bool" where
  "closed_out db out \<longleftrightarrow> map_of (withdrawal_states db) out \<noteq> None \<and> map_of (unclaimed_withdrawals db) out = None \<and>
     map_of (refunds db) out = None"

lemma movesD:
  assumes "moves_but E db db'"
  shows "state_next (map_of (withdrawal_states db) out) (map_of (withdrawal_states db') out)"
    "map_of (withdrawal_states db) out \<noteq> None \<Longrightarrow> map_of (unclaimed_withdrawals db) out = None \<Longrightarrow> map_of (unclaimed_withdrawals db') out = None"
    "map_of (unclaimed_withdrawals db) out = None \<Longrightarrow> map_of (refunds db') out \<noteq> None \<Longrightarrow> map_of (refunds db') out = map_of (refunds db) out"
    "map_of (withdrawal_states db') out = Some (Failed reason) \<Longrightarrow>
       map_of (withdrawal_states db) out = Some (Failed reason) \<or> map_of (refunds db') out \<noteq> None"
    "map_of (refunds db) out \<noteq> None \<Longrightarrow> out \<notin> E \<Longrightarrow> map_of (refunds db') out \<noteq> None"
    "map_of (unclaimed_withdrawals db') out = Some w \<Longrightarrow> out \<notin> E \<Longrightarrow> map_of (unclaimed_withdrawals db) out = Some w"
    "map_of (refunds db') out = Some r \<Longrightarrow> map_of (refunds db) out = Some r \<or> (\<exists>w. map_of (unclaimed_withdrawals db) out = Some w \<and> refund_of w r)"
  using assms unfolding moves_but_def by (blast, blast, fastforce, blast, blast, blast, blast)

lemma moves_known: "moves_but E db db' \<Longrightarrow> map_of (withdrawal_states db) out \<noteq> None \<Longrightarrow> map_of (withdrawal_states db') out \<noteq> None"
  using movesD(1) [of E db db' out] by (cases "map_of (withdrawal_states db') out") (auto simp: state_next_def split: WithdrawalState.splits)

lemma closed_out_moves: "moves_but E db db' \<Longrightarrow> closed_out db out \<Longrightarrow> closed_out db' out"
  using moves_known [of E db db' out] movesD(2,3) [of E db db' out] unfolding closed_out_def by (cases "map_of (refunds db') out") auto

lemma refund_closes:
  assumes life: "life db" and inv: "usdt_inv P u db issued" and ok: "process_input_usdt P u db (RefundV0 out) = Ok (db', amounts, pk)"
  shows "closed_out db' out \<and> \<not> closed_out db out"
proof -
  from refund_input_result [OF ok] obtain r where r: "map_of (refunds db) out = Some r"
    and db': "db' = db\<lparr>refunds := AList.delete out (refunds db)\<rparr>" by metis
  have "map_of (unclaimed_withdrawals db) out = None" using inv_exclusive [OF inv] r by (auto simp: dom_def)
  then show ?thesis using life_refund [of db out r] life r by (auto simp: closed_out_def db' delete_conv' life_def)
qed

lemma run_refunds:
  assumes "usdt_run P u acts s" and env: "abi_laws P"
  shows "count_list acts (InputAct (RefundV0 out)) = 0 \<or>
    count_list acts (InputAct (RefundV0 out)) = 1 \<and> closed_out (fst s) out"
  using assms(1)
proof (induction rule: usdt_run.induct)
  case run_start
  then show ?case by simp
next
  case (run_step acts s a s')
  obtain db issued db' issued' where s: "s = (db, issued)" "s' = (db', issued')" by (cases s, cases s')
  note reach = run_reachable [OF run_step.hyps(1), unfolded s]
  note inv = usdt_reachable_inv [OF reach env] and life = reachable_life [OF reach env]
  have m: "moves_but (targets a) db db'" using step_life [OF _ env inv life] run_step.hyps(2) s by blast
  have "closed_out db' out \<and> \<not> closed_out db out" if "a = InputAct (RefundV0 out)"
    using run_step.hyps(2) refund_closes [OF life inv] unfolding s that by (auto elim: usdt_stepE)
  then show ?case using run_step.IH closed_out_moves [OF m, of out] unfolding s by auto
qed

text \<open>
  C2. Each step from a reachable state moves every withdrawal along one edge of its life cycle, or leaves
  it: a new one is queued; a queued one is signed; one being signed is paid, refunded, signed again or
  queued again; and a paid or refunded one stays so for ever. The documented state \<open>Submitted\<close> is never
  entered.
\<close>

theorem withdrawal_lifecycle:
  assumes "usdt_reachable P u (db, issued)" and "abi_laws P" and "usdt_step P u (db, issued) act (db', issued')"
  shows "state_next (map_of (withdrawal_states db) out) (map_of (withdrawal_states db') out)"
  using step_life [OF assms(3,2) usdt_reachable_inv [OF assms(1,2)] reachable_life [OF assms(1,2)]]
  unfolding moves_but_def by blast

theorem withdrawal_lifecycle_witness:
  "usdt_reachable demo_evm demo_usdt (demo_deposited, 8080000) \<and>
   usdt_step demo_evm demo_usdt (demo_deposited, 8080000) (OutputAct (UsdtV0 demo_withdrawal) (OutPoint 1 0)) (demo_queued, 2216000) \<and>
   state_next (map_of (withdrawal_states demo_deposited) (OutPoint 1 0)) (map_of (withdrawal_states demo_queued) (OutPoint 1 0)) \<and>
   map_of (withdrawal_states demo_queued) (OutPoint 1 0) = Some Queued"
  using withdrawal_lifecycle [OF demo_deposited_reachable demo_abi_laws demo_step_withdraw] demo_deposited_reachable demo_step_withdraw
  by (intro conjI) (assumption, assumption, blast, simp add: demo_queued_def)

text \<open>
  C3. A refund is paid at most once. In any sequence of accepted consensus items, inputs and outputs the
  refund input of one withdrawal occurs at most once; in every state after it the withdrawal is neither
  open nor refundable, and another refund input is refused.
\<close>

theorem refund_at_most_once:
  assumes "usdt_run P u acts (db, issued)" and "abi_laws P"
  shows "count_list acts (InputAct (RefundV0 out)) \<le> 1 \<and>
    (InputAct (RefundV0 out) \<in> set acts \<longrightarrow>
      map_of (unclaimed_withdrawals db) out = None \<and> map_of (refunds db) out = None \<and>
      process_input_usdt P u db (RefundV0 out) = Err UnknownRefund)"
  using run_refunds [OF assms, of out] count_list_0_iff [of acts "InputAct (RefundV0 out)"]
  by (auto simp: closed_out_def process_input_usdt_def)

lemma run_failed:
  assumes "usdt_run P u acts s" and env: "abi_laws P"
  shows "map_of (withdrawal_states (fst s)) out = Some (Failed reason) \<Longrightarrow>
    map_of (refunds (fst s)) out \<noteq> None \<or> InputAct (RefundV0 out) \<in> set acts"
  using assms(1)
proof (induction arbitrary: reason rule: usdt_run.induct)
  case run_start
  then show ?case by (simp add: empty_usdt_db_def)
next
  case (run_step acts s a s')
  obtain db issued db' issued' where s: "s = (db, issued)" "s' = (db', issued')" by (cases s, cases s')
  note reach = run_reachable [OF run_step.hyps(1), unfolded s]
  note inv = usdt_reachable_inv [OF reach env] and life = reachable_life [OF reach env]
  have m: "moves_but (targets a) db db'" using step_life [OF _ env inv life] run_step.hyps(2) s by blast
  have "a = InputAct (RefundV0 out) \<or> map_of (withdrawal_states db) out = None" if "out \<in> targets a"
    using that run_step.hyps(2) unfolding s by (auto simp: targets_def split: usdt_action.splits UsdtInput.splits elim: usdt_stepE)
  then show ?case
    using run_step.IH [of reason] run_step.prems movesD(4,5) [OF m, of out] unfolding s by (cases "out \<in> targets a") auto
qed

lemma run_two: "usdt_run P u acts s \<Longrightarrow> usdt_step P u s a s1 \<Longrightarrow> usdt_step P u s1 b s2 \<Longrightarrow> usdt_run P u (acts @ [a, b]) s2"
  using run_step [of P u "acts @ [a]" s1 b s2] run_step [of P u acts s a s1] by simp

lemma reachable_run:
  assumes "usdt_reachable P u s"
  obtains acts where "usdt_run P u acts s"
proof -
  have "\<exists>acts. usdt_run P u acts s"
    using assms unfolding usdt_reachable_def
    by (induction rule: reachable.induct) (auto simp: usdt_start_def intro: run_start run_step)
  then show ?thesis using that by blast
qed

text \<open>The run of the failed withdrawal: its refund occurs once and is refused a second time.\<close>

theorem refund_at_most_once_witness:
  "\<exists>acts. usdt_run demo_evm demo_usdt acts (demo_reverted\<lparr>refunds := []\<rparr>, 8080000) \<and> InputAct (RefundV0 (OutPoint 1 0)) \<in> set acts \<and>
     count_list acts (InputAct (RefundV0 (OutPoint 1 0))) \<le> 1 \<and>
     map_of (unclaimed_withdrawals (demo_reverted\<lparr>refunds := []\<rparr>)) (OutPoint 1 0) = None \<and>
     process_input_usdt demo_evm demo_usdt (demo_reverted\<lparr>refunds := []\<rparr>) (RefundV0 (OutPoint 1 0)) = Err UnknownRefund"
proof -
  from reachable_run [OF demo_queued_reachable] obtain acts where "usdt_run demo_evm demo_usdt acts (demo_queued, 2216000)" .
  from run_two [OF run_two [OF run_two [OF this demo_step_sign demo_step_sweep] demo_step_batch demo_step_sign_payout]
      demo_step_revert demo_step_refund]
  have "\<exists>acts. usdt_run demo_evm demo_usdt (acts @ [InputAct (RefundV0 (OutPoint 1 0))]) (demo_reverted\<lparr>refunds := []\<rparr>, 8080000)"
    by (metis append.assoc append_Cons append_Nil)
  then obtain acts' where r: "usdt_run demo_evm demo_usdt (acts' @ [InputAct (RefundV0 (OutPoint 1 0))]) (demo_reverted\<lparr>refunds := []\<rparr>, 8080000)" ..
  from refund_at_most_once [OF r demo_abi_laws, of "OutPoint 1 0"] r show ?thesis by (intro exI) auto
qed

text \<open>
  C4. One operation per account. Any two operations of one account that are in flight at the same time
  serve the same purpose and are equal in everything but their gas prices, nonce and call data included:
  the chain can execute only one of them, and whichever it is, the books settle the same way.
\<close>

theorem operations_in_flight_agree:
  assumes "usdt_reachable P u (db, issued)" and "abi_laws P"
    and "(op, purpose) \<in> flights db" and "(op', purpose') \<in> flights db" and "sender op = sender op'"
  shows "same_effect op op' \<and> purpose = purpose'"
  using reachable_life [OF assms(1,2)] assms(3-5) unfolding life_def exclusive_def by blast

lemma demo_replaced_reachable: "usdt_reachable demo_evm demo_usdt (demo_replaced, 2216000)"
  using demo_queued_reachable demo_step_sign demo_step_late demo_step_replace unfolding usdt_reachable_def by (meson reachable.step)

theorem operations_in_flight_agree_witness:
  "usdt_reachable demo_evm demo_usdt (demo_replaced, 2216000) \<and> abi_laws demo_evm \<and>
   (demo_sweep, DeployAndSweep 25) \<in> flights demo_replaced \<and> (demo_sweep', DeployAndSweep 25) \<in> flights demo_replaced \<and>
   sender demo_sweep = sender demo_sweep' \<and> max_fee_per_gas demo_sweep' = 2200000000 \<and> same_effect demo_sweep demo_sweep'"
proof -
  have f: "(demo_sweep, DeployAndSweep 25) \<in> flights demo_replaced" "(demo_sweep', DeployAndSweep 25) \<in> flights demo_replaced"
    "sender demo_sweep = sender demo_sweep'"
    by (simp_all add: flights_def demo_replaced_def demo_submitted_def demo_sweep'_def)
  with operations_in_flight_agree [OF demo_replaced_reachable demo_abi_laws f] demo_replaced_reachable demo_abi_laws
  show ?thesis by (simp add: demo_sweep'_def)
qed

end
