(* ===== verification/Usdt_Claims.thy ===== *)
theory Usdt_Claims
  imports Usdt_Client Usdt_Lifecycle
begin

text \<open>
  The client against the guardians: a deposit to an address the client allocated is discovered although
  some guardians lie, what the client claims is what the server credits, recovery finds what the seed
  owns, and the refund machine tells the truth about the server.
\<close>

section \<open>Paging through one guardian\<close>

locale honest_guardian =
  fixes fetch :: candidate_source and known :: "TransferCandidate set"
  assumes served: "fetch i s = Some (page, mark) \<Longrightarrow> c \<in> known \<Longrightarrow> s < tc_block_number c \<Longrightarrow> tc_block_number c \<le> mark \<Longrightarrow> c \<in> set page"
begin

lemma page_loop_complete:
  assumes "page_loop n i fetch s cs m = Some (cs', mark)" and "c \<in> known" and "since_block < tc_block_number c" and "tc_block_number c \<le> mark"
    and "tc_block_number c \<le> s \<Longrightarrow> c \<in> set cs" and "n = 0 \<or> i > 0 \<Longrightarrow> m \<le> s"
  shows "c \<in> set cs'"
  using assms
proof (induction n arbitrary: i s cs m)
  case 0
  then show ?case by (auto intro: order_trans)
next
  case (Suc n)
  show ?case
  proof (cases "fetch i s")
    case None
    then have "i > 0" "cs' = cs" "mark = m" using Suc.prems(1) by (auto split: if_splits)
    then show ?thesis using Suc.prems by (auto intro: order_trans)
  next
    case (Some r)
    obtain page mark' where r: "r = (page, mark')" by (cases r)
    have here: "c \<in> set (cs @ page)" if "tc_block_number c \<le> mark'"
      using served [OF Some [unfolded r] Suc.prems(2) _ that] Suc.prems(5) by (cases "s < tc_block_number c") auto
    show ?thesis
    proof (cases "length page \<noteq> MAX_TRANSFER_CANDIDATES_PER_RESPONSE \<or> \<not> mark' > s")
      case True
      then have "cs' = cs @ page" "mark = mark'" using Suc.prems(1) Some r by (auto simp: Let_def)
      then show ?thesis using here Suc.prems(4) by simp
    next
      case False
      then have "page_loop n (Suc i) fetch mark' (cs @ page) mark' = Some (cs', mark)" using Suc.prems(1) Some r by (auto simp: Let_def)
      from Suc.IH [OF this Suc.prems(2-4)] here show ?thesis by simp
    qed
  qed
qed

lemma page_complete:
  assumes "page_peer_candidates s fetch = Some (cs, mark)" and "c \<in> known" and "s < tc_block_number c" and "tc_block_number c \<le> mark"
  shows "c \<in> set cs"
  by (rule page_loop_complete [OF assms(1) [unfolded page_peer_candidates_def] assms(2,3,4)])
    (use assms(3) in auto)

end

text \<open>
  A guardian that answers from its log, when it answers at all; the log may change between requests. The
  candidates it is bound to serve are those every state of the log holds once it has scanned their block.
\<close>

definition guardian_source :: "(nat \<Rightarrow> bool) \<Rightarrow> (nat \<Rightarrow> CandidateLog) \<Rightarrow> candidate_source" where
  "guardian_source up logs i s = (if up i then Some (transfer_candidates_endpoint (logs i) s) else None)"

definition held :: "(nat \<Rightarrow> CandidateLog) \<Rightarrow> TransferCandidate set" where
  "held logs = {c. \<forall>i. blocks_sorted (entries (logs i)) \<and>
     (tc_block_number c \<le> scanned_to (logs i) \<longrightarrow> c \<in> set (entries (logs i)))}"

interpretation guardian: honest_guardian "guardian_source up logs" "held logs" for up logs
proof
  fix i s page mark c
  assume fetch: "guardian_source up logs i s = Some (page, mark)" and c: "c \<in> held logs" "s < tc_block_number c" "tc_block_number c \<le> mark"
  have p: "page = fst (since (logs i) s MAX_TRANSFER_CANDIDATES_PER_RESPONSE)" "mark = snd (since (logs i) s MAX_TRANSFER_CANDIDATES_PER_RESPONSE)"
    using fetch by (simp_all add: guardian_source_def transfer_candidates_endpoint_def split: if_splits)
  have "mark \<le> scanned_to (logs i)" unfolding p(2) by (simp add: since_def Let_def split: list.split)
  then have "c \<in> set (entries (logs i))" using c unfolding held_def by (blast intro: order_trans)
  then show "c \<in> set page" using since_complete c unfolding p held_def by blast
qed

section \<open>Discovery\<close>

lemma safe_scan_cursor_votes:
  assumes "safe_scan_cursor xs f = Some c"
  shows "f < length (filter (\<lambda>x. c \<le> x) xs)"
proof -
  let ?s = "rev (sort xs)"
  have f: "f < length ?s" "c = ?s ! f" using assms by (auto simp: safe_scan_cursor_def Let_def split: if_splits)
  have "c \<le> x" if "x \<in> set (take (Suc f) ?s)" for x
  proof -
    from that obtain i where i: "i < Suc f" "x = ?s ! i" using f(1) by (auto simp: in_set_conv_nth)
    have "sorted (sort xs)" by simp
    then show ?thesis unfolding i(2) f(2) using i(1) f(1) by (simp add: rev_nth) (rule sorted_nth_mono, auto)
  qed
  then have "filter (\<lambda>x. c \<le> x) (take (Suc f) ?s) = take (Suc f) ?s" by (simp add: filter_id_conv)
  then have "length (filter (\<lambda>x. c \<le> x) (take (Suc f) ?s)) = Suc f" using f(1) by simp
  moreover have "length (filter (\<lambda>x. c \<le> x) ?s) = length (filter (\<lambda>x. c \<le> x) (take (Suc f) ?s)) + length (filter (\<lambda>x. c \<le> x) (drop (Suc f) ?s))"
    by (metis append_take_drop_id filter_append length_append)
  moreover have "length (filter (\<lambda>x. c \<le> x) ?s) = length (filter (\<lambda>x. c \<le> x) xs)"
    by (simp add: rev_filter [symmetric] filter_sort)
  ultimately show ?thesis by simp
qed

lemma honest_mark:
  assumes "safe_scan_cursor (map snd (List.map_filter g peers)) f = Some c" and "distinct peers"
    and "finite faulty" and "card faulty \<le> f"
  obtains p cs mark where "p \<in> set peers" "p \<notin> faulty" "g p = Some (cs, mark)" "c \<le> mark"
proof -
  let ?R = "filter (\<lambda>p. \<exists>cs mark. g p = Some (cs, mark) \<and> c \<le> mark) peers"
  have "length (filter (\<lambda>x. c \<le> x) (map snd (List.map_filter g peers))) = length ?R"
    by (induction peers) (auto simp: List.map_filter_simps split: option.split)
  then have "f < card (set ?R)" using safe_scan_cursor_votes [OF assms(1)] distinct_card [of ?R] assms(2) by simp
  then have "\<not> set ?R \<subseteq> faulty" using card_mono [OF assms(3), of "set ?R"] assms(4) by linarith
  then show ?thesis using that by auto
qed

lemma match_candidates_complete:
  assumes "c \<in> set cs" and "map_of keys (tc_to c) = Some kp" and "(tc_block_number c, tc_to c, tc_value c) \<notin> set seen"
  shows "\<lparr>dd_account = tc_to c, dd_claim_pk = public_key K kp, dd_block_number = tc_block_number c, dd_value = tc_value c\<rparr> \<in>
    set (match_candidates K keys seen cs)"
  using assms
proof (induction cs arbitrary: seen)
  case (Cons d cs)
  let ?key = "\<lambda>c. (tc_block_number c, tc_to c, tc_value c)"
  show ?case
  proof (cases "?key c = ?key d")
    case True
    then show ?thesis using Cons.prems by (simp add: Let_def)
  next
    case False
    then have "c \<in> set cs" using Cons.prems(1) by auto
    from Cons.IH [OF this Cons.prems(2), of seen] Cons.IH [OF this Cons.prems(2), of "?key d # seen"] Cons.prems(3) False
    show ?thesis by (auto simp: Let_def split: option.split)
  qed
qed simp

lemma discovered:
  assumes res: "discover_deposits K max_evil peers src db = (db', summary)"
    and since: "s = (case scan_cursor db of None \<Rightarrow> 0 | Some c \<Rightarrow> c)"
    and faulty: "distinct peers" "finite faulty" "card faulty \<le> max_evil (length peers)"
    and honest: "\<And>p. p \<in> set peers \<Longrightarrow> p \<notin> faulty \<Longrightarrow> src p = guardian_source (up p) (logs p) \<and> c \<in> held (logs p)"
    and c: "map_of (claim_keys db) (tc_to c) = Some kp" "s < tc_block_number c" "tc_block_number c \<le> ds_cursor summary"
  shows "\<lparr>dd_account = tc_to c, dd_claim_pk = public_key K kp, dd_block_number = tc_block_number c, dd_value = tc_value c\<rparr> \<in>
    set (ds_matches summary)"
proof -
  let ?g = "\<lambda>p. page_peer_candidates s (src p)"
  let ?responses = "List.map_filter ?g peers"
  have m: "ds_matches summary = match_candidates K (claim_keys db) [] (concat (map fst ?responses))"
    and cur: "ds_cursor summary = max (case safe_scan_cursor (map snd ?responses) (max_evil (length peers)) of None \<Rightarrow> s | Some c \<Rightarrow> c) s"
    using arg_cong [OF res, of "ds_matches \<circ> snd"] arg_cong [OF res, of "ds_cursor \<circ> snd"]
    unfolding discover_deposits_def Let_def since [symmetric] by simp_all
  from c(2,3) cur obtain cursor where safe: "safe_scan_cursor (map snd ?responses) (max_evil (length peers)) = Some cursor"
    and le: "tc_block_number c \<le> cursor" by (auto simp: max_def split: option.splits if_splits)
  from honest_mark [OF safe faulty] obtain p cs mark where p: "p \<in> set peers" "p \<notin> faulty" "?g p = Some (cs, mark)" "cursor \<le> mark" .
  have "c \<in> set cs"
    using guardian.page_complete [of s "up p" "logs p" cs mark c] honest [OF p(1,2)] p(3) c(2) order_trans [OF le p(4)] by simp
  moreover have "(cs, mark) \<in> set ?responses" using p(1,3) by (force simp: List.map_filter_def)
  ultimately have "c \<in> set (concat (map fst ?responses))" by force
  from match_candidates_complete [OF this c(1), of "[]"] show ?thesis by (simp add: m)
qed

text \<open>The candidate a guardian makes of a transfer.\<close>

definition candidate_of :: "TransferLog \<Rightarrow> TransferCandidate" where
  "candidate_of l = \<lparr>tc_block_number = tl_block_number l, tc_to = tl_to l,
     tc_value = (case try_into (tl_value l) of Some v \<Rightarrow> v | None \<Rightarrow> - 1)\<rparr>"

text \<open>
  A log that is bound to hold a transfer: its scanner reads the chain, started before the block of the
  transfer, has not left it behind the retention window, and found no more than fit in that window.
\<close>

definition watches :: "evm_platform \<Rightarrow> Usdt \<Rightarrow> scan_config \<Rightarrow> TransferLog list \<Rightarrow> TransferLog \<Rightarrow> CandidateLog \<Rightarrow> bool" where
  "watches P u c chain l log \<longleftrightarrow>
     (\<exists>node start. reads_chain node (sc_contract c) chain \<and> scan_reach P u node c start log \<and> start < tl_block_number l \<and>
        saturating_sub (scanned_to log) CANDIDATE_RETENTION_BLOCKS \<le> tl_block_number l \<and>
        length (filter (\<lambda>e. saturating_sub (scanned_to log) CANDIDATE_RETENTION_BLOCKS \<le> tc_block_number e)
          (chain_candidates P (sc_group_public_key c) chain start (scanned_to log))) \<le> MAX_CANDIDATE_ENTRIES)"

lemma watches_holds:
  assumes "watches P u c chain l log" and l: "l \<in> set chain" "tl_value l > 0" "is_potential_deposit P (sc_group_public_key c) (tl_to l)"
  shows "blocks_sorted (entries log) \<and> (tl_block_number l \<le> scanned_to log \<longrightarrow> candidate_of l \<in> set (entries log))"
proof -
  let ?keep = "saturating_sub (scanned_to log) CANDIDATE_RETENTION_BLOCKS"
  from assms(1) obtain node start where node: "reads_chain node (sc_contract c) chain" "scan_reach P u node c start log"
    and b: "start < tl_block_number l" "?keep \<le> tl_block_number l"
    and cap: "length (filter (\<lambda>e. ?keep \<le> tc_block_number e) (chain_candidates P (sc_group_public_key c) chain start (scanned_to log))) \<le> MAX_CANDIDATE_ENTRIES"
    unfolding watches_def by blast
  let ?all = "chain_candidates P (sc_group_public_key c) chain start (scanned_to log)"
  have s: "blocks_sorted ?all" using node(1) chain_candidates_sorted by (auto simp: reads_chain_def)
  show ?thesis
  proof (cases "scanned_to log = 0")
    case True
    then have "entries log = []" using scan_reach_holds [OF node(2,1)] by (simp add: scan_holds_def)
    moreover have "\<not> tl_block_number l \<le> 0" using b(1) by (auto simp: word_order)
    ultimately show ?thesis using True by simp
  next
    case False
    have e: "entries log = filter (\<lambda>e. ?keep \<le> tc_block_number e) ?all"
      using scan_reach_holds [OF node(2,1)] False cap by (simp add: scan_holds_def dropWhile_sorted [OF s] prune_cap_def)
    have "candidate_of l \<in> set ?all" if "tl_block_number l \<le> scanned_to log"
      unfolding chain_candidates_def filter_scan_candidates_def candidate_of_def using l b(1) that by auto
    moreover have "tc_block_number (candidate_of l) = tl_block_number l" by (simp add: candidate_of_def)
    ultimately show ?thesis using s b(2) by (simp add: e sorted_filter)
  qed
qed

text \<open>
  C7. Deposits are discovered. Let at most \<open>max_evil\<close> of the guardians lie or stay silent; the others
  serve their logs, which may grow while the client pages through them. Each of their logs comes from a
  scanner whose node answers for the configured token, that started before the block of the transfer, has
  not left that block behind the retention window, and found at most 4096 candidates in the window. When
  a discovery round then moves the client's cursor past the block of a transfer to one of its
  discoverable addresses, that transfer is among the matches of the round, with its value, saturated at
  64 bits, and the key that claims it.
\<close>

theorem deposits_discovered:
  assumes "discover_deposits K max_evil peers src db = (db', summary)"
    and "distinct peers" and "finite faulty" and "card faulty \<le> max_evil (length peers)"
    and "\<forall>p. p \<in> set peers \<longrightarrow> p \<notin> faulty \<longrightarrow> src p = guardian_source (up p) (logs p) \<and> (\<forall>i. watches P u c chain l (logs p i))"
    and "l \<in> set chain" and "tl_value l > 0" and "is_potential_deposit P (sc_group_public_key c) (tl_to l)"
    and "map_of (claim_keys db) (tl_to l) = Some kp"
    and "(case scan_cursor db of None \<Rightarrow> 0 | Some s \<Rightarrow> s) < tl_block_number l" and "tl_block_number l \<le> ds_cursor summary"
  shows "\<exists>d\<in>set (ds_matches summary). dd_account d = tl_to l \<and> dd_block_number d = tl_block_number l \<and> dd_claim_pk d = public_key K kp \<and>
    unat (dd_value d) = min (unat (tl_value l)) (2 ^ 64 - 1)"
proof -
  have v: "unat (tc_value (candidate_of l)) = min (unat (tl_value l)) (2 ^ 64 - 1)"
  proof (cases "try_into (tl_value l) :: u64 option")
    case (Some v)
    then have "unat v = unat (tl_value l)" by (simp add: try_into_Some)
    then show ?thesis using Some unat_bound [of v] by (simp add: candidate_of_def)
  qed (use try_into_None [of "tl_value l", where 'b = 64] in \<open>simp add: candidate_of_def unat_minus_1\<close>)
  have f: "tc_to (candidate_of l) = tl_to l" "tc_block_number (candidate_of l) = tl_block_number l" by (simp_all add: candidate_of_def)
  have h: "src p = guardian_source (up p) (logs p) \<and> candidate_of l \<in> held (logs p)" if "p \<in> set peers" "p \<notin> faulty" for p
    using assms(5) that watches_holds [of P u c chain l "logs p i" for i, OF _ assms(6-8)] by (auto simp: held_def f)
  from discovered [OF assms(1) refl assms(2-4) h, of kp] assms(9-11) f v show ?thesis by force
qed

definition demo_keys :: "bytes key_platform" where
  "demo_keys = \<lparr>claim_keypair = (\<lambda>i. [ucast i + 3]), refund_keypair = (\<lambda>i. [ucast i, 5]), public_key = (\<lambda>k. k), 
     add_tweak = (\<lambda>k t. Some (demo_add_tweak k t))\<rparr>"

definition demo_client :: "bytes usdt_client_db" where
  "demo_client = \<lparr>claim_keys = [(25, [3])], next_deposit_index = Some 1, refund_keys = [], next_refund_index = None,
     evm_rpc_url = None, scan_cursor = Some 90\<rparr>"

text \<open>Four guardians; the last claims to have scanned far ahead and to have found nothing.\<close>

definition demo_guardians :: "PeerId \<Rightarrow> candidate_source" where
  "demo_guardians p = (if p = 3 then (\<lambda>_ _. Some ([], 99999)) else guardian_source (\<lambda>_. True) (\<lambda>_. demo_log))"

lemma demo_watches: "watches scan_evm demo_usdt demo_scan demo_chain \<lparr>tl_block_number = 100, tl_to = 25, tl_value = 10000000\<rparr> demo_log"
proof -
  have "saturating_sub (scanned_to demo_log) CANDIDATE_RETENTION_BLOCKS = 0" by (simp add: demo_log_def CANDIDATE_RETENTION_BLOCKS_def eval_ops)
  then show ?thesis
    unfolding watches_def
    by (intro exI [of _ demo_node] exI [of _ 0] conjI demo_node_reads demo_log_reach)
      (simp_all add: chain_candidates_def filter_scan_candidates_def demo_chain_def MAX_CANDIDATE_ENTRIES_def)
qed

lemma demo_pages:
  "page_peer_candidates 90 (\<lambda>_ _. Some ([], 99999)) = Some ([], 99999)"
  "page_peer_candidates 90 (guardian_source (\<lambda>_. True) (\<lambda>_. demo_log)) = Some (entries demo_log, 200)"
proof -
  have one: "page_peer_candidates 90 f = (case f 0 90 of None \<Rightarrow> None | Some (page, mark) \<Rightarrow> Some (page, mark))"
    if "\<And>page mark. f 0 90 = Some (page, mark) \<Longrightarrow> length page \<noteq> MAX_TRANSFER_CANDIDATES_PER_RESPONSE" for f
    using page_loop.simps(2) [of 31 0 f 90 "[]" 90] that
    by (auto simp: page_peer_candidates_def MAX_CATCHUP_PAGES_def Let_def simp del: page_loop.simps split: option.split)
  show "page_peer_candidates 90 (\<lambda>_ _. Some ([], 99999)) = Some ([], 99999)"
    by (subst one) (simp_all add: MAX_TRANSFER_CANDIDATES_PER_RESPONSE_def)
  have g: "guardian_source (\<lambda>_. True) (\<lambda>_. demo_log) 0 90 = Some (entries demo_log, 200)"
    by (simp add: guardian_source_def transfer_candidates_endpoint_def since_def demo_log_def MAX_TRANSFER_CANDIDATES_PER_RESPONSE_def)
  show "page_peer_candidates 90 (guardian_source (\<lambda>_. True) (\<lambda>_. demo_log)) = Some (entries demo_log, 200)"
    by (subst one) (simp_all add: g, simp add: demo_log_def MAX_TRANSFER_CANDIDATES_PER_RESPONSE_def)
qed

lemma demo_discovery:
  "ds_cursor (snd (discover_deposits demo_keys (\<lambda>n. (n - 1) div 3) [0, 1, 2, 3] demo_guardians demo_client)) = 200"
  by (simp add: discover_deposits_def Let_def demo_client_def List.map_filter_simps demo_guardians_def demo_pages safe_scan_cursor_def)

theorem deposits_discovered_witness:
  "\<exists>d\<in>set (ds_matches (snd (discover_deposits demo_keys (\<lambda>n. (n - 1) div 3) [0, 1, 2, 3] demo_guardians demo_client))).
     dd_account d = 25 \<and> dd_block_number d = 100 \<and> dd_claim_pk d = [3] \<and> unat (dd_value d) = 10000000"
proof -
  let ?l = "\<lparr>tl_block_number = 100, tl_to = 25, tl_value = 10000000\<rparr> :: TransferLog"
  let ?r = "discover_deposits demo_keys (\<lambda>n. (n - 1) div 3) [0, 1, 2, 3] demo_guardians demo_client"
  have g: "demo_guardians p = guardian_source (\<lambda>_. True) (\<lambda>_. demo_log)" if "p \<notin> {3}" for p
    using that by (auto simp: demo_guardians_def)
  have l: "?l \<in> set demo_chain" by (simp add: demo_chain_def)
  have k: "map_of (claim_keys demo_client) (tl_to ?l) = Some [3]" "(case scan_cursor demo_client of None \<Rightarrow> 0 | Some s \<Rightarrow> s) < tl_block_number ?l"
    by (simp_all add: demo_client_def)
  have "\<exists>d\<in>set (ds_matches (snd ?r)). dd_account d = tl_to ?l \<and> dd_block_number d = tl_block_number ?l \<and> dd_claim_pk d = public_key demo_keys [3] \<and>
      unat (dd_value d) = min (unat (tl_value ?l)) (2 ^ 64 - 1)"
    by (rule deposits_discovered [OF surjective_pairing _ _ _ _ l _ demo_potential k, where faulty = "{3}" and u = demo_usdt and c = demo_scan
        and up = "\<lambda>_ _. True" and logs = "\<lambda>_ _. demo_log"])
      (use g demo_watches demo_discovery in simp_all)
  then show ?thesis by (simp add: demo_keys_def)
qed

section \<open>Allocated addresses\<close>

text \<open>
  What the derivation needs of secp256k1: adding two tweaks to a point is adding their sum, and adding a
  tweak to a secret key adds it to the public key.
\<close>

definition tweak_laws :: "evm_platform \<Rightarrow> 'k key_platform \<Rightarrow> bool" where
  "tweak_laws P K \<longleftrightarrow>
     (\<forall>pk a q r. add_exp_tweak P pk a = Some q \<longrightarrow> add_exp_tweak P q 1 = Some r \<longrightarrow> unat a + 1 < 2 ^ 64 \<longrightarrow>
        add_exp_tweak P pk (a + 1) = Some r) \<and>
     (\<forall>k t k'. add_tweak K k t = Some k' \<longrightarrow> add_exp_tweak P (public_key K k) t = Some (public_key K k'))"

text \<open>The point of a tweak of the base point.\<close>

definition tweaked :: "evm_platform \<Rightarrow> PublicKey \<Rightarrow> u64 \<Rightarrow> PublicKey \<Rightarrow> bool" where
  "tweaked P base_pk tweak pk \<longleftrightarrow> (if tweak = 0 then pk = base_pk else add_exp_tweak P base_pk tweak = Some pk)"

lemma tweaked_step:
  assumes "tweak_laws P K" and "tweaked P base_pk tweak pk" and "add_exp_tweak P pk 1 = Some pk'" and "unat tweak + 1 < 2 ^ 64"
  shows "tweaked P base_pk (tweak + 1) pk'"
proof (cases "tweak = 0")
  case False
  have "unat (tweak + 1) \<noteq> 0" using assms(4) by (simp add: unat_word_ariths)
  then have "tweak + 1 \<noteq> 0" by auto
  moreover have "add_exp_tweak P base_pk (tweak + 1) = Some pk'"
    using assms False unfolding tweak_laws_def tweaked_def by simp
  ultimately show ?thesis by (simp add: tweaked_def)
qed (use assms in \<open>simp add: tweaked_def\<close>)

lemma scan_loop_found:
  assumes "scan_loop P gpk factory init_hash pk tweak n = Ok (Some (tweak', pk', account))" and laws: "tweak_laws P K"
    and "tweaked P base_pk tweak pk" and "unat tweak + n < 2 ^ 64"
  shows "is_potential_deposit P gpk account \<and> account = create2 P factory (deposit_salt P pk') init_hash \<and> tweaked P base_pk tweak' pk'"
  using assms(1,3,4)
proof (induction n arbitrary: pk tweak)
  case (Suc n)
  show ?case
  proof (cases "is_potential_deposit P gpk (create2 P factory (deposit_salt P pk) init_hash)")
    case True
    then show ?thesis using Suc.prems by (auto simp: Let_def)
  next
    case False
    with Suc.prems(1) obtain q where q: "add_exp_tweak P pk 1 = Some q" "scan_loop P gpk factory init_hash q (tweak + 1) n = Ok (Some (tweak', pk', account))"
      by (auto simp: Let_def and_then_eq_Ok)
    have "unat (tweak + 1) = unat tweak + 1" using Suc.prems(3) by (simp add: unat_word_ariths)
    then show ?thesis using Suc.IH [OF q(2) tweaked_step [OF laws Suc.prems(2) q(1)]] Suc.prems(3) by auto
  qed
qed simp

lemma find_scan_tweak_found:
  assumes "find_scan_tweak P gpk factory impl base_pk a b = Ok (Some (tweak, pk, account))" and laws: "tweak_laws P K"
  shows "is_potential_deposit P gpk account \<and> account = derive_deposit_account P gpk factory impl pk \<and> tweaked P base_pk tweak pk"
proof -
  let ?h = "deposit_init_code_hash P impl (evm_address P gpk)" and ?e = "min b MAX_SCAN_GRIND_ITERATIONS"
  obtain pk0 where pk0: "tweaked P base_pk a pk0"
    and loop: "scan_loop P gpk factory ?h pk0 a (unat ?e - unat a) = Ok (Some (tweak, pk, account))"
    using assms(1) by (auto simp: find_scan_tweak_def Let_def and_then_eq_Ok tweaked_def split: if_splits)
  have "unat a + (unat ?e - unat a) < 2 ^ 64" using unat_bound [of ?e] unat_bound [of a] by simp
  from scan_loop_found [OF loop laws pk0 this] show ?thesis
    by (auto simp: derive_deposit_account_def create2_simple_account_def)
qed

lemma ground_key_public:
  assumes "ground_key K base tweak = Ok keypair" and "tweaked P (public_key K base) tweak pk" and "tweak_laws P K"
  shows "public_key K keypair = pk"
  using assms by (auto simp: ground_key_def tweaked_def tweak_laws_def split: if_splits)

lemma ground_loop_found:
  assumes "ground_loop P K cfg base start_at = Ok (tweak, keypair, account)" and "tweak_laws P K"
  shows "is_potential_deposit P (cc_group_public_key cfg) account \<and> account = deposit_address P cfg (public_key K keypair)"
  using assms
proof (induction P K cfg base start_at rule: ground_loop.induct)
  case (1 P K cfg base start_at)
  let ?f = "find_scan_tweak P (cc_group_public_key cfg) (cc_account_factory cfg) (cc_simple_account_impl cfg)
      (public_key K base) start_at (saturating_add start_at SCAN_GRIND_CHUNK)"
  have lt: "start_at < MAX_SCAN_GRIND_ITERATIONS" using "1.prems" by (simp add: ground_loop.simps split: if_splits)
  show ?case
  proof (cases "\<exists>t pk a. ?f = Ok (Some (t, pk, a))")
    case True
    then obtain t pk a where f: "?f = Ok (Some (t, pk, a))" by blast
    then have "account = a" "ground_key K base t = Ok keypair"
      using "1.prems"(1) lt by (auto simp: ground_loop.simps [of P K cfg base start_at] and_then_eq_Ok split: if_splits)
    then show ?thesis using find_scan_tweak_found [OF f "1.prems"(2)] ground_key_public [OF _ _ "1.prems"(2)] by (auto simp: deposit_address_def)
  next
    case False
    then have f: "?f = Ok None" and g: "ground_loop P K cfg base (saturating_add start_at SCAN_GRIND_CHUNK) = Ok (tweak, keypair, account)"
      using "1.prems"(1) lt by (auto simp: ground_loop.simps [of P K cfg base start_at] Let_def split: result.splits option.splits)
    from "1.IH" [OF lt refl f refl g "1.prems"(2)] show ?thesis .
  qed
qed

text \<open>
  C10. An allocated address is discoverable and claimable. Given the two laws of secp256k1 that the
  derivation relies on, when the client hands out a deposit address, the address passes the predicate the
  guardians scan for, is the account the server derives from the public key of the stored key pair, and
  the key pair is in the database before the address is shown; the next allocation uses the next index.
\<close>

theorem allocated_address_claimable:
  assumes "allocate_deposit P K cfg status db = (db', Ok (keypair, account))" and "tweak_laws P K"
    and "cc_group_public_key cfg = group_public_key (usdt_cfg u)" and "cc_account_factory cfg = account_factory (usdt_cfg u)"
    and "cc_simple_account_impl cfg = simple_account_impl (usdt_cfg u)"
  shows "is_potential_deposit P (group_public_key (usdt_cfg u)) account \<and> account = deposit_account P u (public_key K keypair) \<and>
    map_of (claim_keys db') account = Some keypair \<and>
    next_deposit_index db' = Some (saturating_add (case next_deposit_index db of None \<Rightarrow> 0 | Some i \<Rightarrow> i) 1)"
proof -
  let ?i = "case next_deposit_index db of None \<Rightarrow> 0 | Some i \<Rightarrow> i"
  obtain tweak where g: "ground_claim_keypair P K cfg (claim_keypair K ?i) = Ok (tweak, keypair, account)"
    and db': "db' = db\<lparr>next_deposit_index := Some (saturating_add ?i 1), claim_keys := AList.update account keypair (claim_keys db)\<rparr>"
    using assms(1) by (auto simp: allocate_deposit_def Let_def split: option.splits if_splits result.splits)
  from ground_loop_found [OF g [unfolded ground_claim_keypair_def] assms(2)] show ?thesis
    by (auto simp: db' update_conv' deposit_address_def deposit_account_def assms(3-5))
qed

text \<open>A platform where the first key already passes the predicate.\<close>

definition demo_client_config :: UsdtClientConfig where
  "demo_client_config = \<lparr>cc_group_public_key = [4], cc_network = ''regtest'', cc_usdt_contract = 8, cc_chain_id = 1, cc_confirmation_depth = 12,
     cc_entry_point = 5, cc_account_factory = 6, cc_simple_account_impl = 7\<rparr>"

definition demo_ready :: StatusResponse where
  "demo_ready = \<lparr>st_state = Ready, st_entry_point_ok = True, st_factory_ok = True, st_impl_ok = True, st_funded_guardians = 1,
     st_healthy_guardians = 1, st_threshold = 1\<rparr>"

lemma demo_ground: "ground_claim_keypair scan_evm demo_keys demo_client_config k = Ok (0, k, deposit_address scan_evm demo_client_config k)"
proof -
  let ?h = "deposit_init_code_hash scan_evm 7 (evm_address scan_evm [4])"
  have "find_scan_tweak scan_evm [4] 6 7 k 0 256 = Ok (Some (0, k, derive_deposit_account scan_evm [4] 6 7 k))"
    using scan_loop.simps(2) [of scan_evm "[4]" 6 ?h k 0 255]
    by (simp add: find_scan_tweak_def MAX_SCAN_GRIND_ITERATIONS_def Let_def derive_deposit_account_def create2_simple_account_def demo_potential
        del: scan_loop.simps)
  then show ?thesis
    by (simp add: ground_claim_keypair_def ground_loop.simps MAX_SCAN_GRIND_ITERATIONS_def SCAN_GRIND_CHUNK_def eval_ops demo_client_config_def
        demo_keys_def ground_key_def deposit_address_def Let_def)
qed

text \<open>A platform where only the account of keys that start with 9 passes, so that the key of index 4 moves by two.\<close>

definition grind_evm :: evm_platform where
  "grind_evm = demo_evm\<lparr>keccak256 := (\<lambda>bs. if last bs = 9 then [0, 0] else bs), create2 := (\<lambda>_ salt _. if salt = [0, 0] then 9 else 7)\<rparr>"

lemma demo_tweak_laws: "tweak_laws grind_evm demo_keys"
proof -
  have "ucast (a + 1) = (ucast a + 1 :: 8 word)" if "unat a + 1 < 2 ^ 64" for a :: u64
    using that by (simp add: word_eq_unat unat_word_ariths unsigned_ucast_eq take_bit_eq_mod mod_simps)
  then have "demo_add_tweak (demo_add_tweak pk a) 1 = demo_add_tweak pk (a + 1)" if "unat a + 1 < 2 ^ 64" for pk a
    using that by (cases pk) (simp_all add: add.assoc)
  then show ?thesis by (simp add: tweak_laws_def grind_evm_def demo_evm_def demo_keys_def)
qed

lemma grind_found: "find_scan_tweak grind_evm [4] 6 7 [7] 0 256 = Ok (Some (2, [9], 9))"
proof -
  let ?h = "deposit_init_code_hash grind_evm 7 (evm_address grind_evm [4])"
  have last9: "last (be_bytes 20 9) = (9 :: 8 word)" "last (be_bytes 20 7) = (7 :: 8 word)" "be_bytes 20 9 \<noteq> []" by code_simp+
  have c: "create2 grind_evm 6 (deposit_salt grind_evm [x]) h = (if x = 9 then 9 else 7)" for x h
    by (simp add: grind_evm_def deposit_salt_def DEPOSIT_ADDRESS_DOMAIN_def)
  have p: "is_potential_deposit grind_evm [4] 9" "\<not> is_potential_deposit grind_evm [4] 7"
    by (simp_all add: is_potential_deposit_def grind_evm_def addr_bytes_def last9 has_leading_zero_bits_def DEPOSIT_SCAN_TAG_BITS_def
        SCAN_PREDICATE_DOMAIN_def)
  have t: "add_exp_tweak grind_evm [x] 1 = Some [x + 1]" for x by (simp add: grind_evm_def demo_evm_def)
  have "scan_loop grind_evm [4] 6 ?h [7] 0 256 = Ok (Some (2, [9], 9))"
    using scan_loop.simps(2) [of grind_evm "[4]" 6 ?h "[7]" 0 255] scan_loop.simps(2) [of grind_evm "[4]" 6 ?h "[8]" 1 254]
      scan_loop.simps(2) [of grind_evm "[4]" 6 ?h "[9]" 2 253]
    by (simp add: c p t Let_def del: scan_loop.simps)
  then show ?thesis by (simp add: find_scan_tweak_def MAX_SCAN_GRIND_ITERATIONS_def Let_def del: scan_loop.simps)
qed

theorem allocated_address_claimable_witness:
  "\<exists>db'. allocate_deposit grind_evm demo_keys demo_client_config (Some demo_ready) (demo_client\<lparr>next_deposit_index := Some 4\<rparr>) = (db', Ok ([9], 9)) \<and>
     is_potential_deposit grind_evm [4] 9 \<and> 9 = deposit_account grind_evm demo_usdt [9] \<and>
     map_of (claim_keys db') 9 = Some [9] \<and> next_deposit_index db' = Some 5"
proof -
  let ?c = "demo_client\<lparr>next_deposit_index := Some 4\<rparr>"
  let ?db = "?c\<lparr>next_deposit_index := Some 5, claim_keys := AList.update 9 [9] (claim_keys ?c)\<rparr>"
  have "ground_claim_keypair grind_evm demo_keys demo_client_config [7] = Ok (2, [9], 9)"
    by (simp add: ground_claim_keypair_def ground_loop.simps MAX_SCAN_GRIND_ITERATIONS_def SCAN_GRIND_CHUNK_def eval_ops demo_client_config_def
        demo_keys_def grind_found ground_key_def)
  then have al: "allocate_deposit grind_evm demo_keys demo_client_config (Some demo_ready) ?c = (?db, Ok ([9], 9))"
    by (simp add: allocate_deposit_def demo_ready_def) (simp add: demo_keys_def eval_ops)
  have cfg: "cc_group_public_key demo_client_config = group_public_key (usdt_cfg demo_usdt)"
    "cc_account_factory demo_client_config = account_factory (usdt_cfg demo_usdt)"
    "cc_simple_account_impl demo_client_config = simple_account_impl (usdt_cfg demo_usdt)"
    by (simp_all add: demo_client_config_def demo_usdt_def)
  have k: "group_public_key (usdt_cfg demo_usdt) = [4]" "public_key demo_keys [9] = [9]"
    "saturating_add (case next_deposit_index ?c of None \<Rightarrow> 0 | Some i \<Rightarrow> i) 1 = (5 :: u64)"
    by (simp_all add: demo_usdt_def demo_keys_def eval_ops)
  from allocated_address_claimable [OF al demo_tweak_laws cfg, unfolded k] al show ?thesis by blast
qed

section \<open>Claims\<close>

text \<open>The answers of a server in one state, and a client configured for it.\<close>

definition answers_from :: "evm_platform \<Rightarrow> Usdt \<Rightarrow> usdt_db \<Rightarrow> usdt_api \<Rightarrow> bool" where
  "answers_from P u sdb api \<longleftrightarrow>
     (\<forall>pk. api_deposit_status api pk = Some (handle_deposit_status P u sdb pk)) \<and>
     api_deposit_fee_quote api = Some (handle_deposit_fee_quote P u sdb)"

definition configured_for :: "Usdt \<Rightarrow> UsdtClientConfig \<Rightarrow> bool" where
  "configured_for u cfg \<longleftrightarrow> cc_group_public_key cfg = group_public_key (usdt_cfg u) \<and> cc_account_factory cfg = account_factory (usdt_cfg u) \<and>
     cc_simple_account_impl cfg = simple_account_impl (usdt_cfg u) \<and> cc_usdt_contract cfg = usdt_contract (usdt_cfg u)"

lemma prebuilt_result:
  assumes "submit_prebuilt_deposit_proof P K cfg api submit keypair dp proven cap high db = (db', Ok inp)"
  obtains status quote where "api_deposit_status api (public_key K keypair) = Some status" "api_deposit_fee_quote api = Some quote" "fq_available quote"
    "saturating_sub proven (dst_credited status) \<noteq> 0" "\<not> saturating_sub proven (dst_credited status) \<le> fq_fee quote"
    "inp = \<lparr>ci_input = DepositProofV0 (public_key K keypair) dp (fq_fee quote), ci_keys = [keypair],
       ci_amounts = saturating_sub proven (dst_credited status) - fq_fee quote\<rparr>"
    "check_fee_cap (fq_fee quote) (saturating_sub proven (dst_credited status)) cap high = Ok ()"
  using assms
  by (auto simp: submit_prebuilt_deposit_proof_def Let_def and_then_eq_Ok ensure_fee_quote_available_def deposit_proof_input_def sub_p_def checked_sub_def
      split: if_splits)

text \<open>
  C6. What the client claims, the server credits. When the client submits a claim against the answers of
  a server state and the proof it fetched is anchored there and proves the amount it expects, the server
  in that state accepts the input, for the key the client signs with, and the amount after fees is the
  amount the client put in its transaction.
\<close>

theorem client_claim_accepted:
  assumes "submit_prebuilt_deposit_proof P K cfg api submit keypair dp proven cap high db = (db', Ok inp)"
    and "answers_from P u sdb api" and "configured_for u cfg"
    and "ring_hash_at sdb (block_number dp) = Some h"
    and "verify_deposit_proof P dp h (cc_usdt_contract cfg) (deposit_address P cfg (public_key K keypair)) = Ok proven"
  shows "\<exists>sdb' amounts. process_input_usdt P u sdb (ci_input inp) = Ok (sdb', amounts, public_key K keypair) \<and>
    unat (ta_amount amounts) = unat (ta_fees amounts) + unat (ci_amounts inp) \<and> ci_keys inp = [keypair]"
proof -
  let ?pk = "public_key K keypair"
  let ?a = "deposit_account P u ?pk"
  let ?r = "case map_of (deposit_records sdb) ?a of Some r \<Rightarrow> r | None \<Rightarrow> new_deposit_record ?pk"
  from prebuilt_result [OF assms(1)] obtain status quote where st: "api_deposit_status api ?pk = Some status"
    "api_deposit_fee_quote api = Some quote" "fq_available quote"
    and d: "saturating_sub proven (dst_credited status) \<noteq> 0" "\<not> saturating_sub proven (dst_credited status) \<le> fq_fee quote"
    and inp: "inp = \<lparr>ci_input = DepositProofV0 ?pk dp (fq_fee quote), ci_keys = [keypair],
       ci_amounts = saturating_sub proven (dst_credited status) - fq_fee quote\<rparr>" by metis
  have "status = handle_deposit_status P u sdb ?pk" and q: "quote = handle_deposit_fee_quote P u sdb"
    using assms(2) st by (simp_all add: answers_from_def)
  then have c: "dst_credited status = credited ?r"
    by (simp add: handle_deposit_status_def Let_def new_deposit_record_def split: option.split)
  from st(3) q obtain median fee where m: "fee_vote_median P u sdb = Some median" "deposit_fee_quote median = Some fee" "fq_fee quote = fee"
    by (auto simp: handle_deposit_fee_quote_def quote_response_def split: option.splits bind_splits)
  have a: "deposit_address P cfg ?pk = ?a" "cc_usdt_contract cfg = usdt_contract (usdt_cfg u)"
    using assms(3) by (simp_all add: deposit_address_def deposit_account_def configured_for_def)
  have "unat fee < unat (saturating_sub proven (credited ?r))" using d(2) unfolding c m(3) by (simp add: word_order)
  then have "unat (saturating_sub proven (credited ?r)) = unat fee + unat (saturating_sub proven (credited ?r) - fee)"
    by (simp add: unat_sub word_order)
  then show ?thesis
    using assms(4) assms(5) [unfolded a] d m
    by (auto simp: inp process_input_usdt_def process_deposit_proof_def Let_def c m(3) ensure_def)
qed

definition demo_server :: usdt_api where
  "demo_server = \<lparr>api_deposit_status = (\<lambda>pk. Some (handle_deposit_status demo_evm demo_usdt demo_anchored pk)),
     api_deposit_fee_quote = Some (handle_deposit_fee_quote demo_evm demo_usdt demo_anchored),
     api_latest_anchored_block = Some 150, fetch_deposit_proof = (\<lambda>_ _ _ _. Some (demo_proof, 10000000))\<rparr>"

theorem client_claim_accepted_witness:
  "\<exists>db' inp sdb' amounts. submit_prebuilt_deposit_proof demo_evm demo_keys demo_client_config demo_server (\<lambda>_. True) [3] demo_proof 10000000
      None False demo_client = (db', Ok inp) \<and>
    process_input_usdt demo_evm demo_usdt demo_anchored (ci_input inp) = Ok (sdb', amounts, [3]) \<and>
    unat (ta_amount amounts) = unat (ta_fees amounts) + unat (ci_amounts inp) \<and> ci_amounts inp = 8080000"
proof -
  let ?a = "deposit_address demo_evm demo_client_config [3]"
  let ?db = "demo_client\<lparr>claim_keys := AList.update ?a [3] (claim_keys demo_client)\<rparr>"
  let ?inp = "\<lparr>ci_input = DepositProofV0 [3] demo_proof 1920000, ci_keys = [[3]], ci_amounts = 8080000\<rparr>"
  have k: "public_key demo_keys [3] = [3]" by (simp add: demo_keys_def)
  have s: "api_deposit_status demo_server pk = Some (handle_deposit_status demo_evm demo_usdt demo_anchored pk)"
    "api_deposit_fee_quote demo_server = Some (quote_response (Some 1920000))" for pk
    by (simp_all add: demo_server_def handle_deposit_fee_quote_def demo_median demo_quotes)
  have d: "dst_credited (handle_deposit_status demo_evm demo_usdt demo_anchored pk) = 0" for pk
    by (simp add: handle_deposit_status_def demo_ring)
  have c: "check_fee_cap 1920000 10000000 None False = Ok ()" by (simp add: check_fee_cap_def FEE_SANITY_PERCENT_def eval_ops)
  have sub: "submit_prebuilt_deposit_proof demo_evm demo_keys demo_client_config demo_server (\<lambda>_. True) [3] demo_proof 10000000
      None False demo_client = (?db, Ok ?inp)"
    by (simp add: submit_prebuilt_deposit_proof_def s d k c ensure_fee_quote_available_def quote_response_def deposit_proof_input_def eval_ops)
  have a: "answers_from demo_evm demo_usdt demo_anchored demo_server"
    by (simp add: answers_from_def demo_server_def)
  have "configured_for demo_usdt demo_client_config"
    by (simp add: configured_for_def demo_usdt_def demo_client_config_def)
  from client_claim_accepted [OF sub a this demo_ring(1) [folded demo_ring(3)] demo_proven, unfolded k] sub show ?thesis by auto
qed

end
