(* ===== verification/Usdt_Refunds.thy ===== *)
theory Usdt_Refunds
  imports Usdt_Claims
begin

text \<open>
  The client's refund machine against the server. Every row a run leaves behind stems from an accepted
  output of the run, so what the machine reads from the status endpoints decides what becomes of the
  withdrawal it watches.
\<close>

section \<open>Where rows come from\<close>

lemma final_stays: "state_next (Some st) st' \<Longrightarrow> is_final st \<Longrightarrow> st' = Some st"
  by (cases st) (auto simp: state_next_def is_final_def)

lemma run_known:
  assumes "usdt_run P u acts s" and env: "abi_laws P"
  shows "OutputAct x out \<in> set acts \<Longrightarrow> map_of (withdrawal_states (fst s)) out \<noteq> None"
  using assms(1)
proof (induction rule: usdt_run.induct)
  case (run_step acts s a s')
  obtain db issued db' issued' where s: "s = (db, issued)" "s' = (db', issued')" by (cases s, cases s')
  note reach = run_reachable [OF run_step.hyps(1), unfolded s]
  have m: "moves_but (targets a) db db'"
    using step_life [OF _ env usdt_reachable_inv [OF reach env] reachable_life [OF reach env]] run_step.hyps(2) s by blast
  have "map_of (withdrawal_states db') out \<noteq> None" if "a = OutputAct x out"
    using run_step.hyps(2) unfolding s that by (auto simp: update_conv' elim!: usdt_stepE usdt_output_result)
  then show ?case using run_step.IH run_step.prems moves_known [OF m, of out] unfolding s by auto
qed simp

text \<open>No output point is used twice.\<close>

lemma run_output_unique:
  assumes "usdt_run P u acts s" and env: "abi_laws P"
  shows "OutputAct x out \<in> set acts \<Longrightarrow> OutputAct y out \<in> set acts \<Longrightarrow> x = y"
  using assms(1)
proof (induction rule: usdt_run.induct)
  case (run_step acts s a s')
  have "OutputAct z out \<notin> set acts" if "a = OutputAct w out" for z w
    using run_known [OF run_step.hyps(1) env, of z out] run_step.hyps(2) that by (cases s, cases s') (auto elim: usdt_stepE)
  then show ?case using run_step.IH run_step.prems by auto
qed simp

definition row_from :: "usdt_action list \<Rightarrow> OutPoint \<Rightarrow> UsdtWithdrawalV0 \<Rightarrow> bool" where
  "row_from acts out w \<longleftrightarrow> OutputAct (UsdtV0 \<lparr>out_recipient = w_recipient w, out_amount = w_amount w, out_max_fee = w_max_fee w,
     out_refund_pubkey = w_refund_pubkey w\<rparr>) out \<in> set acts"

lemma run_origin:
  assumes "usdt_run P u acts s" and env: "abi_laws P"
  shows "(\<forall>w. map_of (unclaimed_withdrawals (fst s)) out = Some w \<longrightarrow> row_from acts out w) \<and>
    (\<forall>r. map_of (refunds (fst s)) out = Some r \<longrightarrow> (\<exists>w. row_from acts out w \<and> refund_of w r))"
  using assms(1)
proof (induction rule: usdt_run.induct)
  case run_start
  then show ?case by (simp add: empty_usdt_db_def)
next
  case (run_step acts s a s')
  obtain db issued db' issued' where s: "s = (db, issued)" "s' = (db', issued')" by (cases s, cases s')
  note reach = run_reachable [OF run_step.hyps(1), unfolded s]
  have m: "moves_but (targets a) db db'"
    using step_life [OF _ env usdt_reachable_inv [OF reach env] reachable_life [OF reach env]] run_step.hyps(2) s by blast
  have mono: "row_from acts out w \<Longrightarrow> row_from (acts @ [a]) out w" for w by (simp add: row_from_def)
  have "row_from (acts @ [a]) out w" if w: "map_of (unclaimed_withdrawals db') out = Some w" for w
  proof (cases "out \<in> targets a")
    case True
    then consider "a = InputAct (RefundV0 out)" | x where "a = OutputAct x out"
      by (auto simp: targets_def split: usdt_action.splits UsdtInput.splits)
    then show ?thesis
    proof cases
      case 1
      then have "map_of (unclaimed_withdrawals db) out = Some w"
        using run_step.hyps(2) w unfolding s by (auto elim!: usdt_stepE refund_input_result)
      then show ?thesis using run_step.IH mono unfolding s by simp
    next
      case 2
      then show ?thesis
        using run_step.hyps(2) w unfolding s by (auto simp: row_from_def update_conv' elim!: usdt_stepE usdt_output_result)
    qed
  next
    case False
    then show ?thesis using movesD(6) [OF m w] run_step.IH mono unfolding s by simp
  qed
  moreover have "\<exists>w. row_from (acts @ [a]) out w \<and> refund_of w r" if r: "map_of (refunds db') out = Some r" for r
    using movesD(7) [OF m r] run_step.IH unfolding s by (fastforce intro: mono)
  ultimately show ?case unfolding s by simp
qed

text \<open>A refund is paid for failed withdrawals only.\<close>

lemma run_refunded_failed:
  assumes "usdt_run P u acts s" and env: "abi_laws P"
  shows "InputAct (RefundV0 out) \<in> set acts \<Longrightarrow> \<exists>reason. map_of (withdrawal_states (fst s)) out = Some (Failed reason)"
  using assms(1)
proof (induction rule: usdt_run.induct)
  case (run_step acts s a s')
  obtain db issued db' issued' where s: "s = (db, issued)" "s' = (db', issued')" by (cases s, cases s')
  note reach = run_reachable [OF run_step.hyps(1), unfolded s]
  note life = reachable_life [OF reach env]
  have m: "moves_but (targets a) db db'"
    using step_life [OF _ env usdt_reachable_inv [OF reach env] life] run_step.hyps(2) s by blast
  have "\<exists>reason. map_of (withdrawal_states db) out = Some (Failed reason)" if "a = InputAct (RefundV0 out)"
    using run_step.hyps(2) life_refund [of db out] life unfolding s that by (auto simp: life_def elim!: usdt_stepE refund_input_result)
  then obtain reason where "map_of (withdrawal_states db) out = Some (Failed reason)"
    using run_step.IH run_step.prems unfolding s by auto
  then show ?case using final_stays [of "Failed reason" "map_of (withdrawal_states db') out"] movesD(1) [OF m, of out] unfolding s by (simp add: is_final_def)
qed simp

section \<open>Time passing between two answers\<close>

inductive usdt_later :: "evm_platform \<Rightarrow> Usdt \<Rightarrow> usdt_db \<times> nat \<Rightarrow> usdt_action list \<Rightarrow> usdt_db \<times> nat \<Rightarrow> bool" for P u s where
  later_now: "usdt_later P u s [] s"
| later_step: "usdt_later P u s acts s1 \<Longrightarrow> usdt_step P u s1 a s2 \<Longrightarrow> usdt_later P u s (acts @ [a]) s2"

lemma later_run:
  assumes "usdt_later P u s acts2 s'" and "usdt_run P u acts s"
  shows "usdt_run P u (acts @ acts2) s'"
  using assms(1)
proof (induction rule: usdt_later.induct)
  case later_now
  then show ?case using assms(2) by simp
next
  case (later_step acts2 s1 a s2)
  then show ?case using run_step [of P u "acts @ acts2" s1 a s2] by simp
qed

lemma later_final:
  assumes "usdt_later P u s acts2 s'" and run: "usdt_run P u acts s" and env: "abi_laws P"
    and "map_of (withdrawal_states (fst s)) out = Some st" "is_final st"
  shows "map_of (withdrawal_states (fst s')) out = Some st"
  using assms(1)
proof (induction rule: usdt_later.induct)
  case later_now
  then show ?case using assms(4) by simp
next
  case (later_step acts2 s1 a s2)
  obtain db issued db' issued' where s: "s1 = (db, issued)" "s2 = (db', issued')" by (cases s1, cases s2)
  note reach = run_reachable [OF later_run [OF later_step.hyps(1) run], unfolded s]
  have "moves_but (targets a) db db'"
    using step_life [OF _ env usdt_reachable_inv [OF reach env] reachable_life [OF reach env]] later_step.hyps(2) s by blast
  then show ?case using final_stays [OF _ assms(5)] movesD(1) later_step.IH unfolding s by (metis fst_conv)
qed

section \<open>The machine\<close>

text \<open>
  C5. The refund machine tells the truth and gets the money back. The machine of an accepted withdrawal
  reads the withdrawal's status and, later, its refund. When it concludes that the withdrawal was paid,
  it was, and no refund was or will be accepted; when it goes for the refund, the input it builds is
  accepted by the server as it then is, for exactly the amount it expects, no more than amount and fee,
  and for the key the machine holds; and when it concludes that the refund was taken, it was.
\<close>

theorem refund_machine_sound:
  assumes "usdt_run P u acts s" and "usdt_later P u s acts2 s'" and "abi_laws P"
    and "OutputAct (withdraw_output K keypair recipient amount max_fee) (withdrawal_out_point txid) \<in> set acts"
    and "poll_outcome (Some (handle_withdrawal_status (fst s) (withdrawal_out_point txid)))
      (Some (handle_refund_status (fst s') (withdrawal_out_point txid))) = Some outcome"
  shows "case outcome of
      OutcomePaid block \<Rightarrow> map_of (withdrawal_states (fst s')) (withdrawal_out_point txid) = Some (Confirmed block) \<and>
        InputAct (RefundV0 (withdrawal_out_point txid)) \<notin> set (acts @ acts2) \<and>
        process_input_usdt P u (fst s') (RefundV0 (withdrawal_out_point txid)) = Err UnknownRefund
    | OutcomeRefundable a why \<Rightarrow> unat a \<le> unat amount + unat max_fee \<and>
        (\<exists>db'. process_input_usdt P u (fst s') (ci_input (refund_input (withdraw_machine op_id keypair txid) a)) =
          Ok (db', \<lparr>ta_amount = a, ta_fees = 0\<rparr>, public_key K keypair))
    | OutcomeAlreadyRefunded why \<Rightarrow> InputAct (RefundV0 (withdrawal_out_point txid)) \<in> set (acts @ acts2)
    | OutcomeRejected e \<Rightarrow> False"
proof -
  let ?o = "withdrawal_out_point txid" and ?db' = "fst s'"
  note run = later_run [OF assms(2,1)] and later = later_final [OF assms(2,1,3)]
  obtain db' issued' where s': "s' = (db', issued')" by fastforce
  note reach = run_reachable [OF run, unfolded s']
  consider (paid) b where "map_of (withdrawal_states (fst s)) ?o = Some (Confirmed b)" "outcome = OutcomePaid b"
    | (failed) why where "map_of (withdrawal_states (fst s)) ?o = Some (Failed why)"
        "outcome = (case map_of (refunds ?db') ?o of None \<Rightarrow> OutcomeAlreadyRefunded why | Some r \<Rightarrow> OutcomeRefundable (rf_amount r) (rf_reason r))"
    using assms(5) by (auto simp: poll_outcome_def handle_withdrawal_status_def handle_refund_status_def
        split: option.splits WithdrawalState.splits)
  then show ?thesis
  proof cases
    case paid
    have c: "map_of (withdrawal_states ?db') ?o = Some (Confirmed b)" by (rule later [OF paid(1)]) (simp add: is_final_def)
    moreover have "map_of (refunds ?db') ?o = None"
      using life_refund [of db' ?o] reachable_life [OF reach assms(3)] c unfolding s' life_def by (cases "map_of (refunds db') ?o") auto
    ultimately show ?thesis
      using run_refunded_failed [OF run assms(3), of ?o] by (auto simp: paid(2) process_input_usdt_def)
  next
    case failed
    have f: "map_of (withdrawal_states ?db') ?o = Some (Failed why)" by (rule later [OF failed(1)]) (simp add: is_final_def)
    show ?thesis
    proof (cases "map_of (refunds ?db') ?o")
      case None
      then show ?thesis using run_failed [OF run assms(3) f] by (simp add: failed(2))
    next
      case (Some r)
      with run_origin [OF run assms(3), of ?o] obtain w where w: "row_from (acts @ acts2) ?o w" "refund_of w r" by blast
      have "UsdtV0 \<lparr>out_recipient = w_recipient w, out_amount = w_amount w, out_max_fee = w_max_fee w, out_refund_pubkey = w_refund_pubkey w\<rparr> =
          withdraw_output K keypair recipient amount max_fee"
        by (rule run_output_unique [OF run assms(3)]) (use w(1) assms(4) in \<open>auto simp: row_from_def\<close>)
      then show ?thesis using w(2) Some
        by (auto simp: failed(2) refund_of_def withdraw_output_def refund_input_def withdraw_machine_def process_input_usdt_def)
    qed
  qed
qed

text \<open>The failed withdrawal of the demo run, polled before its refund and across it.\<close>

lemma demo_reverted_run:
  obtains acts where "usdt_run demo_evm demo_usdt acts (demo_reverted, 2216000)"
    "OutputAct (withdraw_output demo_keys [5] 77 5000000 864000) (withdrawal_out_point 1) \<in> set acts"
proof -
  from reachable_run [OF demo_deposited_reachable] obtain acts where r: "usdt_run demo_evm demo_usdt acts (demo_deposited, 8080000)" .
  note demo = run_two [OF run_two [OF run_two [OF r demo_step_withdraw demo_step_sign] demo_step_sweep demo_step_batch]
      demo_step_sign_payout demo_step_revert]
  have "UsdtV0 demo_withdrawal = withdraw_output demo_keys [5] 77 5000000 864000"
    by (simp add: demo_withdrawal_def withdraw_output_def demo_keys_def)
  then show ?thesis by (intro that [OF demo]) (simp add: withdrawal_out_point_def)
qed

theorem refund_machine_sound_witness:
  "\<exists>acts db'. usdt_run demo_evm demo_usdt acts (demo_reverted, 2216000) \<and>
     poll_outcome (Some (handle_withdrawal_status demo_reverted (withdrawal_out_point 1)))
       (Some (handle_refund_status demo_reverted (withdrawal_out_point 1))) = Some (OutcomeRefundable 5864000 REVERTS_WHEN_ISOLATED) \<and>
     process_input_usdt demo_evm demo_usdt demo_reverted (ci_input (refund_input (withdraw_machine 9 ([5] :: bytes) 1) 5864000)) =
       Ok (db', \<lparr>ta_amount = 5864000, ta_fees = 0\<rparr>, [5]) \<and>
     poll_outcome (Some (handle_withdrawal_status demo_reverted (withdrawal_out_point 1)))
       (Some (handle_refund_status (demo_reverted\<lparr>refunds := []\<rparr>) (withdrawal_out_point 1))) =
         Some (OutcomeAlreadyRefunded REVERTS_WHEN_ISOLATED) \<and>
     InputAct (RefundV0 (withdrawal_out_point 1)) \<in> set (acts @ [InputAct (RefundV0 (withdrawal_out_point 1))])"
proof -
  obtain acts where r: "usdt_run demo_evm demo_usdt acts (demo_reverted, 2216000)"
    "OutputAct (withdraw_output demo_keys [5] 77 5000000 864000) (withdrawal_out_point 1) \<in> set acts" by (rule demo_reverted_run)
  let ?d = "demo_reverted\<lparr>refunds := []\<rparr>"
  have p: "poll_outcome (Some (handle_withdrawal_status demo_reverted (withdrawal_out_point 1)))
      (Some (handle_refund_status demo_reverted (withdrawal_out_point 1))) = Some (OutcomeRefundable 5864000 REVERTS_WHEN_ISOLATED)"
    "poll_outcome (Some (handle_withdrawal_status demo_reverted (withdrawal_out_point 1)))
      (Some (handle_refund_status ?d (withdrawal_out_point 1))) = Some (OutcomeAlreadyRefunded REVERTS_WHEN_ISOLATED)"
    by (simp_all add: poll_outcome_def handle_withdrawal_status_def handle_refund_status_def withdrawal_out_point_def demo_reverted_def)
  have later: "usdt_later demo_evm demo_usdt (demo_reverted, 2216000) ([] @ [InputAct (RefundV0 (withdrawal_out_point 1))]) (?d, 8080000)"
    by (rule later_step [OF later_now]) (simp add: withdrawal_out_point_def demo_step_refund)
  have k: "public_key demo_keys [5] = [5]" by (simp add: demo_keys_def)
  from refund_machine_sound [OF r(1) later_now demo_abi_laws r(2), of "OutcomeRefundable 5864000 REVERTS_WHEN_ISOLATED" 9] p(1) k
  obtain db' where "process_input_usdt demo_evm demo_usdt demo_reverted (ci_input (refund_input (withdraw_machine 9 ([5] :: bytes) 1) 5864000)) =
      Ok (db', \<lparr>ta_amount = 5864000, ta_fees = 0\<rparr>, [5])" by auto
  moreover from refund_machine_sound [OF r(1) later demo_abi_laws r(2), of "OutcomeAlreadyRefunded REVERTS_WHEN_ISOLATED"] p(2)
  have "InputAct (RefundV0 (withdrawal_out_point 1)) \<in> set (acts @ [InputAct (RefundV0 (withdrawal_out_point 1))])" by simp
  ultimately show ?thesis using r(1) p by blast
qed

end
