(* ===== verification/Usdt_Recovery.thy ===== *)
theory Usdt_Recovery
  imports Usdt_Claims
begin

text \<open>
  Recovery of a client's deposits from its seed: the walk over the deposit indices finds every funded key
  it can reach, and leaves the client with the keys and an index to go on from.
\<close>

definition funded :: "'k key_platform \<Rightarrow> (PublicKey \<Rightarrow> DepositStatusResponse option) \<Rightarrow> 'k \<Rightarrow> bool" where
  "funded K st keypair \<longleftrightarrow> (\<exists>s. st (public_key K keypair) = Some s \<and> dst_credited s > 0)"

text \<open>The keys of one index: the ground key and, when grinding moved it, the plain one.\<close>

definition index_keys :: "evm_platform \<Rightarrow> 'k key_platform \<Rightarrow> UsdtClientConfig \<Rightarrow> u64 \<Rightarrow> 'k list" where
  "index_keys P K cfg index = (case ground_claim_keypair P K cfg (claim_keypair K index) of
     Ok (tweak, ground, _) \<Rightarrow> if tweak \<noteq> 0 then [ground, claim_keypair K index] else [ground] | _ \<Rightarrow> [])"

definition used_index :: "evm_platform \<Rightarrow> 'k key_platform \<Rightarrow> UsdtClientConfig \<Rightarrow> (PublicKey \<Rightarrow> DepositStatusResponse option) \<Rightarrow> u64 \<Rightarrow> bool" where
  "used_index P K cfg st index \<longleftrightarrow> (\<exists>k\<in>set (index_keys P K cfg index). funded K st k)"

text \<open>No run of \<open>gap\<close> unused indices ends before the index.\<close>

definition no_gap_before :: "evm_platform \<Rightarrow> 'k key_platform \<Rightarrow> UsdtClientConfig \<Rightarrow> (PublicKey \<Rightarrow> DepositStatusResponse option) \<Rightarrow> u64 \<Rightarrow> u64 \<Rightarrow> bool" where
  "no_gap_before P K cfg st gap i \<longleftrightarrow>
     (\<forall>k. k + unat gap \<le> unat i \<longrightarrow> (\<exists>j. k \<le> unat j \<and> unat j < k + unat gap \<and> used_index P K cfg st j))"

definition found_key :: "'k key_platform \<Rightarrow> (PublicKey \<Rightarrow> DepositStatusResponse option) \<Rightarrow> u64 \<Rightarrow> 'k \<Rightarrow> RecoveredAccount list \<Rightarrow> 'k usdt_client_db \<Rightarrow> bool" where
  "found_key K st index keypair accounts db \<longleftrightarrow>
     (\<exists>s. st (public_key K keypair) = Some s \<and>
        \<lparr>ra_index = index, ra_account = dst_account s, ra_claim_pk = public_key K keypair, ra_credited = dst_credited s,
         ra_claimable = dst_claimable s\<rparr> \<in> set accounts \<and>
        map_of (claim_keys db) (dst_account s) = Some keypair)"

text \<open>The federation reports the account for a key that the walk can reach.\<close>

definition reported :: "evm_platform \<Rightarrow> 'k key_platform \<Rightarrow> UsdtClientConfig \<Rightarrow> (PublicKey \<Rightarrow> DepositStatusResponse option) \<Rightarrow> EvmAddress \<Rightarrow> 'k \<Rightarrow> bool" where
  "reported P K cfg st account keypair \<longleftrightarrow>
     (\<exists>index. keypair \<in> set (index_keys P K cfg index)) \<and> (\<exists>s. st (public_key K keypair) = Some s \<and> dst_account s = account)"

section \<open>The walk\<close>

text \<open>What the walk leaves of an earlier point of it: a key is replaced only by one reported for the same account.\<close>

definition extends :: "(EvmAddress \<Rightarrow> 'k \<Rightarrow> bool) \<Rightarrow> 'k recovery \<Rightarrow> 'k recovery \<Rightarrow> bool" where
  "extends R rv rv' \<longleftrightarrow> set (rv_accounts rv) \<subseteq> set (rv_accounts rv') \<and>
     (\<forall>a. map_of (claim_keys (rv_db rv')) a = map_of (claim_keys (rv_db rv)) a \<or>
        (\<exists>k. R a k \<and> map_of (claim_keys (rv_db rv')) a = Some k)) \<and>
     next_deposit_index (rv_db rv') = next_deposit_index (rv_db rv)"

lemma extends_refl [simp]: "extends R rv rv" by (simp add: extends_def)

lemma extends_trans: "extends R a b \<Longrightarrow> extends R b c \<Longrightarrow> extends R a c"
  unfolding extends_def by (metis subset_trans)

lemma extends_found:
  assumes "extends (reported P K cfg st) rv rv'" and "\<forall>a k k'. reported P K cfg st a k \<longrightarrow> reported P K cfg st a k' \<longrightarrow> k = k'"
    and "k \<in> set (index_keys P K cfg i)" and "found_key K st j k (rv_accounts rv) (rv_db rv)"
  shows "found_key K st j k (rv_accounts rv') (rv_db rv')"
proof -
  from assms(4) obtain s where s: "st (public_key K k) = Some s" "map_of (claim_keys (rv_db rv)) (dst_account s) = Some k"
    by (auto simp: found_key_def)
  have "reported P K cfg st (dst_account s) k" using assms(3) s(1) by (auto simp: reported_def)
  then have "map_of (claim_keys (rv_db rv')) (dst_account s) = Some k" using assms(1,2) s(2) unfolding extends_def by metis
  then show ?thesis using assms(1,4) s(1) by (auto simp: extends_def found_key_def)
qed

lemma probe_keys_result:
  assumes unique: "\<forall>a k k'. reported P K cfg st a k \<longrightarrow> reported P K cfg st a k' \<longrightarrow> k = k'"
  shows "probe_keys K st chk index ps rv hit = (rv', Ok hit') \<Longrightarrow> set ps \<subseteq> set (index_keys P K cfg index) \<Longrightarrow>
   extends (reported P K cfg st) rv rv' \<and> rv_highest_used_index rv' = rv_highest_used_index rv \<and> (hit' \<longleftrightarrow> hit \<or> (\<exists>k\<in>set ps. funded K st k)) \<and>
   (\<forall>k\<in>set ps. funded K st k \<longrightarrow> found_key K st index k (rv_accounts rv') (rv_db rv'))"
proof (induction ps arbitrary: rv hit)
  case (Cons k ps)
  let ?R = "reported P K cfg st"
  obtain s where s: "st (public_key K k) = Some s" using Cons.prems(1) by (auto simp: Let_def split: option.splits)
  let ?stored = "(rv_db rv)\<lparr>claim_keys := AList.update (dst_account s) k (claim_keys (rv_db rv))\<rparr>"
  let ?add = "rv\<lparr>rv_db := ?stored, rv_total_credited := saturating_add (rv_total_credited rv) (dst_credited s),
     rv_total_claimable := saturating_add (rv_total_claimable rv) (dst_claimable s),
     rv_accounts := rv_accounts rv @ [\<lparr>ra_index = index, ra_account = dst_account s, ra_claim_pk = public_key K k,
       ra_credited = dst_credited s, ra_claimable = dst_claimable s\<rparr>]\<rparr>"
  let ?chk = "rv\<lparr>rv_db := ?stored,
     rv_checked := rv_checked rv @ [\<lparr>ch_index = index, ch_account = dst_account s, ch_claim_pk = public_key K k\<rparr>]\<rparr>"
  have k: "k \<in> set (index_keys P K cfg index)" and ps: "set ps \<subseteq> set (index_keys P K cfg index)" using Cons.prems(2) by simp_all
  then have "?R (dst_account s) k" by (auto simp: reported_def s)
  then have e: "extends ?R rv ?add" "extends ?R rv ?chk" by (auto simp: extends_def update_conv')
  have f: "found_key K st index k (rv_accounts ?add) (rv_db ?add)" by (simp add: found_key_def s update_conv')
  show ?case
  proof (cases "dst_credited s > 0")
    case True
    then have "probe_keys K st chk index ps ?add True = (rv', Ok hit')" using Cons.prems(1) by (simp add: Let_def s)
    from Cons.IH [OF this ps] True show ?thesis
      using extends_trans [OF e(1), of rv'] extends_found [OF _ unique k f, of rv'] by (simp add: funded_def s)
  next
    case False
    then have "probe_keys K st chk index ps (if chk then ?chk else rv) hit = (rv', Ok hit')" using Cons.prems(1) by (simp add: Let_def s split: if_splits)
    from Cons.IH [OF this ps] False show ?thesis
      using extends_trans [OF e(2), of rv'] by (simp add: funded_def s split: if_splits)
  qed
qed simp

lemma recover_step:
  assumes "recover_loop P K cfg st gap chk misses index rv = (rv', Ok ())" and "misses < gap"
    and unique: "\<forall>a k k'. reported P K cfg st a k \<longrightarrow> reported P K cfg st a k' \<longrightarrow> k = k'"
  obtains rv1 where "extends (reported P K cfg st) rv rv1" "rv_highest_used_index rv1 = rv_highest_used_index rv" "unat index + 1 < 2 ^ 64"
    "\<forall>k\<in>set (index_keys P K cfg index). funded K st k \<longrightarrow> found_key K st index k (rv_accounts rv1) (rv_db rv1)"
    "recover_loop P K cfg st gap chk (if used_index P K cfg st index then 0 else misses + 1) (index + 1)
       (if used_index P K cfg st index then rv1\<lparr>rv_highest_used_index := Some index\<rparr> else rv1) = (rv', Ok ())"
proof -
  from assms(1,2) obtain tweak ground a where g: "ground_claim_keypair P K cfg (claim_keypair K index) = Ok (tweak, ground, a)"
    by (auto simp: recover_loop.simps [of P K cfg st gap chk misses index rv] split: result.splits)
  define ps where "ps = (if tweak \<noteq> 0 then [ground, claim_keypair K index] else [ground])"
  have ps: "index_keys P K cfg index = ps" by (simp add: index_keys_def g ps_def)
  from assms(1,2) obtain rv1 hit where p: "probe_keys K st chk index ps rv False = (rv1, Ok hit)"
    by (auto simp: recover_loop.simps [of P K cfg st gap chk misses index rv] g ps_def [symmetric] split: result.splits prod.splits)
  note r = probe_keys_result [OF unique p, unfolded ps, OF subset_refl]
  then have hit: "hit = used_index P K cfg st index" by (simp add: used_index_def ps)
  have "unat index + 1 < 2 ^ 64 \<and> recover_loop P K cfg st gap chk (if hit then 0 else misses + 1) (index + 1)
      (if hit then rv1\<lparr>rv_highest_used_index := Some index\<rparr> else rv1) = (rv', Ok ())"
    using assms(1,2) by (simp add: recover_loop.simps [of P K cfg st gap chk misses index rv] g ps_def [symmetric] p split: if_splits)
  then show ?thesis using r that [of rv1] unfolding hit [symmetric] ps by blast
qed

lemma recover_end: "\<not> misses < gap \<Longrightarrow> recover_loop P K cfg st gap chk misses index rv = (rv, Ok ())"
  by (simp add: recover_loop.simps)

text \<open>The walk stops at a gap only.\<close>

lemma gap_reached:
  assumes "\<not> misses < gap" and "unat misses \<le> unat index" and "misses \<le> gap"
    and "\<And>j. unat index - unat misses \<le> unat j \<Longrightarrow> j < index \<Longrightarrow> \<not> used_index P K cfg st j" and "i \<ge> index"
  shows "\<not> no_gap_before P K cfg st gap i"
proof
  assume gap: "no_gap_before P K cfg st gap i"
  have m: "unat misses = unat gap" using assms(1,3) by (simp add: word_order)
  with assms(2,5) have "unat index - unat misses + unat gap \<le> unat i" by (simp add: word_order)
  then obtain j where "unat index - unat misses \<le> unat j" "unat j < unat index" "used_index P K cfg st j"
    using gap assms(2) m unfolding no_gap_before_def by fastforce
  then show False using assms(4) by (auto simp: word_order)
qed

lemma recover_loop_result:
  assumes "recover_loop P K cfg st gap chk misses index rv = (rv', Ok ())"
    and "unat misses \<le> unat index" and "misses \<le> gap" and "\<And>j. unat index - unat misses \<le> unat j \<Longrightarrow> j < index \<Longrightarrow> \<not> used_index P K cfg st j"
    and "\<And>h. rv_highest_used_index rv = Some h \<Longrightarrow> h < index"
    and unique: "\<forall>a k k'. reported P K cfg st a k \<longrightarrow> reported P K cfg st a k' \<longrightarrow> k = k'"
  shows "extends (reported P K cfg st) rv rv' \<and> (\<forall>h. rv_highest_used_index rv = Some h \<longrightarrow> (\<exists>h'\<ge>h. rv_highest_used_index rv' = Some h')) \<and>
    (\<forall>i\<ge>index. used_index P K cfg st i \<longrightarrow> no_gap_before P K cfg st gap i \<longrightarrow> unat i + 1 < 2 ^ 64 \<and>
      (\<exists>h\<ge>i. rv_highest_used_index rv' = Some h) \<and>
      (\<forall>k\<in>set (index_keys P K cfg i). funded K st k \<longrightarrow> found_key K st i k (rv_accounts rv') (rv_db rv')))"
  using assms(1-5)
proof (induction "2 ^ 64 - unat index" arbitrary: misses index rv rule: less_induct)
  case less
  show ?case
  proof (cases "misses < gap")
    case False
    then have rv': "rv' = rv" using less.prems(1) by (simp add: recover_end)
    show ?thesis using gap_reached [OF False less.prems(2-4)] unfolding rv' by auto
  next
    case True
    let ?u = "used_index P K cfg st index" and ?R = "reported P K cfg st"
    from recover_step [OF less.prems(1) True unique] obtain rv1 where rv1: "extends ?R rv rv1" "rv_highest_used_index rv1 = rv_highest_used_index rv"
      and b: "unat index + 1 < 2 ^ 64"
      and found: "\<forall>k\<in>set (index_keys P K cfg index). funded K st k \<longrightarrow> found_key K st index k (rv_accounts rv1) (rv_db rv1)"
      and rec: "recover_loop P K cfg st gap chk (if ?u then 0 else misses + 1) (index + 1)
        (if ?u then rv1\<lparr>rv_highest_used_index := Some index\<rparr> else rv1) = (rv', Ok ())" by metis
    define rv2 where "rv2 = (if ?u then rv1\<lparr>rv_highest_used_index := Some index\<rparr> else rv1)"
    have n: "unat (index + 1) = unat index + 1" using b by (simp add: unat_word_ariths)
    have m: "unat (if ?u then 0 else misses + 1) = (if ?u then 0 else unat misses + 1)"
      using less.prems(2) b by (simp add: unat_word_ariths)
    have e: "extends ?R rv rv2" "extends ?R rv1 rv2" using rv1(1) by (auto simp: rv2_def extends_def)
    have h: "rv_highest_used_index rv2 = (if ?u then Some index else rv_highest_used_index rv)" by (simp add: rv2_def rv1(2))
    have IH: "extends ?R rv2 rv' \<and> (\<forall>h. rv_highest_used_index rv2 = Some h \<longrightarrow> (\<exists>h'\<ge>h. rv_highest_used_index rv' = Some h')) \<and>
      (\<forall>i\<ge>index + 1. used_index P K cfg st i \<longrightarrow> no_gap_before P K cfg st gap i \<longrightarrow> unat i + 1 < 2 ^ 64 \<and>
        (\<exists>h\<ge>i. rv_highest_used_index rv' = Some h) \<and>
        (\<forall>k\<in>set (index_keys P K cfg i). funded K st k \<longrightarrow> found_key K st i k (rv_accounts rv') (rv_db rv')))"
    proof (rule less.hyps)
      show "2 ^ 64 - unat (index + 1) < 2 ^ 64 - unat index" using b n by simp
      show "recover_loop P K cfg st gap chk (if ?u then 0 else misses + 1) (index + 1) rv2 = (rv', Ok ())" using rec by (simp add: rv2_def)
      show "unat (if ?u then 0 else misses + 1) \<le> unat (index + 1)" using m n less.prems(2) by simp
      show "(if ?u then 0 else misses + 1) \<le> gap" using m True by (simp add: word_order)
      show "\<not> used_index P K cfg st j" if "unat (index + 1) - unat (if ?u then 0 else misses + 1) \<le> unat j" "j < index + 1" for j
      proof (cases "j = index")
        case False
        then have "j < index" using that(2) n by (simp add: word_order word_eq_unat)
        then show ?thesis using that(1) less.prems(4) [of j] m n by (simp add: word_order split: if_splits)
      qed (use that m n in \<open>auto split: if_splits\<close>)
      show "hh < index + 1" if "rv_highest_used_index rv2 = Some hh" for hh
        using that less.prems(5) [of hh] n by (simp add: h word_order split: if_splits)
    qed
    have up: "\<exists>h'\<ge>hh. rv_highest_used_index rv' = Some h'" if "rv_highest_used_index rv = Some hh" for hh
      using IH that less.prems(5) [OF that] by (cases ?u) (force simp: h word_order)+
    have here: "i = index \<or> i \<ge> index + 1" if "i \<ge> index" for i using that n by (auto simp: word_order word_eq_unat)
    have "unat index + 1 < 2 ^ 64 \<and> (\<exists>h\<ge>index. rv_highest_used_index rv' = Some h) \<and>
        (\<forall>k\<in>set (index_keys P K cfg index). funded K st k \<longrightarrow> found_key K st index k (rv_accounts rv') (rv_db rv'))" if "?u"
      using IH h that b found extends_found [OF extends_trans [OF e(2), of rv'] unique] by simp
    then show ?thesis using IH up here extends_trans [OF e(1), of rv'] by blast
  qed
qed

section \<open>Recovery\<close>

text \<open>
  C9. Recovery finds the money. Let the federation not report the same account for two different keys
  of the walk. When recovery from the seed returns, every key of every index that the federation credited
  is in its summary with its account and amounts, and the client's key table holds that very key pair
  under the account, unless a whole gap of unused indices lies before the index; and the next index to
  allocate lies beyond every such index and is never moved back.
\<close>

theorem recovery_complete:
  assumes "recover_deposits_scan P K cfg st gap chk db = (db', Ok summary)"
    and "k \<in> set (index_keys P K cfg i)" and "funded K st k" and "no_gap_before P K cfg st gap i"
    and unique: "\<forall>a k k'. reported P K cfg st a k \<longrightarrow> reported P K cfg st a k' \<longrightarrow> k = k'"
  shows "found_key K st i k (rs_accounts summary) db' \<and>
    (\<exists>n. next_deposit_index db' = Some n \<and> i < n \<and> (\<forall>m. next_deposit_index db = Some m \<longrightarrow> m \<le> n))"
proof -
  let ?rv = "\<lparr>rv_db = db, rv_accounts = [], rv_checked = [], rv_total_credited = 0, rv_total_claimable = 0, rv_highest_used_index = None\<rparr>"
  from assms(1) obtain rv where rv: "recover_loop P K cfg st gap chk 0 0 ?rv = (rv, Ok ())"
    by (auto simp: recover_deposits_scan_def split: prod.splits result.splits)
  have u: "used_index P K cfg st i" using assms(2,3) by (auto simp: used_index_def)
  have all: "extends (reported P K cfg st) ?rv rv" "\<forall>i\<ge>0. used_index P K cfg st i \<longrightarrow> no_gap_before P K cfg st gap i \<longrightarrow> unat i + 1 < 2 ^ 64 \<and>
      (\<exists>h\<ge>i. rv_highest_used_index rv = Some h) \<and>
      (\<forall>k\<in>set (index_keys P K cfg i). funded K st k \<longrightarrow> found_key K st i k (rv_accounts rv) (rv_db rv))"
    using recover_loop_result [OF rv _ _ _ _ unique] by simp_all
  have r: "unat i + 1 < 2 ^ 64" "\<exists>h\<ge>i. rv_highest_used_index rv = Some h" "found_key K st i k (rv_accounts rv) (rv_db rv)"
    using all(2) [rule_format, of i] u assms(2-4) by simp_all
  from r(2) obtain h where h: "i \<le> h" "rv_highest_used_index rv = Some h" by blast
  let ?n = "max (case next_deposit_index (rv_db rv) of None \<Rightarrow> 0 | Some i \<Rightarrow> i) (saturating_add h 1)"
  have res: "db' = (rv_db rv)\<lparr>next_deposit_index := Some ?n\<rparr>" "rs_accounts summary = rv_accounts rv"
    using assms(1) [symmetric, unfolded recover_deposits_scan_def rv prod.case result.case old.unit.case] by (simp_all add: h(2) Let_def)
  have "i < saturating_add h 1" using h(1) r(1) by (auto simp: saturating_add_def word_order unat_word_ariths unat_minus_1)
  then have "i < ?n" by (simp add: less_max_iff_disj)
  moreover have "m \<le> ?n" if "next_deposit_index db = Some m" for m using all(1) that by (simp add: extends_def)
  ultimately show ?thesis using r(3) by (simp add: res found_key_def)
qed

definition demo_funded :: "PublicKey \<Rightarrow> DepositStatusResponse option" where
  "demo_funded pk = Some \<lparr>dst_account = ucast (hd pk), dst_credited = (if pk = [4] then 700 else 0),
     dst_claimed = 0, dst_claimable = (if pk = [4] then 700 else 0)\<rparr>"

definition demo_lost :: "bytes usdt_client_db" where
  "demo_lost = demo_client\<lparr>claim_keys := [], next_deposit_index := None\<rparr>"

theorem recovery_complete_witness:
  "\<exists>db' summary. recover_deposits_scan scan_evm demo_keys demo_client_config demo_funded 2 False demo_lost = (db', Ok summary) \<and>
     found_key demo_keys demo_funded 1 [4] (rs_accounts summary) db' \<and> map_of (claim_keys db') 4 = Some [4] \<and> (\<exists>n. next_deposit_index db' = Some n \<and> 1 < n)"
proof -
  have k: "claim_keypair demo_keys j = [ucast j + 3]" "public_key demo_keys key = key" for j key by (simp_all add: demo_keys_def)
  have probe: "probe_keys demo_keys demo_funded False j [[x]] rv False = (if x = 4 then (rv\<lparr>rv_db := (rv_db rv)\<lparr>claim_keys :=
        AList.update 4 [4] (claim_keys (rv_db rv))\<rparr>,
      rv_total_credited := saturating_add (rv_total_credited rv) 700, rv_total_claimable := saturating_add (rv_total_claimable rv) 700,
      rv_accounts := rv_accounts rv @ [\<lparr>ra_index = j, ra_account = 4, ra_claim_pk = [4],
        ra_credited = 700, ra_claimable = 700\<rparr>]\<rparr>, Ok True) else (rv, Ok False))" for j x rv
    by (simp add: demo_funded_def k Let_def)
  let ?walk = "recover_loop scan_evm demo_keys demo_client_config demo_funded 2 False"
  have step: "\<exists>rv1. ?walk m j rv = ?walk (if ucast j + 3 = (4 :: 8 word) then 0 else m + 1) (j + 1) rv1"
    if "m < 2" "unat j + 1 < 2 ^ 64" for m j rv
    by (subst recover_loop.simps) (use that in \<open>auto simp: demo_ground k probe simp del: probe_keys.simps\<close>)
  have "\<exists>rv. ?walk 2 4 rv0 = (rv, Ok ())" for rv0 by (simp add: recover_end)
  then have "\<exists>rv. ?walk 1 3 rv0 = (rv, Ok ())" for rv0 using step [of 1 3 rv0] by auto
  then have "\<exists>rv. ?walk 0 2 rv0 = (rv, Ok ())" for rv0 using step [of 0 2 rv0] by auto
  then have "\<exists>rv. ?walk 1 1 rv0 = (rv, Ok ())" for rv0 using step [of 1 1 rv0] by auto
  then have "\<exists>rv. ?walk 0 0 rv0 = (rv, Ok ())" for rv0 using step [of 0 0 rv0] by auto
  then obtain rv where "?walk 0 0 \<lparr>rv_db = demo_lost, rv_accounts = [], rv_checked = [], rv_total_credited = 0, rv_total_claimable = 0,
      rv_highest_used_index = None\<rparr> = (rv, Ok ())" by blast
  then obtain db' summary where r: "recover_deposits_scan scan_evm demo_keys demo_client_config demo_funded 2 False demo_lost = (db', Ok summary)"
    unfolding recover_deposits_scan_def by (simp only: prod.case result.case old.unit.case Let_def)
  have keys: "index_keys scan_evm demo_keys demo_client_config i = [[ucast i + 3]]" for i
    by (simp add: index_keys_def demo_ground) (simp add: demo_keys_def)
  have "no_gap_before scan_evm demo_keys demo_client_config demo_funded 2 1" by (simp add: no_gap_before_def)
  moreover have "\<forall>a k k'. reported scan_evm demo_keys demo_client_config demo_funded a k \<longrightarrow>
      reported scan_evm demo_keys demo_client_config demo_funded a k' \<longrightarrow> k = k'"
    by (auto simp: reported_def keys demo_funded_def k word_eq_unat unat_ucast_widen)
  ultimately show ?thesis using r recovery_complete [OF r, of "[4]" 1] keys [of 1]
    by (auto simp: funded_def demo_funded_def k found_key_def)
qed

end
