(* ===== verification/Usdt_Propose.thy ===== *)
theory Usdt_Propose
  imports Usdt_Server
begin

text \<open>
  What a guardian proposes: \<open>consensus_proposal\<close> of the server module, over the observations that its
  background tasks leave in memory, and the endpoint that sets an intent to withdraw fees. The theorems
  show that a proposal never repeats what the guardian has already said.
\<close>

section \<open>Local state\<close>

text \<open>
  The in-memory fields of \<open>Usdt\<close> that a proposal reads. \<open>pending_outgoing\<close> has the payloads of the local
  signers that are ready; an \<open>UserOpConfirmedProposal\<close> is an operation hash with the observation.
\<close>

record usdt_local =
  block_count :: u64
  consensus_progress :: u64
  fee_estimate :: "FeeVote option"
  bootstrap_proposals :: "BootstrapObservation list"
  block_hash_proposals :: "BlockHashObservation option"
  residual_recovery_proposals :: "(EvmAddress \<times> u64) list"
  fee_withdrawal_intent :: "WithdrawFeesVote option"
  pending_outgoing :: "(bytes, bytes) table"
  pending_signature_proposals :: "(bytes \<times> bytes) list"
  user_op_confirmed_proposals :: "(bytes \<times> UserOpConfirmedObservation) list"

datatype UsdtApiError = UsdtUnauthorized | UsdtBadRequest string

definition withdraw_fees_endpoint :: "bool \<Rightarrow> usdt_local \<Rightarrow> EvmAddress \<Rightarrow> u64 \<Rightarrow> (usdt_local, UsdtApiError) result" where
  "withdraw_fees_endpoint has_auth l recipient amt =
     (if \<not> has_auth then Err UsdtUnauthorized
      else if amt = 0 then Err (UsdtBadRequest ''fee-withdrawal amount must be positive'')
      else Ok (l\<lparr>fee_withdrawal_intent := Some \<lparr>wf_recipient = recipient, wf_amount = amt\<rparr>\<rparr>))"

section \<open>The proposal\<close>

definition CATCH_UP_BLOCKS :: "Usdt \<Rightarrow> u64" where
  "CATCH_UP_BLOCKS u = (if running_in_test_env u then 100 else 5)"

definition propose_block_count :: "Usdt \<Rightarrow> usdt_local \<Rightarrow> usdt_db \<Rightarrow> (UsdtConsensusItem list, 'e) result" where
  "propose_block_count u l db =
     (let head = block_count l; current_consensus = consensus_block_count u db in
      and_then (if current_consensus \<noteq> 0
                then and_then (add_p current_consensus (CATCH_UP_BLOCKS u)) (\<lambda>cap. Ok (min head cap))
                else Ok head) (\<lambda>vote.
        let current_vote = (case map_of (block_count_votes db) (usdt_our_peer_id u) of None \<Rightarrow> 0 | Some v \<Rightarrow> v)
        in Ok (if vote > current_vote then [BlockCount vote] else [])))"

definition propose_fee_vote :: "Usdt \<Rightarrow> usdt_local \<Rightarrow> usdt_db \<Rightarrow> UsdtConsensusItem list" where
  "propose_fee_vote u l db =
     (case fee_estimate l of
        None \<Rightarrow> []
      | Some vote \<Rightarrow>
          let should_propose = (case map_of (fee_votes db) (usdt_our_peer_id u) of
                Some stored \<Rightarrow> sf_vote stored \<noteq> vote \<or>
                  saturating_sub (consensus_block_count u db) (recorded_block stored) \<ge> FEE_VOTE_REFRESH_BLOCKS
              | None \<Rightarrow> True)
          in if should_propose then [FeeVoteItem vote] else [])"

definition propose_bootstrap :: "Usdt \<Rightarrow> usdt_local \<Rightarrow> usdt_db \<Rightarrow> UsdtConsensusItem list" where
  "propose_bootstrap u l db =
     (if bootstrap_proposals l = [] then []
      else let obs = last (bootstrap_proposals l)
           in if map_of (bootstrap_votes db) (usdt_our_peer_id u) \<noteq> Some obs then [BootstrapObservationItem obs] else [])"

definition propose_block_hash :: "Usdt \<Rightarrow> usdt_local \<Rightarrow> usdt_db \<Rightarrow> UsdtConsensusItem list" where
  "propose_block_hash u l db =
     (case block_hash_proposals l of
        None \<Rightarrow> []
      | Some obs \<Rightarrow> if map_of (block_hash_votes db) (usdt_our_peer_id u) \<noteq> Some obs then [BlockHash obs] else [])"

definition propose_residuals :: "Usdt \<Rightarrow> usdt_local \<Rightarrow> usdt_db \<Rightarrow> UsdtConsensusItem list" where
  "propose_residuals u l db =
     map (\<lambda>(account, deposit_wei). RecoverResidualItem account deposit_wei)
       (filter (\<lambda>(account, deposit_wei). map_of (recover_residual_votes db) (account, usdt_our_peer_id u) \<noteq> Some deposit_wei)
         (residual_recovery_proposals l))"

definition propose_fee_withdrawal :: "usdt_local \<Rightarrow> UsdtConsensusItem list" where
  "propose_fee_withdrawal l = (case fee_withdrawal_intent l of None \<Rightarrow> [] | Some vote \<Rightarrow> [WithdrawFeesVoteItem vote])"

text \<open>
  The chunks of one session's payload that are not recorded yet. More than \<open>u16::MAX\<close> chunks panic.
\<close>

definition propose_chunks :: "Usdt \<Rightarrow> usdt_db \<Rightarrow> bytes \<Rightarrow> SigningSession \<Rightarrow> bytes \<Rightarrow> (UsdtConsensusItem list, 'e) result" where
  "propose_chunks u db session_id session payload =
     (let chunks = chunk_payload payload in
      if \<not> length chunks < 2 ^ 16 then Panic
      else Ok (map (\<lambda>(i, chunk_bytes). MpcRound \<lparr>mr_session_id = session_id, mr_round = ss_round session, mr_chunk = of_nat i,
                  mr_chunk_count = of_nat (length chunks), mr_payload = chunk_bytes\<rparr>)
               (filter (\<lambda>(i, _). map_of (mpc_round_chunks db) (session_id, ss_round session, usdt_our_peer_id u, of_nat i) = None)
                 (enumerate 0 chunks))))"

fun propose_rounds :: "Usdt \<Rightarrow> usdt_local \<Rightarrow> usdt_db \<Rightarrow> (bytes, SigningSession) table \<Rightarrow> (UsdtConsensusItem list, 'e) result" where
  "propose_rounds u l db [] = Ok []"
| "propose_rounds u l db ((session_id, session) # sessions) =
     and_then (if usdt_our_peer_id u \<notin> set (ss_signers session) then Ok []
               else if ss_state session \<noteq> InProgress then Ok []
               else (case map_of (pending_outgoing l) session_id of
                       None \<Rightarrow> Ok []
                     | Some payload \<Rightarrow> propose_chunks u db session_id session payload)) (\<lambda>items.
     and_then (propose_rounds u l db sessions) (\<lambda>rest. Ok (items @ rest)))"

definition propose_signatures :: "usdt_local \<Rightarrow> usdt_db \<Rightarrow> UsdtConsensusItem list" where
  "propose_signatures l db =
     map (\<lambda>(session_id, signature). MpcSignature session_id signature)
       (filter (\<lambda>(session_id, _). case map_of (signing_sessions db) session_id of
           Some session \<Rightarrow> ss_state session = InProgress | None \<Rightarrow> False) (pending_signature_proposals l))"

definition propose_confirmations :: "Usdt \<Rightarrow> usdt_local \<Rightarrow> usdt_db \<Rightarrow> UsdtConsensusItem list" where
  "propose_confirmations u l db =
     map (\<lambda>(op_hash, obs). UserOpConfirmed op_hash obs)
       (filter (\<lambda>(op_hash, obs). map_of (user_op_confirmed_votes db) (op_hash, usdt_our_peer_id u) \<noteq> Some obs)
         (user_op_confirmed_proposals l))"

definition consensus_proposal_usdt ::
  "evm_platform \<Rightarrow> Usdt \<Rightarrow> usdt_local \<Rightarrow> usdt_db \<Rightarrow> (usdt_local \<times> UsdtConsensusItem list, 'e) result" where
  "consensus_proposal_usdt P u l db =
     and_then (propose_block_count u l db) (\<lambda>counts.
     and_then (propose_rounds u l db (signing_sessions db)) (\<lambda>rounds.
       Ok (l\<lparr>consensus_progress := consensus_progress l + 1, bootstrap_proposals := [], block_hash_proposals := None,
             residual_recovery_proposals := [], fee_withdrawal_intent := None, pending_signature_proposals := [],
             user_op_confirmed_proposals := []\<rparr>,
           counts @ propose_fee_vote u l db @ propose_bootstrap u l db @ propose_block_hash u l db @ propose_residuals u l db @
           propose_fee_withdrawal l @ propose_timed_out_rotations u db @ propose_replace_user_ops P u db @ rounds @
           propose_signatures l db @ propose_confirmations u l db)))"

section \<open>Proposals are news\<close>

lemma chunks_of_sound:
  "list_all (\<lambda>c. length c \<le> n) (chunks_of n payload) \<and> (0 < n \<longrightarrow> concat (chunks_of n payload) = payload \<and> (payload \<noteq> [] \<longrightarrow> chunks_of n payload \<noteq> []))"
proof (induction n payload rule: chunks_of.induct)
  case (2 n payload)
  then show ?case
    using chunks_of.simps(2) [of n payload] chunks_of.simps(2) [of n "[]"] by (cases "payload = []") simp_all
qed (simp add: chunks_of.simps)

text \<open>The chunks of a payload give the payload back, and each fits into an item.\<close>

lemma chunk_payload_sound:
  "concat (chunk_payload payload) = payload \<and> list_all (\<lambda>c. length c \<le> MPC_ROUND_CHUNK_SIZE) (chunk_payload payload) \<and> chunk_payload payload \<noteq> []"
proof -
  have "0 < MPC_ROUND_CHUNK_SIZE" by (simp add: MPC_ROUND_CHUNK_SIZE_def)
  then show ?thesis using chunks_of_sound [of MPC_ROUND_CHUNK_SIZE payload] by (simp add: chunk_payload_def)
qed

text \<open>The errors that say that a guardian repeats itself, or acts out of turn.\<close>

definition already_said :: "ItemError \<Rightarrow> bool" where
  "already_said e \<longleftrightarrow> e \<in> {RedundantBlockCount, RedundantFeeVote, RedundantBootstrapVote, RedundantBlockHash, RedundantResidualVote,
     RedundantConfirmation, RedundantSignature, RedundantChunk, UnknownSigningSession, NotASigner, WrongRound, BadChunkIndex, ChunkTooLarge,
     NotInProgress, NotTimedOut, UnknownSubmittedOp, AlreadySuperseded, OpNotTimedOut}"

lemma no_error_rules:
  "and_then r f = Err e \<longleftrightarrow> r = Err e \<or> (\<exists>x. r = Ok x \<and> f x = Err e)" "add_p v w \<noteq> Err e" "expect m \<noteq> Err e"
  by (auto simp: and_then_def add_p_def expect_def split: result.splits option.splits)

lemma batch_no_error: "maybe_trigger_withdrawal_batch P u db \<noteq> Err e"
  by (simp add: maybe_trigger_withdrawal_batch_def Let_def no_error_rules)

lemma confirmed_no_error: "apply_user_op_confirmed P u db h obs \<noteq> Err e"
  by (simp add: apply_user_op_confirmed_def apply_withdraw_confirmed_def apply_fee_withdrawal_confirmed_def Let_def no_error_rules
      split: option.split UserOpPurpose.split)

lemma proposed_round:
  assumes "propose_rounds u l db sessions = (Ok items :: (UsdtConsensusItem list, 'e) result)" and "item \<in> set items"
  obtains session_id session payload i where "(session_id, session) \<in> set sessions" "usdt_our_peer_id u \<in> set (ss_signers session)"
    "i < length (chunk_payload payload)" "length (chunk_payload payload) < 2 ^ 16"
    "map_of (mpc_round_chunks db) (session_id, ss_round session, usdt_our_peer_id u, of_nat i) = None"
    "item = MpcRound \<lparr>mr_session_id = session_id, mr_round = ss_round session, mr_chunk = of_nat i,
       mr_chunk_count = of_nat (length (chunk_payload payload)), mr_payload = chunk_payload payload ! i\<rparr>"
  using assms
proof (induction u l db sessions arbitrary: items thesis rule: propose_rounds.induct)
  case (2 u l db session_id session sessions)
  from "2.prems"(2) obtain xs rest where r: "propose_rounds u l db sessions = (Ok rest :: (UsdtConsensusItem list, 'e) result)" "items = xs @ rest"
    and xs: "xs = [] \<or> usdt_our_peer_id u \<in> set (ss_signers session) \<and>
      (\<exists>payload. propose_chunks u db session_id session payload = (Ok xs :: (UsdtConsensusItem list, 'e) result))"
    by (auto simp: and_then_eq_Ok split: if_splits option.splits)
  show ?case
  proof (cases "item \<in> set rest")
    case True
    show ?thesis by (rule "2.IH" [OF _ r(1) True]) (rule "2.prems"(1), simp_all)
  next
    case False
    then have i: "item \<in> set xs" using r(2) "2.prems"(3) by simp
    then obtain payload where p: "propose_chunks u db session_id session payload = (Ok xs :: (UsdtConsensusItem list, 'e) result)"
      and me: "usdt_our_peer_id u \<in> set (ss_signers session)" using xs by auto
    from p i obtain k where "k < length (chunk_payload payload)" "length (chunk_payload payload) < 2 ^ 16"
      "map_of (mpc_round_chunks db) (session_id, ss_round session, usdt_our_peer_id u, of_nat k) = None"
      "item = MpcRound \<lparr>mr_session_id = session_id, mr_round = ss_round session, mr_chunk = of_nat k,
         mr_chunk_count = of_nat (length (chunk_payload payload)), mr_payload = chunk_payload payload ! k\<rparr>"
      by (auto simp: propose_chunks_def Let_def in_set_enumerate_eq split: if_splits)
    then show ?thesis by (intro "2.prems"(1) [OF _ me, of session_id k payload]) simp_all
  qed
qed simp

lemma proposed_cases:
  assumes "consensus_proposal_usdt P u l db = (Ok (l', items) :: (usdt_local \<times> UsdtConsensusItem list, 'e) result)" and "item \<in> set items"
  obtains counts where "propose_block_count u l db = (Ok counts :: (UsdtConsensusItem list, 'e) result)" "item \<in> set counts"
  | rounds where "propose_rounds u l db (signing_sessions db) = (Ok rounds :: (UsdtConsensusItem list, 'e) result)" "item \<in> set rounds"
  | "item \<in> set (propose_fee_vote u l db)" | "item \<in> set (propose_bootstrap u l db)" | "item \<in> set (propose_block_hash u l db)"
  | "item \<in> set (propose_residuals u l db)" | "item \<in> set (propose_fee_withdrawal l)" | "item \<in> set (propose_timed_out_rotations u db)"
  | "item \<in> set (propose_replace_user_ops P u db)" | "item \<in> set (propose_signatures l db)" | "item \<in> set (propose_confirmations u l db)"
  using assms by (auto simp: consensus_proposal_usdt_def and_then_eq_Ok)

lemma proposed_round_news:
  assumes "propose_rounds u l db (signing_sessions db) = (Ok rounds :: (UsdtConsensusItem list, 'e) result)" and "item \<in> set rounds"
    and "wf_table (signing_sessions db)" and "process_item_usdt P u db item (usdt_our_peer_id u) = Err e"
  shows "\<not> already_said e"
proof -
  from proposed_round [OF assms(1,2)] obtain session_id session payload i where r: "(session_id, session) \<in> set (signing_sessions db)"
    "usdt_our_peer_id u \<in> set (ss_signers session)" "i < length (chunk_payload payload)" "length (chunk_payload payload) < 2 ^ 16"
    "map_of (mpc_round_chunks db) (session_id, ss_round session, usdt_our_peer_id u, of_nat i) = None"
    and item: "item = MpcRound \<lparr>mr_session_id = session_id, mr_round = ss_round session, mr_chunk = of_nat i,
       mr_chunk_count = of_nat (length (chunk_payload payload)), mr_payload = chunk_payload payload ! i\<rparr>" by metis
  have s: "map_of (signing_sessions db) session_id = Some session" using r(1) assms(3) by (simp add: wf_table_def)
  have c: "unat (of_nat i :: u16) = i" "unat (of_nat (length (chunk_payload payload)) :: u16) = length (chunk_payload payload)"
    using r(3,4) by (simp_all add: unat_of_nat)
  have p: "length (chunk_payload payload ! i) \<le> MPC_ROUND_CHUNK_SIZE"
    using chunk_payload_sound [of payload] r(3) by (simp add: list_all_length)
  show ?thesis
    using assms(4) r(2,3) c p
    by (auto simp: item process_item_usdt_def process_mpc_round_def s r(5) Let_def and_then_def ensure_def already_said_def add_p_def expect_def
        word_order split: if_splits option.splits)
qed

text \<open>
  A guardian does not repeat itself: no item of a proposal, apart from a vote to withdraw fees, is refused
  as redundant, out of turn or aimed at nothing when it is ordered in the state it was proposed in.
\<close>

theorem proposal_is_news:
  assumes "consensus_proposal_usdt P u l db = (Ok (l', items) :: (usdt_local \<times> UsdtConsensusItem list, 'e) result)" and "item \<in> set items"
    and "\<forall>vote. item \<noteq> WithdrawFeesVoteItem vote" and "wf_table (signing_sessions db)" and "wf_table (submitted_user_ops db)"
    and "process_item_usdt P u db item (usdt_our_peer_id u) = Err e"
  shows "\<not> already_said e"
  using assms(1,2)
proof (cases rule: proposed_cases)
  case 1
  then obtain v where "item = BlockCount v" "(case map_of (block_count_votes db) (usdt_our_peer_id u) of None \<Rightarrow> 0 | Some v \<Rightarrow> v) < v"
    by (auto simp: propose_block_count_def Let_def and_then_eq_Ok split: if_splits)
  then show ?thesis using assms(6) by (simp add: process_item_usdt_def ensure_def batch_no_error)
next
  case 2
  then show ?thesis by (rule proposed_round_news [OF _ _ assms(4,6)])
next
  case 3
  then obtain vote where item: "item = FeeVoteItem vote"
    and news: "case map_of (fee_votes db) (usdt_our_peer_id u) of
      Some stored \<Rightarrow> \<not> (sf_vote stored = vote \<and> saturating_sub (consensus_block_count u db) (recorded_block stored) < FEE_VOTE_REFRESH_BLOCKS)
    | None \<Rightarrow> True"
    by (auto simp: propose_fee_vote_def Let_def not_less split: if_splits option.splits)
  show ?thesis
    using assms(6) news by (simp add: item process_item_usdt_def process_fee_vote_def Let_def ensure_def already_said_def split: if_splits)
next
  case 4
  then show ?thesis
    using assms(6) by (auto simp: propose_bootstrap_def process_item_usdt_def process_bootstrap_observation_def Let_def and_then_def ensure_def split: if_splits)
next
  case 5
  then show ?thesis
    using assms(6)
    by (auto simp: propose_block_hash_def process_item_usdt_def process_block_hash_def Let_def and_then_def ensure_def already_said_def add_p_def expect_def
        split: if_splits option.splits result.splits)
next
  case 6
  then show ?thesis
    using assms(6)
    by (auto simp: propose_residuals_def process_item_usdt_def process_recover_residual_def Let_def and_then_def ensure_def already_said_def
        split: if_splits option.splits result.splits)
next
  case 7
  then show ?thesis using assms(3) by (auto simp: propose_fee_withdrawal_def split: option.splits)
next
  case 8
  then obtain id session where "item = RotateSigning id" "(id, session) \<in> set (signing_sessions db)" "timed_out u db session"
    by (auto simp: propose_timed_out_rotations_def)
  then show ?thesis
    using assms(4,6)
    by (auto simp: process_item_usdt_def process_rotate_signing_def wf_table_def timed_out_def Let_def and_then_def ensure_def add_p_def expect_def
        split: if_splits option.splits result.splits)
next
  case 9
  then obtain h s where "item = ReplaceUserOp h" "(h, s) \<in> set (submitted_user_ops db)" "\<not> superseded s" "op_timed_out u db s"
    by (auto simp: propose_replace_user_ops_def)
  then show ?thesis
    using assms(5,6)
    by (auto simp: process_item_usdt_def process_replace_user_op_def wf_table_def Let_def and_then_def ensure_def already_said_def
        split: if_splits option.splits result.splits UserOpPurpose.splits)
next
  case 10
  then obtain id sig session where "item = MpcSignature id sig" "map_of (signing_sessions db) id = Some session" "ss_state session = InProgress"
    by (auto simp: propose_signatures_def split: option.splits)
  then show ?thesis
    using assms(6)
    by (auto simp: process_item_usdt_def process_mpc_signature_def Let_def and_then_def ensure_def already_said_def
        split: if_splits option.splits result.splits SigningPurpose.splits)
next
  case 11
  then obtain h obs where item: "item = UserOpConfirmed h obs" "map_of (user_op_confirmed_votes db) (h, usdt_our_peer_id u) \<noteq> Some obs"
    by (auto simp: propose_confirmations_def)
  then show ?thesis
    using assms(6)
    by (auto simp: process_item_usdt_def process_user_op_confirmed_def Let_def no_error_rules confirmed_no_error ensure_def already_said_def
        split: if_splits)
qed

lemma fee_vote_only_from_intent:
  assumes "consensus_proposal_usdt P u l db = (Ok (l', items) :: (usdt_local \<times> UsdtConsensusItem list, 'e) result)"
    and none: "fee_withdrawal_intent l = None"
  shows "WithdrawFeesVoteItem vote \<notin> set items"
proof
  assume "WithdrawFeesVoteItem vote \<in> set items"
  with assms(1) show False
  proof (cases rule: proposed_cases)
    case 1
    then show ?thesis by (auto simp: propose_block_count_def Let_def and_then_eq_Ok split: if_splits)
  next
    case 2
    then show ?thesis by (elim proposed_round) (simp, simp)
  next
    case 7
    then show ?thesis using none by (simp add: propose_fee_withdrawal_def)
  qed (auto simp: propose_fee_vote_def propose_bootstrap_def propose_block_hash_def propose_residuals_def propose_timed_out_rotations_def
      propose_replace_user_ops_def propose_signatures_def propose_confirmations_def Let_def split: if_splits option.splits)
qed

text \<open>
  A guardian's intent to withdraw fees needs its authentication and a positive amount, is proposed in the
  next proposal, and only there.
\<close>

theorem fee_intent_proposed_once:
  assumes "withdraw_fees_endpoint has_auth l recipient amt = Ok l1"
    and "consensus_proposal_usdt P u l1 db = (Ok (l2, items) :: (usdt_local \<times> UsdtConsensusItem list, 'e) result)"
    and "consensus_proposal_usdt P u l2 db' = (Ok (l3, items') :: (usdt_local \<times> UsdtConsensusItem list, 'e) result)"
  shows "has_auth \<and> amt > 0 \<and> WithdrawFeesVoteItem \<lparr>wf_recipient = recipient, wf_amount = amt\<rparr> \<in> set items \<and>
    (\<forall>vote. WithdrawFeesVoteItem vote \<notin> set items')"
proof -
  have l1: "has_auth" "amt \<noteq> 0" "fee_withdrawal_intent l1 = Some \<lparr>wf_recipient = recipient, wf_amount = amt\<rparr>"
    using assms(1) by (auto simp: withdraw_fees_endpoint_def split: if_splits)
  have "fee_withdrawal_intent l2 = None" using assms(2) by (auto simp: consensus_proposal_usdt_def and_then_eq_Ok)
  then have "WithdrawFeesVoteItem vote \<notin> set items'" for vote using fee_vote_only_from_intent [OF assms(3)] by blast
  then show ?thesis
    using assms(2) l1 by (auto simp: consensus_proposal_usdt_def and_then_eq_Ok propose_fee_withdrawal_def word_gt_0)
qed

end
