(* ===== verification/Spec2Isabelle.thy ===== *)
theory Spec2Isabelle
  imports Amm_Safety Amm_Fees Amm_Recovery Amm_Client Keeper_Policy Keeper_Oracle Keeper_Main Usdt_Refunds Usdt_Recovery Usdt_Propose
begin

text \<open>
  A verification development of experimint.
\<close>

section \<open>The keeper against the market\<close>

lemma consensus_fee_any_error:
  "consensus_fee_for P amm db pid = (Ok fee :: (u16, 'e) result) \<Longrightarrow>
   consensus_fee_for P amm db pid = (Ok fee :: (u16, 'f) result)"
  by (auto simp: consensus_fee_for_def Let_def clamp_fee_to_band_def clamp_def split: if_splits)

lemma find_pool_fee:
  assumes "pool_summaries P amm db rows = Ok ps" and "find_pool ps pid = Some s"
  shows "consensus_fee_for P amm db pid = (Ok (ps_fee_per_mille s) :: (u16, ApiError) result)"
  using assms
proof (induction rows arbitrary: ps)
  case (Cons row rows)
  obtain q pool where row: "row = (q, pool)" by fastforce
  from Cons.prems(1) obtain fee ps' where ps: "consensus_fee_for P amm db q = (Ok fee :: (u16, ApiError) result)"
    "pool_summaries P amm db rows = Ok ps'"
    "ps = \<lparr>ps_pool = q, ps_reserve_lo = reserve_lo pool, ps_reserve_hi = reserve_hi pool,
            ps_total_shares = total_shares pool, ps_fee_per_mille = fee\<rparr> # ps'"
    by (auto simp: row and_then_eq_Ok)
  show ?case using Cons.IH [OF ps(2)] ps(1) Cons.prems(2) by (auto simp: find_pool_def ps(3) split: if_splits)
qed (simp add: find_pool_def)

text \<open>A trade that fits the curve and the limits of the market is quoted by it.\<close>

lemma quote_swap_returns:
  assumes "map_of (units (cfg amm)) ui = Some params" and "other pid ui = Some uo" and "contains_key (units (cfg amm)) uo"
    and "min_swap_in params \<le> a" and "consensus_fee_for P amm db pid = (Ok fee :: (u16, AmmOutputError) result)"
    and "amount_out (if ui = lo pid then reserve_lo pool else reserve_hi pool)
      (if ui = lo pid then reserve_hi pool else reserve_lo pool) a fee = Ok y"
    and "unat (if ui = lo pid then reserve_lo pool else reserve_hi pool) + unat a \<le> 2 ^ 58"
    and "\<And>x. m = Some x \<Longrightarrow> x \<le> y"
  shows "\<exists>q. quote_swap P amm db pool pid ui a m = Ok q \<and> dy q = y"
proof -
  let ?ri = "if ui = lo pid then reserve_lo pool else reserve_hi pool"
  obtain r where "checked_add ?ri a = Some r" "unat r = unat ?ri + unat a"
    using assms(7) by (cases "checked_add ?ri a") (auto simp: checked_add_None checked_add_Some)
  moreover from this have "\<not> r > MAX_RESERVE" using assms(7) by (simp add: word_order not_less)
  moreover have "\<not> (case m of Some x \<Rightarrow> y < x | None \<Rightarrow> False)" using assms(8) by (auto split: option.split)
  ultimately show ?thesis
    using assms(1-6) by (auto simp: quote_swap_def Let_def not_less)
qed

lemma PoolId_new_of_sides:
  "canonical pool \<Longrightarrow> PoolId_new (lo pool) (hi pool) = Some pool \<and> PoolId_new (hi pool) (lo pool) = Some pool"
  by (auto simp: PoolId_new_def canonical_def)

lemma unit_params_client:
  assumes "unit_params (get_client_config c) u = Ok m"
  shows "\<exists>params. map_of (units c) u = Some params \<and> min_swap_in params = m" and "contains_key (units c) u"
  using assms by (auto simp: unit_params_def get_client_config_def contains_key_def and_then_eq_Ok)

lemma keeper_trade_quoted:
  assumes pool: "canonical pool" and "pools_endpoint P amm db = Ok ps" and s: "find_pool ps pool = Some s"
    and m: "unit_params (get_client_config (cfg amm)) (lo pool) = Ok (min_lo mins)"
      "unit_params (get_client_config (cfg amm)) (hi pool) = Ok (min_hi mins)"
    and t: "side_units side (pool_state pool s) = (ui, uo)" "reserves_for side (pool_state pool s) = (ri, ro)"
      "side_limits side mins bals kcfg = (fl, bal, mn)" "amount_out ri ro a (pool_fee (pool_state pool s)) = Ok y"
      "unat ri + unat a \<le> 2 ^ 58" "unat mn \<le> unat a"
    and "\<And>x. k = Some x \<Longrightarrow> x \<le> y"
  obtains db_pool q where "map_of (pools db) pool = Some db_pool" "PoolId_new ui uo = Some pool"
    "quote_swap P amm db db_pool pool ui a k = Ok q" "dy q = y"
    "reserve_lo db_pool = res_lo (pool_state pool s)" "reserve_hi db_pool = res_hi (pool_state pool s)"
proof -
  have rows: "pool_summaries P amm db (pools db) = Ok ps" using assms(2) by (simp add: pools_endpoint_def)
  obtain db_pool where p: "map_of (pools db) pool = Some db_pool" "ps_reserve_lo s = reserve_lo db_pool"
    "ps_reserve_hi s = reserve_hi db_pool"
    using find_pool_summaries [OF rows, of pool] s by auto
  have fee: "consensus_fee_for P amm db pool = (Ok (ps_fee_per_mille s) :: (u16, AmmOutputError) result)"
    by (rule consensus_fee_any_error [OF find_pool_fee [OF rows s]])
  have neq: "lo pool \<noteq> hi pool" using pool by (rule canonical_distinct)
  have sides: "ui = lo pool \<and> uo = hi pool \<and> ri = reserve_lo db_pool \<and> ro = reserve_hi db_pool \<and> mn = min_lo mins \<or>
      ui = hi pool \<and> uo = lo pool \<and> ri = reserve_hi db_pool \<and> ro = reserve_lo db_pool \<and> mn = min_hi mins"
    using t(1-3) p(2,3) by (cases side) (simp_all add: pool_state_def)
  have params: "\<exists>params. map_of (units (cfg amm)) ui = Some params \<and> min_swap_in params = mn"
    using unit_params_client(1) [OF m(1)] unit_params_client(1) [OF m(2)] by - (rule disjE [OF sides], simp_all)
  have other: "contains_key (units (cfg amm)) uo" using unit_params_client(2) [OF m(1)] unit_params_client(2) [OF m(2)]
    by - (rule disjE [OF sides], simp_all)
  have n: "PoolId_new ui uo = Some pool" using PoolId_new_of_sides [OF pool] by - (rule disjE [OF sides], simp_all)
  have o: "other pool ui = Some uo" using neq by - (rule disjE [OF sides], simp_all add: other_def)
  have r: "(if ui = lo pool then reserve_lo db_pool else reserve_hi db_pool) = ri"
    "(if ui = lo pool then reserve_hi db_pool else reserve_lo db_pool) = ro"
    using neq by - (rule disjE [OF sides], simp_all)+
  obtain params where pr: "map_of (units (cfg amm)) ui = Some params" "min_swap_in params = mn"
    using params by blast
  have le: "min_swap_in params \<le> a" using pr(2) t(6) by (simp add: word_order)
  have out: "amount_out ri ro a (ps_fee_per_mille s) = Ok y" using t(4) by (simp add: pool_state_def)
  have "\<exists>q. quote_swap P amm db db_pool pool ui a k = Ok q \<and> dy q = y"
    by (rule quote_swap_returns [OF pr(1) o other le fee, of db_pool y k, unfolded r, OF out t(5)]) (rule assms(12))
  then obtain q where "quote_swap P amm db db_pool pool ui a k = Ok q" "dy q = y" by (elim exE conjE)
  then show ?thesis by (rule that [OF p(1) n]) (simp_all add: pool_state_def p)
qed

text \<open>
  C30. What the keeper decides is what the market does: a trade decided on a summary the market just
  served, with the dust limits of the market's client configuration, is quoted, its swap settles at
  the quoted amount for a recipient without a balance, and the pool ends at exactly the reserves the
  keeper predicted.
\<close>

theorem keeper_trade_lands_as_predicted:
  assumes "canonical pool" and "pools_endpoint P amm db = Ok ps" and "find_pool ps pool = Some s"
    and "unit_params (get_client_config (cfg amm)) (lo pool) = Ok (min_lo mins)"
    and "unit_params (get_client_config (cfg amm)) (hi pool) = Ok (min_hi mins)"
    and d: "decide (pool_state pool s) mins p bals kcfg = (Ok (Trade ui uo a) :: (Decision, unit) result)"
    and "unat p \<le> 10 ^ 18" and fresh: "map_of (balances db) \<lparr>b_owner = pk, b_unit = uo\<rparr> = None"
  shows "\<exists>r db' t lo' hi' pl. quote_endpoint P amm db ui uo a = Ok r \<and>
    process_swap P amm db ui uo a (q_amount_out r) pk tw = Ok (db', t) \<and>
    apply_trade (pool_state pool s) ui a = Some (lo', hi') \<and>
    map_of (pools db') pool = Some pl \<and> reserve_lo pl = lo' \<and> reserve_hi pl = hi'"
proof -
  have neq: "unit_lo (pool_state pool s) \<noteq> unit_hi (pool_state pool s)"
    using canonical_distinct [OF assms(1)] by (simp add: pool_state_def)
  obtain side dev where st: "size_trade side (pool_state pool s) mins p bals kcfg dev = (Ok (Trade ui uo a) :: (Decision, unit) result)"
    using decide_Trade [OF d] by blast
  obtain ri ro fl bal mn y where t: "side_units side (pool_state pool s) = (ui, uo)"
    "reserves_for side (pool_state pool s) = (ri, ro)" "side_limits side mins bals kcfg = (fl, bal, mn)"
    "amount_out ri ro a (pool_fee (pool_state pool s)) = Ok y" "unat ri + unat a \<le> 2 ^ 58" "unat mn \<le> unat a"
    using size_trade_respects [OF st assms(7)] by metis
  note quoted = keeper_trade_quoted [OF assms(1-5) t]
  obtain db_pool q where q: "map_of (pools db) pool = Some db_pool" "PoolId_new ui uo = Some pool"
    "quote_swap P amm db db_pool pool ui a None = Ok q" "dy q = y"
    "reserve_lo db_pool = res_lo (pool_state pool s)" "reserve_hi db_pool = res_hi (pool_state pool s)"
    by (rule quoted [of None]) auto
  have q': "quote_swap P amm db db_pool pool ui a (Some y) = Ok q"
    using quote_swap_min_out [of P amm db db_pool pool ui a y] q(3,4) by simp
  obtain ri' ro' where r: "unat ri' = unat ri + unat a" "unat ro' = unat ro - unat y"
    "apply_trade (pool_state pool s) ui a = Some (case side of SellBtc \<Rightarrow> (ri', ro') | BuyBtc \<Rightarrow> (ro', ri'))"
    using apply_trade_returns [OF t(4,2,1) neq t(5)] .
  note sr = swap_reserves [OF q(3)]
  have "in_is_lo q \<longleftrightarrow> ui = lo pool" and "reserve_in q = (if ui = lo pool then reserve_lo db_pool else reserve_hi db_pool)"
    and "reserve_out q = (if ui = lo pool then reserve_hi db_pool else reserve_lo db_pool)"
    by (rule quote_swap_Ok [OF q(3)]; assumption)+
  then have side: "in_is_lo q \<longleftrightarrow> side = SellBtc" "reserve_in q = ri" "reserve_out q = ro"
    using t(1,2) q(5,6) canonical_distinct [OF assms(1)] by (cases side; simp add: pool_state_def)+
  have caps: "unat (reserve_in q) \<le> 2 ^ 58" "unat y \<le> 2 ^ 58"
    using t(4) sr(3) side q(4) by (auto simp: amount_out_Ok)
  obtain i where i: "price_impact_per_mille (reserve_in q) (reserve_out q) a y = (Ok i :: (u64, ApiError) result)"
    using price_impact_returns [OF caps] by blast
  have quote: "quote_endpoint P amm db ui uo a = Ok \<lparr>q_amount_out = y, q_price_impact_per_mille = i\<rparr>"
    by (simp add: quote_endpoint_def q i)
  obtain r_out where ro: "unat r_out = unat (reserve_out q) - unat (dy q)"
    and swap: "process_swap P amm db ui uo a y pk tw =
      Ok (db\<lparr>pools := AList.update pool (swapped_pool db_pool q r_out) (pools db),
           balances := AList.update \<lparr>b_owner = pk, b_unit = uo\<rparr>
             \<lparr>b_amount = of_nat (balance_of db pk uo + unat (dy q)), b_tweak = tw\<rparr> (balances db)\<rparr>,
         \<lparr>amounts = Amounts_new_custom P ui a, fees = Amounts_ZERO P\<rparr>)"
    using process_swap_quoted [OF q(2,1) q', of pk tw] fresh by auto
  have "reserve_in_new q = ri'" "r_out = ro'"
    using sr(5) ro r(1,2) side q(4) by (simp_all add: word_eq_unat)
  then have "apply_trade (pool_state pool s) ui a =
      Some (reserve_lo (swapped_pool db_pool q r_out), reserve_hi (swapped_pool db_pool q r_out))"
    using r(3) side(1) by (cases side) (simp_all add: swapped_pool_def)
  then show ?thesis using quote swap by (auto simp: tbl.get_insert)
qed

text \<open>The market and keeper of the witness: four guardians, a pool near the cap, three units to trade.\<close>

definition demo_market :: Amm where
  "demo_market = \<lparr>cfg = default_consensus_config\<lparr>units := [(0, \<lparr>min_swap_in = 2\<rparr>), (1, \<lparr>min_swap_in = 2\<rparr>)]\<rparr>,
     num_peers = 4, our_peer_id = 0\<rparr>"

definition demo_market_db :: amm_db where
  "demo_market_db = empty_db\<lparr>
     pools := [(demo_pool, \<lparr>reserve_lo = 288230376151711741, reserve_hi = 288230376151711744, total_shares = 5000\<rparr>)]\<rparr>"

definition demo_market_summary :: PoolSummary where
  "demo_market_summary = \<lparr>ps_pool = demo_pool, ps_reserve_lo = 288230376151711741, ps_reserve_hi = 288230376151711744,
     ps_total_shares = 5000, ps_fee_per_mille = 3\<rparr>"

theorem keeper_trade_lands_as_predicted_witness:
  "\<exists>r db' t. quote_endpoint demo_platform demo_market demo_market_db 0 1 3 = Ok r \<and>
    process_swap demo_platform demo_market demo_market_db 0 1 3 (q_amount_out r) [2] [9] = Ok (db', t)"
proof -
  have "consensus_fee_for demo_platform demo_market demo_market_db demo_pool = (Ok 3 :: (u16, ApiError) result)"
    by (simp add: consensus_fee_for_def demo_defs demo_market_def demo_market_db_def fee_votes_of_def get_nth_def
        config_fee_for_def fee_for_def clamp_fee_to_band_def clamp_def empty_db_def)
  then have "pools_endpoint demo_platform demo_market demo_market_db = Ok [demo_market_summary]"
    by (simp add: pools_endpoint_def demo_market_db_def demo_market_summary_def)
  moreover have "canonical demo_pool" by (simp add: canonical_def demo_pool_def)
  moreover have "find_pool [demo_market_summary] demo_pool = Some demo_market_summary"
    by (simp add: find_pool_def demo_market_summary_def)
  moreover have "unit_params (get_client_config (cfg demo_market)) (lo demo_pool) = Ok (min_lo demo_mins)"
    "unit_params (get_client_config (cfg demo_market)) (hi demo_pool) = Ok (min_hi demo_mins)"
    by (simp_all add: unit_params_def get_client_config_def demo_market_def demo_pool_def demo_mins_def)
  moreover have "pool_state demo_pool demo_market_summary = demo_state"
    by (simp add: pool_state_def demo_market_summary_def demo_pool_def demo_state_def)
  then have "decide (pool_state demo_pool demo_market_summary) demo_mins 90000000000 demo_balances demo_keeper =
      (Ok (Trade 0 1 3) :: (Decision, unit) result)" by (simp add: demo_decide)
  moreover have "map_of (balances demo_market_db) \<lparr>b_owner = [2], b_unit = 1\<rparr> = None"
    by (simp add: demo_market_db_def empty_db_def)
  ultimately show ?thesis
    using keeper_trade_lands_as_predicted [of demo_pool demo_platform demo_market demo_market_db "[demo_market_summary]"
        demo_market_summary demo_mins 90000000000 demo_balances demo_keeper 0 1 3 "[2]" "[9]"] by auto
qed

end
